(* ===== verification/Prelude.thy ===== *)
theory Prelude
  imports Main "HOL-Library.Word"
begin

text \<open>
  Shared vocabulary of the development: the machine integers of the Rust code, its
  checked and wrapping arithmetic, number formatting, and the generic lemmas on words,
  bytes, lists and association lists that the component theories use.

  Conventions, used by every theory:
  \<^item> \<open>usize\<close>, \<open>u64\<close>, \<open>u32\<close>, \<open>u16\<close> and \<open>u8\<close> are words where the code computes with
    their bits or where wrap-around matters, and \<open>nat\<close> where they only count;
  \<^item> an \<open>i64\<close> sequence number is an \<open>int\<close>; \<open>checked_\<close> operations return \<open>None\<close> outside
    the range of \<open>i64\<close> and the plain operators of the source go through \<open>wrap_i64\<close>,
    the two's complement wrap-around of a build without overflow checks;
  \<^item> a \<open>Result<T, E>\<close> is a value of \<open>'e + 't\<close>, \<open>Inl\<close> for \<open>Err\<close> and \<open>Inr\<close> for \<open>Ok\<close>;
  \<^item> a function that may panic (a failed \<open>assert!\<close>, an \<open>expect\<close>, an index out of range)
    returns an \<open>option\<close>, with \<open>None\<close> for the panic;
  \<^item> a Rust string is the \<open>string\<close> of its UTF-8 bytes; a duration or a clock reading is a
    \<open>nat\<close> of nanoseconds.
\<close>

unbundle bit_operations_syntax

section \<open>Machine integers\<close>

type_synonym u8 = "8 word"
type_synonym u16 = "16 word"
type_synonym u32 = "32 word"
type_synonym u64 = "64 word"
type_synonym usize = "64 word"

definition i64_max :: int where
  "i64_max = 9223372036854775807"

definition i64_min :: int where
  "i64_min = - 9223372036854775808"

definition in_i64 :: "int \<Rightarrow> bool" where
  "in_i64 x \<longleftrightarrow> i64_min \<le> x \<and> x \<le> i64_max"

definition wrap_i64 :: "int \<Rightarrow> int" where
  "wrap_i64 x = signed_take_bit 63 x"

definition checked_i64 :: "int \<Rightarrow> int option" where
  "checked_i64 x = (if in_i64 x then Some x else None)"

definition usize_max :: nat where
  "usize_max = 18446744073709551615"

text \<open>\<open>i64::try_from(n: usize)\<close>: the value when it fits.\<close>

definition i64_try_from_usize :: "nat \<Rightarrow> int option" where
  "i64_try_from_usize n = checked_i64 (int n)"

text \<open>The \<open>as u64\<close> cast of an \<open>i64\<close>.\<close>

definition i64_as_u64 :: "int \<Rightarrow> u64" where
  "i64_as_u64 x = word_of_int x"

named_theorems i64_simps \<open>range facts of the signed 64-bit integers\<close>

lemma in_i64_bounds [i64_simps]:
  "in_i64 x \<longleftrightarrow> - 9223372036854775808 \<le> x \<and> x \<le> 9223372036854775807"
  by (simp add: in_i64_def i64_min_def i64_max_def)

lemma wrap_i64_id [simp]:
  assumes "in_i64 x"
  shows "wrap_i64 x = x"
proof -
  have "signed_take_bit 63 x = x"
    using assms by (intro signed_take_bit_int_eq_self) (simp_all add: i64_simps)
  then show ?thesis by (simp add: wrap_i64_def)
qed

lemma in_i64_wrap [simp]: "in_i64 (wrap_i64 x)"
  using signed_take_bit_int_greater_eq_minus_exp [of 63 x] signed_take_bit_int_less_exp [of 63 x]
  by (simp add: wrap_i64_def i64_simps)

lemma checked_i64_eq_Some [simp]: "checked_i64 x = Some y \<longleftrightarrow> in_i64 x \<and> y = x"
  by (auto simp: checked_i64_def)

lemma checked_i64_eq_None [simp]: "checked_i64 x = None \<longleftrightarrow> \<not> in_i64 x"
  by (simp add: checked_i64_def)

section \<open>Words: shifts, odd multiplication, little-endian bytes\<close>

lemma xor_right_cancel:
  fixes a b c :: "'a::len word"
  shows "a XOR c = b XOR c \<longleftrightarrow> a = b"
  by (metis xor.assoc xor.right_neutral xor_self_eq)

lemma xor_left_cancel:
  fixes a b c :: "'a::len word"
  shows "c XOR a = c XOR b \<longleftrightarrow> a = b"
  by (metis xor.commute xor_right_cancel)


lemma mult_unit_cancel:
  fixes a b p q :: "'a::len word"
  assumes unit: "p * q = 1" and eq: "a * p = b * p"
  shows "a = b"
proof -
  have "a * p * q = b * p * q" using eq by simp
  then show ?thesis using unit by (simp add: mult.assoc)
qed

lemma ucast_u8_u32_inject [simp]:
  "(ucast (a :: u8) :: u32) = ucast b \<longleftrightarrow> a = b"
  by transfer (auto simp: min_def)

lemma ucast_u8_u64_inject [simp]:
  "(ucast (a :: u8) :: u64) = ucast b \<longleftrightarrow> a = b"
  by transfer (auto simp: min_def)

text \<open>The bit test of a power of two, and clearing the low bits of a word.\<close>

lemma nat_and_pred_iff:
  fixes n :: nat
  assumes "n \<noteq> 0"
  shows "n AND (n - 1) = 0 \<longleftrightarrow> (\<exists>k. n = 2 ^ k)"
  using assms
proof (induction n rule: less_induct)
  case (less n)
  show ?case
  proof (cases "even n")
    case True
    then obtain m where n: "n = 2 * m" by (elim evenE)
    have m: "m < n" "m \<noteq> 0" using n less.prems by auto
    have "(n - 1) div 2 = m - 1" "odd (n - 1)" "n div 2 = m"
      using n m by auto
    then have "n AND (n - 1) = 2 * (m AND (m - 1))"
      using True by (subst and_rec) simp
    moreover have "(\<exists>k. n = 2 ^ k) \<longleftrightarrow> (\<exists>k. m = 2 ^ k)"
    proof
      assume "\<exists>k. n = 2 ^ k"
      then obtain k where k: "2 * m = 2 ^ k" using n by auto
      then have "k \<noteq> 0" by (intro notI) simp
      then obtain j where "k = Suc j" by (cases k) auto
      then show "\<exists>k. m = 2 ^ k" using k by auto
    next
      assume "\<exists>k. m = 2 ^ k"
      then obtain k where "m = 2 ^ k" ..
      then have "n = 2 ^ Suc k" using n by simp
      then show "\<exists>k. n = 2 ^ k" ..
    qed
    ultimately show ?thesis using less.IH [OF m] by simp
  next
    case False
    then have "n AND (n - 1) = 2 * (n div 2 AND n div 2)"
      by (subst and_rec) (auto elim!: oddE)
    then have "n AND (n - 1) = 0 \<longleftrightarrow> n = 1" using False by (auto elim!: oddE)
    moreover have "(\<exists>k. n = 2 ^ k) \<longleftrightarrow> n = 1"
      using False by (metis even_power even_numeral power_0 neq0_conv)
    ultimately show ?thesis by simp
  qed
qed

lemma word_and_pred_iff:
  fixes x :: "'a::len word"
  shows "x \<noteq> 0 \<and> x AND (x - 1) = 0 \<longleftrightarrow> (\<exists>k < LENGTH('a). x = 2 ^ k)"
proof (cases "x = 0")
  case True
  then show ?thesis by (auto dest: sym)
next
  case False
  have u: "unat (x - 1) = unat x - 1" using False by (rule unat_minus_one)
  have "x AND (x - 1) = 0 \<longleftrightarrow> unat x AND (unat x - 1) = 0"
    unfolding unat_eq_0 [symmetric] unsigned_and_eq u ..
  also have "\<dots> \<longleftrightarrow> (\<exists>k. unat x = 2 ^ k)"
    using False by (intro nat_and_pred_iff) (simp add: unat_eq_0)
  also have "\<dots> \<longleftrightarrow> (\<exists>k < LENGTH('a). x = 2 ^ k)"
  proof
    assume "\<exists>k. unat x = 2 ^ k"
    then obtain k where k: "unat x = 2 ^ k" ..
    have "(2::nat) ^ k < 2 ^ LENGTH('a)" using unsigned_less [of x] k by (metis unsigned_less)
    then have "k < LENGTH('a)" by simp
    moreover have "x = of_nat (unat x)" by simp
    then have "x = 2 ^ k" using k by simp
    ultimately show "\<exists>k < LENGTH('a). x = 2 ^ k" by blast
  next
    assume "\<exists>k < LENGTH('a). x = 2 ^ k"
    then obtain k where k: "k < LENGTH('a)" "x = of_nat (2 ^ k)" by auto
    then have "unat x = 2 ^ k mod 2 ^ LENGTH('a)" by (simp only: unat_of_nat)
    then have "unat x = 2 ^ k" using k by simp
    then show "\<exists>k. unat x = 2 ^ k" ..
  qed
  finally show ?thesis using False by simp
qed

lemma unat_and_not_mask:
  fixes w :: "'a::len word"
  assumes "k < LENGTH('a)"
  shows "unat (w AND NOT (2 ^ k - 1)) = unat w div 2 ^ k * 2 ^ k"
proof -
  have "w AND NOT (2 ^ k - 1) = push_bit k (drop_bit k w)"
    unfolding mask_eq_exp_minus_1 [symmetric]
    by (auto simp: bit_eq_iff bit_simps)
  moreover have "unat (push_bit k (drop_bit k w)) = unat w div 2 ^ k * 2 ^ k"
  proof -
    have "unat w div 2 ^ k * 2 ^ k \<le> unat w" by (simp add: div_times_less_eq_dividend)
    also have "\<dots> < 2 ^ LENGTH('a)" by (rule unsigned_less)
    finally show ?thesis
      unfolding unsigned_push_bit_eq unsigned_drop_bit_eq
      by (simp add: push_bit_eq_mult drop_bit_eq_div take_bit_nat_eq_self)
  qed
  ultimately show ?thesis by simp
qed

lemma unat_less_exp: "unat (w :: 'a::len word) < 2 ^ LENGTH('a)"
  by (rule unsigned_less)

lemma unat_mod_range [simp]:
  "unat (a :: u16) mod 65536 = unat a"
  "unat (b :: u32) mod 4294967296 = unat b"
  "unat (c :: u64) mod 18446744073709551616 = unat c"
  using unat_less_exp [of a] unat_less_exp [of b] unat_less_exp [of c] by simp_all

text \<open>The \<open>n\<close> low bytes of a number, least significant first, and back.\<close>

primrec nat_le_bytes :: "nat \<Rightarrow> nat \<Rightarrow> u8 list" where
  "nat_le_bytes 0 v = []"
| "nat_le_bytes (Suc n) v = of_nat (v mod 256) # nat_le_bytes n (v div 256)"

primrec nat_of_le_bytes :: "u8 list \<Rightarrow> nat" where
  "nat_of_le_bytes [] = 0"
| "nat_of_le_bytes (b # bs) = unat b + 256 * nat_of_le_bytes bs"

lemma nat_le_bytes_numeral:
  "nat_le_bytes (numeral k) v = of_nat (v mod 256) # nat_le_bytes (pred_numeral k) (v div 256)"
  by (simp only: numeral_eq_Suc [of k] nat_le_bytes.simps)

lemma length_nat_le_bytes [simp]: "length (nat_le_bytes n v) = n"
  by (induction n arbitrary: v) simp_all

lemma unat_byte_mod [simp]: "unat (of_nat (v mod 256) :: u8) = v mod 256"
  by (simp add: unat_of_nat)

lemma nat_of_le_bytes_of_nat: "nat_of_le_bytes (nat_le_bytes n v) = v mod 256 ^ n"
  by (induction n arbitrary: v) (simp_all add: mod_mult2_eq)

lemma nat_le_bytes_of_bytes: "nat_le_bytes (length bs) (nat_of_le_bytes bs) = bs"
proof (induction bs)
  case (Cons b bs)
  have "unat b < 256" using unsigned_less [of b] by simp
  with Cons show ?case by simp
qed simp

lemma nat_of_le_bytes_less: "nat_of_le_bytes bs < 256 ^ length bs"
proof (induction bs)
  case (Cons b bs)
  have "unat b < 256" using unsigned_less [of b] by simp
  with Cons show ?case by simp
qed simp

section \<open>Numbers as text\<close>

definition digit_char :: "nat \<Rightarrow> char" where
  "digit_char d = char_of (if d < 10 then 48 + d else 87 + d)"

definition digit_value :: "char \<Rightarrow> nat" where
  "digit_value c = (let n = of_char c in if n < 58 then n - 48 else n - 87)"

text \<open>Positional notation in a base of at most 36, most significant digit first, as
  \<open>Display\<close> (base 10) and \<open>LowerHex\<close> (base 16) write it.\<close>

fun show_base :: "nat \<Rightarrow> nat \<Rightarrow> string" where
  "show_base b n =
     (if b < 2 \<or> n < b then [digit_char n]
      else show_base b (n div b) @ [digit_char (n mod b)])"

declare show_base.simps [simp del]

definition read_base :: "nat \<Rightarrow> string \<Rightarrow> nat" where
  "read_base b s = foldl (\<lambda>n c. n * b + digit_value c) 0 s"

abbreviation show_nat :: "nat \<Rightarrow> string" where
  "show_nat \<equiv> show_base 10"

definition show_int :: "int \<Rightarrow> string" where
  "show_int i = (if i < 0 then ''-'' @ show_nat (nat (- i)) else show_nat (nat i))"

lemma digit_char_values [simp]:
  "digit_char 0 = CHR ''0''" "digit_char (Suc 0) = CHR ''1''" "digit_char 1 = CHR ''1''"
  "digit_char 2 = CHR ''2''" "digit_char 3 = CHR ''3''" "digit_char 4 = CHR ''4''"
  "digit_char 5 = CHR ''5''" "digit_char 6 = CHR ''6''" "digit_char 7 = CHR ''7''"
  "digit_char 8 = CHR ''8''" "digit_char 9 = CHR ''9''"
  by code_simp+

lemma digit_value_char [simp]:
  assumes "d < 36" shows "digit_value (digit_char d) = d"
  using assms by (simp add: digit_value_def digit_char_def Let_def)

lemma read_show_base:
  assumes "2 \<le> b" "b \<le> 36"
  shows "read_base b (show_base b n) = n"
  using assms
proof (induction b n rule: show_base.induct)
  case (1 b n)
  then show ?case
    by (subst show_base.simps) (auto simp: read_base_def less_le_trans [OF mod_less_divisor])
qed

lemma show_nat_inject [simp]: "show_nat m = show_nat n \<longleftrightarrow> m = n"
proof
  assume "show_nat m = show_nat n"
  then have "read_base 10 (show_nat m) = read_base 10 (show_nat n)" by simp
  then show "m = n" by (simp add: read_show_base)
qed simp

text \<open>\<open>{:?}\<close> of a byte slice.\<close>

text \<open>A name between single quotes, as the error texts show it.\<close>

definition quoted :: "string \<Rightarrow> string" where
  "quoted s = CHR 0x27 # s @ [CHR 0x27]"

fun join_with :: "string \<Rightarrow> string list \<Rightarrow> string" where
  "join_with sep [] = []"
| "join_with sep [x] = x"
| "join_with sep (x # y # ys) = x @ sep @ join_with sep (y # ys)"

definition show_bytes_debug :: "u8 list \<Rightarrow> string" where
  "show_bytes_debug bs = ''['' @ join_with '', '' (map (\<lambda>b. show_nat (unat b)) bs) @ '']''"

end
