(* ===== verification/Config.thy ===== *)
theory Config
  imports Prelude
begin

text \<open>
  The shared data of \<open>disruptor-mp/src/api.rs\<close>: the error type of the crate with its
  rendered messages, the segment configurations and their \<open>Display\<close> texts. Every fallible
  operation of the transport returns \<open>mp_error + 'a\<close>.
\<close>

datatype mp_error =
    SharedMemoryError string
  | MemoryMapError string
  | SegmentNotFound string
  | IncompatibleLayout string
  | PermissionDenied
  | CoordinationTimeout string

type_synonym 'a mp_result = "mp_error + 'a"

text \<open>The \<open>#[error(...)]\<close> texts: \<open>to_string\<close> of an error.\<close>

fun mp_error_text :: "mp_error \<Rightarrow> string" where
  "mp_error_text (SharedMemoryError m) = ''Failed to create shared memory: '' @ m"
| "mp_error_text (MemoryMapError m) = ''Failed to map memory: '' @ m"
| "mp_error_text (SegmentNotFound m) = ''Shared segment not found: '' @ m"
| "mp_error_text (IncompatibleLayout m) = ''Incompatible data layout: '' @ m"
| "mp_error_text PermissionDenied = ''Permission denied''"
| "mp_error_text (CoordinationTimeout m) = ''Coordination timeout: '' @ m"

definition DEFAULT_MAX_CONSUMERS :: nat where
  "DEFAULT_MAX_CONSUMERS = 64"

text \<open>\<open>std::path::Path\<close> as the code uses it: a root flag and the components. The parent of a
  path without components is \<open>None\<close>; the parent of a relative file name is the empty path.\<close>

record path =
  path_absolute :: bool
  path_components :: "string list"

definition path_parent :: "path \<Rightarrow> path option" where
  "path_parent p =
     (if path_components p = [] then None
      else Some (p\<lparr>path_components := butlast (path_components p)\<rparr>))"

definition path_is_empty :: "path \<Rightarrow> bool" where
  "path_is_empty p \<longleftrightarrow> \<not> path_absolute p \<and> path_components p = []"

definition path_join :: "path \<Rightarrow> string \<Rightarrow> path" where
  "path_join p name = p\<lparr>path_components := path_components p @ [name]\<rparr>"

definition path_display :: "path \<Rightarrow> string" where
  "path_display p = (if path_absolute p then ''/'' else []) @ join_with ''/'' (path_components p)"

record shared_memory_config =
  smc_name :: string
  smc_buffer_size :: nat
  smc_element_size :: nat
  smc_create :: bool

definition shared_memory_config_display :: "shared_memory_config \<Rightarrow> string" where
  "shared_memory_config_display c =
     ''SharedMemory(name='' @ smc_name c @ '', size='' @ show_nat (smc_buffer_size c)
     @ '', element_size='' @ show_nat (smc_element_size c) @ '')''"

record mmap_file_config =
  mfc_path :: path
  mfc_buffer_size :: nat
  mfc_element_size :: nat
  mfc_create :: bool

definition mmap_file_config_display :: "mmap_file_config \<Rightarrow> string" where
  "mmap_file_config_display c =
     ''MmapFile(path='' @ path_display (mfc_path c) @ '', size='' @ show_nat (mfc_buffer_size c)
     @ '', element_size='' @ show_nat (mfc_element_size c) @ '')''"

record mmap_cursor_config =
  mcc_path :: path
  mcc_create :: bool

definition mmap_cursor_config_display :: "mmap_cursor_config \<Rightarrow> string" where
  "mmap_cursor_config_display c = ''MmapCursor(path='' @ path_display (mcc_path c) @ '')''"

section \<open>Sequencing fallible steps\<close>

text \<open>The \<open>?\<close> operator on a \<open>Result\<close> and \<open>ok_or_else\<close>.\<close>

definition bind_result :: "'e + 'a \<Rightarrow> ('a \<Rightarrow> 'e + 'b) \<Rightarrow> 'e + 'b" where
  "bind_result r f = (case r of Inl e \<Rightarrow> Inl e | Inr x \<Rightarrow> f x)"

definition ok_or :: "'e \<Rightarrow> 'a option \<Rightarrow> 'e + 'a" where
  "ok_or e x = (case x of None \<Rightarrow> Inl e | Some y \<Rightarrow> Inr y)"

lemma bind_result_simps [simp]:
  "bind_result (Inl e) f = Inl e" "bind_result (Inr x) f = f x"
  by (simp_all add: bind_result_def)

lemma bind_result_eq_Inr:
  "bind_result r f = Inr y \<longleftrightarrow> (\<exists>x. r = Inr x \<and> f x = Inr y)"
  by (cases r) simp_all

lemma ok_or_simps [simp]: "ok_or e None = Inl e" "ok_or e (Some x) = Inr x"
  by (simp_all add: ok_or_def)

section \<open>Loops that wait\<close>

text \<open>A spin loop of the source is run on the finite list of observations it makes (clock
  readings and states of the shared world, one for each iteration). It returns, panics, or has
  used up the observations and is still waiting.\<close>

datatype 'a outcome = Returns 'a | Panics | Waiting

definition bind_outcome :: "'a outcome \<Rightarrow> ('a \<Rightarrow> 'b outcome) \<Rightarrow> 'b outcome" where
  "bind_outcome r f = (case r of Returns x \<Rightarrow> f x | Panics \<Rightarrow> Panics | Waiting \<Rightarrow> Waiting)"

lemma bind_outcome_simps [simp]:
  "bind_outcome (Returns x) f = f x" "bind_outcome Panics f = Panics"
  "bind_outcome Waiting f = Waiting"
  by (simp_all add: bind_outcome_def)

end
