(* ===== verification/Framing.thy ===== *)
theory Framing
  imports Config
begin

text \<open>
  Framing of logical messages (\<open>myelon/src/transport.rs\<close>): the flag byte, the two frame
  layouts behind the \<open>FramedTransportFrame\<close> trait, the publishing functions that split a
  payload into frames, the receiving functions that reassemble one, and the reassembly buffer
  of the batch receiver. The trait is the locale \<open>framed\<close>; both layouts interpret it.
\<close>

section \<open>Flags\<close>

definition frame_flags :: "bool \<Rightarrow> bool \<Rightarrow> u8" where
  "frame_flags is_first is_last =
     (let flags = (0 :: u8);
          flags = (if is_first then flags OR 1 else flags);
          flags = (if is_last then flags OR 2 else flags)
      in flags)"

definition is_single_frame :: "u8 \<Rightarrow> bool" where
  "is_single_frame flags \<longleftrightarrow> flags AND 3 = 3"

definition is_last_frame :: "u8 \<Rightarrow> bool" where
  "is_last_frame flags \<longleftrightarrow> flags AND 2 \<noteq> 0"

definition has_first_bit :: "u8 \<Rightarrow> bool" where
  "has_first_bit flags \<longleftrightarrow> flags AND 1 \<noteq> 0"

lemma flag_bits [simp]:
  "is_single_frame (frame_flags a b) \<longleftrightarrow> a \<and> b"
  "is_last_frame (frame_flags a b) \<longleftrightarrow> b"
  "has_first_bit (frame_flags a b) \<longleftrightarrow> a"
  by (cases a; cases b; simp add: frame_flags_def is_single_frame_def is_last_frame_def has_first_bit_def)+

section \<open>Frames\<close>

record frame_meta =
  fm_len :: nat
  fm_kind :: u8
  fm_flags :: u8
  fm_msg_id :: u32
  fm_timestamp :: "u64 option"
  fm_data :: "u8 list"

record fixed_frame =
  ff_len :: u32
  ff_kind :: u8
  ff_flags :: u8
  ff_msg_id :: u32
  ff_data :: "u8 list"

definition fixed_frame_default :: "nat \<Rightarrow> fixed_frame" where
  "fixed_frame_default data_bytes =
     \<lparr> ff_len = 0, ff_kind = 0, ff_flags = 0, ff_msg_id = 0, ff_data = replicate data_bytes 0 \<rparr>"

text \<open>\<open>None\<close> is the panic of the slice \<open>data[..len]\<close> and of the capacity assertion.\<close>

definition fixed_frame_meta :: "fixed_frame \<Rightarrow> frame_meta option" where
  "fixed_frame_meta f =
     (let n = unat (ff_len f) in
      if n \<le> length (ff_data f)
      then Some \<lparr> fm_len = n, fm_kind = ff_kind f, fm_flags = ff_flags f, fm_msg_id = ff_msg_id f,
                  fm_timestamp = None, fm_data = take n (ff_data f) \<rparr>
      else None)"

definition fixed_write_frame ::
  "nat \<Rightarrow> u8 list \<Rightarrow> u8 \<Rightarrow> u32 \<Rightarrow> u8 \<Rightarrow> fixed_frame \<Rightarrow> fixed_frame option" where
  "fixed_write_frame data_bytes payload kind msg_id flags f =
     (if \<not> length payload \<le> data_bytes then None
      else Some (f\<lparr> ff_len := of_nat (length payload), ff_kind := kind, ff_flags := flags,
                    ff_msg_id := msg_id,
                    ff_data := payload @ drop (length payload) (ff_data f) \<rparr>))"

record aligned_frame =
  af_len :: u32
  af_kind :: u8
  af_flags :: u8
  af_reserved :: "u8 list"
  af_msg_id :: u32
  af_padding :: "u8 list"
  af_bytes :: "u8 list"

definition aligned_frame_default :: "nat \<Rightarrow> aligned_frame" where
  "aligned_frame_default data_bytes =
     \<lparr> af_len = 0, af_kind = 0, af_flags = 0, af_reserved = replicate 2 0, af_msg_id = 0,
       af_padding = replicate 4 0, af_bytes = replicate data_bytes 0 \<rparr>"

definition aligned_frame_meta :: "aligned_frame \<Rightarrow> frame_meta option" where
  "aligned_frame_meta f =
     (let n = unat (af_len f) in
      if n \<le> length (af_bytes f)
      then Some \<lparr> fm_len = n, fm_kind = af_kind f, fm_flags = af_flags f, fm_msg_id = af_msg_id f,
                  fm_timestamp = None, fm_data = take n (af_bytes f) \<rparr>
      else None)"

definition aligned_write_frame ::
  "nat \<Rightarrow> u8 list \<Rightarrow> u8 \<Rightarrow> u32 \<Rightarrow> u8 \<Rightarrow> aligned_frame \<Rightarrow> aligned_frame option" where
  "aligned_write_frame data_bytes payload kind msg_id flags f =
     (if \<not> length payload \<le> data_bytes then None
      else Some (f\<lparr> af_len := of_nat (length payload), af_kind := kind, af_flags := flags,
                    af_msg_id := msg_id,
                    af_bytes := payload @ drop (length payload) (af_bytes f) \<rparr>))"

section \<open>Publishing\<close>

text \<open>\<open>slice::chunks\<close> for a positive size; zero is a panic of the callers.\<close>

function chunks :: "nat \<Rightarrow> 'a list \<Rightarrow> 'a list list" where
  "chunks n xs = (if xs = [] \<or> n = 0 then [] else take n xs # chunks n (drop n xs))"
  by auto
termination by (relation "measure (\<lambda>(n, xs). length xs)") auto

declare chunks.simps [simp del]

type_synonym frame_call = "u8 list \<times> u8 \<times> u32 \<times> u8"

text \<open>The calls of \<open>write_frame\<close>, in order, that every publishing function makes.\<close>

definition frame_calls :: "u8 list \<Rightarrow> u8 \<Rightarrow> nat \<Rightarrow> u32 \<Rightarrow> frame_call list" where
  "frame_calls payload kind chunk_size msg_id =
     (if payload = [] then [(payload, kind, msg_id, frame_flags True True)]
      else map (\<lambda>(index, chunk).
                  let is_last = length payload \<le> (index + 1) * chunk_size in
                  (chunk, kind, msg_id, frame_flags (index = 0) is_last))
             (enumerate 0 (chunks chunk_size payload)))"

fun run_calls :: "('c \<Rightarrow> 's \<Rightarrow> 's outcome) \<Rightarrow> 'c list \<Rightarrow> 's \<Rightarrow> 's outcome" where
  "run_calls write_frame [] s = Returns s"
| "run_calls write_frame (c # cs) s = bind_outcome (write_frame c s) (run_calls write_frame cs)"

fun run_calls_result ::
  "('c \<Rightarrow> 's \<Rightarrow> (('e + unit) \<times> 's) outcome) \<Rightarrow> 'c list \<Rightarrow> 's \<Rightarrow> (('e + unit) \<times> 's) outcome" where
  "run_calls_result write_frame [] s = Returns (Inr (), s)"
| "run_calls_result write_frame (c # cs) s =
     bind_outcome (write_frame c s) (\<lambda>(r, s1).
       case r of Inl e \<Rightarrow> Returns (Inl e, s1) | Inr _ \<Rightarrow> run_calls_result write_frame cs s1)"

text \<open>The first component of the state is the process-wide \<open>NEXT_MESSAGE_ID\<close>, whose
  \<open>fetch_add\<close> wraps around.\<close>

definition publish_framed_payload_in_place ::
  "u8 list \<Rightarrow> u8 \<Rightarrow> nat \<Rightarrow> (frame_call \<Rightarrow> 's \<Rightarrow> 's outcome) \<Rightarrow> u32 \<times> 's \<Rightarrow> (u32 \<times> 's) outcome" where
  "publish_framed_payload_in_place payload kind chunk_size write_frame = (\<lambda>(next_id, s).
     if payload \<noteq> [] \<and> chunk_size = 0 then Panics
     else bind_outcome (run_calls write_frame (frame_calls payload kind chunk_size next_id) s)
            (\<lambda>s1. Returns (next_id + 1, s1)))"

definition publish_framed_payload ::
  "u8 list \<Rightarrow> u8 \<Rightarrow> nat \<Rightarrow> ('t \<Rightarrow> 's \<Rightarrow> 's outcome) \<Rightarrow> (u8 list \<Rightarrow> u8 \<Rightarrow> u32 \<Rightarrow> u8 \<Rightarrow> 't)
    \<Rightarrow> u32 \<times> 's \<Rightarrow> (u32 \<times> 's) outcome" where
  "publish_framed_payload payload kind chunk_size write_frame make_frame =
     publish_framed_payload_in_place payload kind chunk_size
       (\<lambda>(chunk, k, msg_id, flags). write_frame (make_frame chunk k msg_id flags))"

definition publish_framed_payload_result_in_place ::
  "u8 list \<Rightarrow> u8 \<Rightarrow> nat \<Rightarrow> (frame_call \<Rightarrow> 's \<Rightarrow> (('e + unit) \<times> 's) outcome)
    \<Rightarrow> u32 \<times> 's \<Rightarrow> (('e + unit) \<times> u32 \<times> 's) outcome" where
  "publish_framed_payload_result_in_place payload kind chunk_size write_frame = (\<lambda>(next_id, s).
     if payload \<noteq> [] \<and> chunk_size = 0 then Panics
     else bind_outcome (run_calls_result write_frame (frame_calls payload kind chunk_size next_id) s)
            (\<lambda>(r, s1). Returns (r, next_id + 1, s1)))"

definition publish_framed_payload_result ::
  "u8 list \<Rightarrow> u8 \<Rightarrow> nat \<Rightarrow> ('t \<Rightarrow> 's \<Rightarrow> (('e + unit) \<times> 's) outcome) \<Rightarrow> (u8 list \<Rightarrow> u8 \<Rightarrow> u32 \<Rightarrow> u8 \<Rightarrow> 't)
    \<Rightarrow> u32 \<times> 's \<Rightarrow> (('e + unit) \<times> u32 \<times> 's) outcome" where
  "publish_framed_payload_result payload kind chunk_size write_frame make_frame =
     publish_framed_payload_result_in_place payload kind chunk_size
       (\<lambda>(chunk, k, msg_id, flags). write_frame (make_frame chunk k msg_id flags))"

section \<open>Receiving\<close>

record received_meta =
  rm_kind :: u8
  rm_msg_id :: u32
  rm_sent :: "u64 option"
  rm_received :: u64

definition one_way_latency_ns :: "received_meta \<Rightarrow> u64 option" where
  "one_way_latency_ns m =
     (case rm_sent m of
        None \<Rightarrow> None
      | Some sent \<Rightarrow> if sent < rm_received m then Some (rm_received m - sent) else None)"

text \<open>The loop over the frames after the first: at most \<open>n\<close> further frames are looked at.\<close>

fun recv_rest ::
  "('s \<Rightarrow> ('f \<times> 's) outcome) \<Rightarrow> ('f \<Rightarrow> frame_meta option) \<Rightarrow> nat \<Rightarrow> u32 \<Rightarrow> u8 list \<Rightarrow> 's
    \<Rightarrow> (u8 list \<times> 's) outcome" where
  "recv_rest next_frame meta 0 msg_id payload s = Waiting"
| "recv_rest next_frame meta (Suc n) msg_id payload s =
     bind_outcome (next_frame s) (\<lambda>(frame, s1).
       case meta frame of
         None \<Rightarrow> Panics
       | Some m \<Rightarrow>
           if fm_msg_id m \<noteq> msg_id then recv_rest next_frame meta n msg_id payload s1
           else
             let payload1 = payload @ fm_data m in
             if is_last_frame (fm_flags m) then Returns (payload1, s1)
             else recv_rest next_frame meta n msg_id payload1 s1)"

definition recv_framed_message_with_meta ::
  "u64 \<Rightarrow> nat \<Rightarrow> ('s \<Rightarrow> ('f \<times> 's) outcome) \<Rightarrow> ('f \<Rightarrow> frame_meta option) \<Rightarrow> 's
    \<Rightarrow> ((received_meta \<times> u8 list) \<times> 's) outcome" where
  "recv_framed_message_with_meta clock n next_frame meta s =
     bind_outcome (next_frame s) (\<lambda>(first_frame, s1).
       case meta first_frame of
         None \<Rightarrow> Panics
       | Some m \<Rightarrow>
           let message_meta = \<lparr> rm_kind = fm_kind m, rm_msg_id = fm_msg_id m, rm_sent = fm_timestamp m,
                                rm_received = clock \<rparr> in
           if is_single_frame (fm_flags m) then Returns ((message_meta, fm_data m), s1)
           else if is_last_frame (fm_flags m) then Returns ((message_meta, fm_data m), s1)
           else bind_outcome (recv_rest next_frame meta n (fm_msg_id m) (fm_data m) s1)
                  (\<lambda>(payload, s2). Returns ((message_meta, payload), s2)))"

definition recv_framed_message ::
  "u64 \<Rightarrow> nat \<Rightarrow> ('s \<Rightarrow> ('f \<times> 's) outcome) \<Rightarrow> ('f \<Rightarrow> frame_meta option) \<Rightarrow> 's
    \<Rightarrow> ((u8 \<times> u8 list) \<times> 's) outcome" where
  "recv_framed_message clock n next_frame meta s =
     bind_outcome (recv_framed_message_with_meta clock n next_frame meta s)
       (\<lambda>((message_meta, payload), s1). Returns ((rm_kind message_meta, payload), s1))"

section \<open>The reassembly buffer\<close>

text \<open>The buffer is a vector of 16-byte words, kept here as its bytes.\<close>

record reassembly =
  ra_buf :: "u8 list"
  ra_len :: nat
  ra_msg_id :: u32
  ra_kind :: u8
  ra_sent :: "u64 option"

definition reassembly_new :: reassembly where
  "reassembly_new = \<lparr> ra_buf = [], ra_len = 0, ra_msg_id = 0, ra_kind = 0, ra_sent = None \<rparr>"

definition word_capacity :: "nat \<Rightarrow> nat" where
  "word_capacity byte_capacity = min usize_max (byte_capacity + (16 - 1)) div 16"

definition ensure_capacity :: "nat \<Rightarrow> reassembly \<Rightarrow> reassembly" where
  "ensure_capacity needed_bytes b =
     (let needed_words = word_capacity needed_bytes in
      if length (ra_buf b) div 16 < needed_words
      then b\<lparr>ra_buf := ra_buf b @ replicate (16 * needed_words - length (ra_buf b)) 0\<rparr>
      else b)"

definition reassembly_start ::
  "u32 \<Rightarrow> u8 \<Rightarrow> u8 list \<Rightarrow> nat \<Rightarrow> u64 option \<Rightarrow> reassembly \<Rightarrow> reassembly" where
  "reassembly_start msg_id kind first_data total_len sent b =
     (let b1 = ensure_capacity (max total_len (length first_data)) b in
      b1\<lparr> ra_buf := first_data @ drop (length first_data) (ra_buf b1), ra_len := length first_data,
          ra_msg_id := msg_id, ra_kind := kind, ra_sent := sent \<rparr>)"

definition reassembly_append :: "u8 list \<Rightarrow> reassembly \<Rightarrow> reassembly" where
  "reassembly_append data b =
     (let start = ra_len b; stop = start + length data; b1 = ensure_capacity stop b in
      b1\<lparr> ra_buf := take start (ra_buf b1) @ data @ drop stop (ra_buf b1), ra_len := stop \<rparr>)"

definition reassembly_reset :: "reassembly \<Rightarrow> reassembly" where
  "reassembly_reset b = b\<lparr> ra_len := 0, ra_msg_id := 0, ra_sent := None \<rparr>"

definition reassembly_bytes :: "reassembly \<Rightarrow> u8 list" where
  "reassembly_bytes b = take (ra_len b) (ra_buf b)"

fun recv_rest_leased ::
  "('s \<Rightarrow> ('f \<times> 's) outcome) \<Rightarrow> ('f \<Rightarrow> frame_meta option) \<Rightarrow> nat \<Rightarrow> u32 \<Rightarrow> reassembly \<Rightarrow> 's
    \<Rightarrow> (reassembly \<times> 's) outcome" where
  "recv_rest_leased next_frame meta 0 msg_id b s = Waiting"
| "recv_rest_leased next_frame meta (Suc n) msg_id b s =
     bind_outcome (next_frame s) (\<lambda>(frame, s1).
       case meta frame of
         None \<Rightarrow> Panics
       | Some m \<Rightarrow>
           if fm_msg_id m \<noteq> msg_id then recv_rest_leased next_frame meta n msg_id b s1
           else
             let b1 = reassembly_append (fm_data m) b in
             if is_last_frame (fm_flags m) then Returns (b1, s1)
             else recv_rest_leased next_frame meta n msg_id b1 s1)"

definition recv_framed_message_leased_with_meta ::
  "u64 \<Rightarrow> nat \<Rightarrow> ('s \<Rightarrow> ('f \<times> 's) outcome) \<Rightarrow> ('f \<Rightarrow> frame_meta option)
    \<Rightarrow> (received_meta \<Rightarrow> u8 list \<Rightarrow> 'r) \<Rightarrow> reassembly \<Rightarrow> 's \<Rightarrow> ('r \<times> reassembly \<times> 's) outcome" where
  "recv_framed_message_leased_with_meta clock n next_frame meta handler b s =
     bind_outcome (next_frame s) (\<lambda>(first_frame, s1).
       case meta first_frame of
         None \<Rightarrow> Panics
       | Some m \<Rightarrow>
           let message_meta = \<lparr> rm_kind = fm_kind m, rm_msg_id = fm_msg_id m, rm_sent = fm_timestamp m,
                                rm_received = clock \<rparr> in
           if is_single_frame (fm_flags m) then Returns (handler message_meta (fm_data m), b, s1)
           else
             let b1 = reassembly_start (fm_msg_id m) (fm_kind m) (fm_data m) (fm_len m) (fm_timestamp m) b in
             if is_last_frame (fm_flags m)
             then Returns (handler message_meta (reassembly_bytes b1), b1, s1)
             else bind_outcome (recv_rest_leased next_frame meta n (fm_msg_id m) b1 s1)
                    (\<lambda>(b2, s2). Returns (handler message_meta (reassembly_bytes b2), b2, s2)))"

definition recv_framed_message_leased ::
  "u64 \<Rightarrow> nat \<Rightarrow> ('s \<Rightarrow> ('f \<times> 's) outcome) \<Rightarrow> ('f \<Rightarrow> frame_meta option)
    \<Rightarrow> (u8 \<Rightarrow> u8 list \<Rightarrow> 'r) \<Rightarrow> reassembly \<Rightarrow> 's \<Rightarrow> ('r \<times> reassembly \<times> 's) outcome" where
  "recv_framed_message_leased clock n next_frame meta handler =
     recv_framed_message_leased_with_meta clock n next_frame meta
       (\<lambda>message_meta bytes. handler (rm_kind message_meta) bytes)"

section \<open>Batch receiving\<close>

text \<open>The callback of \<open>process_available_messages\<close>, on the number of delivered messages, the
  reassembly buffer and the handler's own state. The clock is read once for every delivered message:
  \<open>clock k\<close> is the reading after \<open>k\<close> messages of the call.\<close>

definition on_frame ::
  "(nat \<Rightarrow> u64) \<Rightarrow> (received_meta \<Rightarrow> u8 list \<Rightarrow> 'a \<Rightarrow> 'a) \<Rightarrow> frame_meta \<Rightarrow> nat \<times> reassembly \<times> 'a
    \<Rightarrow> nat \<times> reassembly \<times> 'a" where
  "on_frame clock handler m = (\<lambda>(delivered, b, acc).
     if is_single_frame (fm_flags m)
     then (delivered + 1, b,
           handler \<lparr> rm_kind = fm_kind m, rm_msg_id = fm_msg_id m, rm_sent = fm_timestamp m,
                     rm_received = clock delivered \<rparr> (fm_data m) acc)
     else
       let b1 = (if has_first_bit (fm_flags m)
                 then reassembly_start (fm_msg_id m) (fm_kind m) (fm_data m) (fm_len m) (fm_timestamp m) b
                 else if ra_msg_id b = fm_msg_id m then reassembly_append (fm_data m) b
                 else b) in
       if is_last_frame (fm_flags m) \<and> ra_msg_id b1 = fm_msg_id m
       then (delivered + 1, reassembly_reset b1,
             handler \<lparr> rm_kind = ra_kind b1, rm_msg_id = ra_msg_id b1, rm_sent = ra_sent b1,
                       rm_received = clock delivered \<rparr> (reassembly_bytes b1) acc)
       else (delivered, b1, acc))"

text \<open>The callback over a sequence of frames; \<open>None\<close> when a frame's length field panics.\<close>

fun on_frames ::
  "(nat \<Rightarrow> u64) \<Rightarrow> ('f \<Rightarrow> frame_meta option) \<Rightarrow> (received_meta \<Rightarrow> u8 list \<Rightarrow> 'a \<Rightarrow> 'a) \<Rightarrow> 'f list
    \<Rightarrow> nat \<times> reassembly \<times> 'a \<Rightarrow> (nat \<times> reassembly \<times> 'a) option" where
  "on_frames clock meta handler [] st = Some st"
| "on_frames clock meta handler (f # fs) st =
     (case meta f of
        None \<Rightarrow> None
      | Some m \<Rightarrow> on_frames clock meta handler fs (on_frame clock handler m st))"

section \<open>How a payload is cut\<close>

text \<open>The reference: take a chunk while more than one is left.\<close>

function frame_list :: "bool \<Rightarrow> u8 list \<Rightarrow> u8 \<Rightarrow> nat \<Rightarrow> u32 \<Rightarrow> frame_call list" where
  "frame_list is_first payload kind chunk_size msg_id =
     (if length payload \<le> chunk_size \<or> chunk_size = 0
      then [(payload, kind, msg_id, frame_flags is_first True)]
      else (take chunk_size payload, kind, msg_id, frame_flags is_first False)
           # frame_list False (drop chunk_size payload) kind chunk_size msg_id)"
  by auto
termination by (relation "measure (\<lambda>(_, payload, _). length payload)") auto

declare frame_list.simps [simp del]

lemma frame_list_cases:
  "length payload \<le> chunk_size \<Longrightarrow> frame_list a payload kind chunk_size msg_id
     = [(payload, kind, msg_id, frame_flags a True)]"
  "chunk_size < length payload \<Longrightarrow> 0 < chunk_size \<Longrightarrow> frame_list a payload kind chunk_size msg_id
     = (take chunk_size payload, kind, msg_id, frame_flags a False)
           # frame_list False (drop chunk_size payload) kind chunk_size msg_id"
  by (simp_all add: frame_list.simps [of a payload])

lemma chunks_short: "xs \<noteq> [] \<Longrightarrow> length xs \<le> n \<Longrightarrow> chunks n xs = [xs]"
  by (cases "n = 0") (simp_all add: chunks.simps [of n])

lemma chunks_long: "n < length xs \<Longrightarrow> 0 < n \<Longrightarrow> chunks n xs = take n xs # chunks n (drop n xs)"
  by (subst chunks.simps) auto

lemma indexed_chunks:
  assumes "0 < n" "xs \<noteq> []"
  shows "map (\<lambda>(index, chunk). (chunk, kind, msg_id,
             frame_flags (index = 0) (i * n + length xs \<le> (index + 1) * n))) (enumerate i (chunks n xs))
         = frame_list (i = 0) xs kind n msg_id"
  using assms
proof (induction n xs arbitrary: i rule: chunks.induct)
  case (1 n xs)
  show ?case
  proof (cases "length xs \<le> n")
    case True
    then show ?thesis using 1(3) by (simp add: chunks_short frame_list_cases algebra_simps)
  next
    case False
    have "(Suc i) * n + length (drop n xs) = i * n + length xs" using False by simp
    moreover have "n \<noteq> 0" "drop n xs \<noteq> []" using False 1(2,3) by auto
    ultimately show ?thesis
      using 1(1) [of "Suc i"] 1(2,3) False by (simp add: chunks_long frame_list_cases algebra_simps)
  qed
qed

lemma frame_calls_list:
  assumes "0 < chunk_size"
  shows "frame_calls payload kind chunk_size msg_id = frame_list True payload kind chunk_size msg_id"
proof (cases "payload = []")
  case True
  then show ?thesis by (simp add: frame_calls_def frame_list_cases)
next
  case False
  then show ?thesis
    using indexed_chunks [OF assms False, of kind msg_id 0] by (simp add: frame_calls_def Let_def)
qed

lemma frame_list_data: "concat (map fst (frame_list a payload kind n msg_id)) = payload"
  by (induction a payload kind n msg_id rule: frame_list.induct)
    (subst frame_list.simps, auto)

lemma frame_list_chunk:
  "0 < n \<Longrightarrow> c \<in> set (frame_list a payload kind n msg_id) \<Longrightarrow> length (fst c) \<le> n"
  by (induction a payload kind n msg_id rule: frame_list.induct)
    (subst (asm) (2) frame_list.simps, auto split: if_splits)

lemma frame_list_count:
  "0 < n \<Longrightarrow> length (frame_list a payload kind n msg_id) = max 1 ((length payload + n - 1) div n)"
proof (induction a payload kind n msg_id rule: frame_list.induct)
  case (1 a payload kind n msg_id)
  show ?case
  proof (cases "length payload \<le> n")
    case True
    then have "(length payload + n - 1) div n < 2"
      using 1(2) by (intro less_mult_imp_div_less) linarith
    then show ?thesis using True by (simp add: frame_list_cases)
  next
    case False
    then have "(length payload + n - 1) div n = Suc ((length payload - n + n - 1) div n)"
      using 1(2) by (simp add: div_if)
    moreover have "1 \<le> (length payload - n + n - 1) div n"
      using False 1(2) div_le_mono [of n "length payload - n + n - 1" n] by simp
    ultimately show ?thesis using False 1 by (simp add: frame_list_cases)
  qed
qed

section \<open>Frames that carry the calls\<close>

definition call_meta :: "frame_call \<Rightarrow> frame_meta" where
  "call_meta c = (case c of (chunk, kind, msg_id, flags) \<Rightarrow>
     \<lparr> fm_len = length chunk, fm_kind = kind, fm_flags = flags, fm_msg_id = msg_id,
       fm_timestamp = None, fm_data = chunk \<rparr>)"

definition carries :: "('f \<Rightarrow> frame_meta option) \<Rightarrow> 'f list \<Rightarrow> frame_call list \<Rightarrow> bool" where
  "carries meta fs calls \<longleftrightarrow> map meta fs = map (\<lambda>c. Some (call_meta c)) calls"

lemma carries_simps [simp]:
  "carries meta [] calls \<longleftrightarrow> calls = []" "carries meta fs [] \<longleftrightarrow> fs = []"
  "carries meta (f # fs) (c # calls) \<longleftrightarrow> meta f = Some (call_meta c) \<and> carries meta fs calls"
  "carries meta (fs @ [f]) (calls @ [c]) \<longleftrightarrow> carries meta fs calls \<and> meta f = Some (call_meta c)"
  by (auto simp: carries_def)

lemma carries_Cons: "carries meta fs (c # calls) \<longleftrightarrow>
    (\<exists>f fs1. fs = f # fs1 \<and> meta f = Some (call_meta c) \<and> carries meta fs1 calls)"
  by (auto simp: carries_def)

text \<open>Frames taken from the front of a list.\<close>

definition pop_frame :: "'f list \<Rightarrow> ('f \<times> 'f list) outcome" where
  "pop_frame fs = (case fs of [] \<Rightarrow> Waiting | f # rest \<Rightarrow> Returns (f, rest))"

lemma pop_frame_simps [simp]: "pop_frame [] = Waiting" "pop_frame (f # fs) = Returns (f, fs)"
  by (simp_all add: pop_frame_def)

lemma recv_rest_frames:
  assumes "0 < n" "carries meta fs (frame_list False payload kind n msg_id)" "length fs \<le> k"
  shows "recv_rest pop_frame meta k msg_id acc (fs @ rest) = Returns (acc @ payload, rest)"
  using assms
proof (induction "False" payload kind n msg_id arbitrary: fs acc k rule: frame_list.induct)
  case (1 payload kind n msg_id)
  show ?case
  proof (cases "length payload \<le> n")
    case True
    then show ?thesis
      using 1(3,4) by (cases k) (auto simp: frame_list_cases carries_Cons call_meta_def)
  next
    case False
    then obtain f fs1 where fs: "fs = f # fs1"
      "meta f = Some (call_meta (take n payload, kind, msg_id, frame_flags False False))"
      "carries meta fs1 (frame_list False (drop n payload) kind n msg_id)"
      using 1(2,3) by (auto simp: frame_list_cases carries_Cons)
    obtain j where k: "k = Suc j" "length fs1 \<le> j" using 1(4) fs(1) by (cases k) auto
    have "recv_rest pop_frame meta j msg_id (acc @ take n payload) (fs1 @ rest)
        = Returns ((acc @ take n payload) @ drop n payload, rest)"
      using 1(1) [OF _ 1(2) fs(3) k(2)] False 1(2) by simp
    then show ?thesis using fs k by (simp add: call_meta_def)
  qed
qed

lemma recv_frames:
  assumes "0 < n" "carries meta fs (frame_calls payload kind n msg_id)" "length fs \<le> Suc k"
  shows "recv_framed_message_with_meta clock k pop_frame meta (fs @ rest)
    = Returns ((\<lparr> rm_kind = kind, rm_msg_id = msg_id, rm_sent = None, rm_received = clock \<rparr>, payload), rest)"
proof (cases "length payload \<le> n")
  case True
  then show ?thesis
    using assms by (auto simp: frame_calls_list frame_list_cases carries_Cons call_meta_def
        recv_framed_message_with_meta_def Let_def)
next
  case False
  then obtain f fs1 where fs: "fs = f # fs1"
    "meta f = Some (call_meta (take n payload, kind, msg_id, frame_flags True False))"
    "carries meta fs1 (frame_list False (drop n payload) kind n msg_id)"
    using assms(1,2) by (auto simp: frame_calls_list frame_list_cases carries_Cons)
  have "recv_rest pop_frame meta k msg_id (take n payload) (fs1 @ rest)
      = Returns (take n payload @ drop n payload, rest)"
    by (rule recv_rest_frames [OF assms(1) fs(3)]) (use assms(3) fs(1) in simp)
  then show ?thesis using fs by (simp add: call_meta_def recv_framed_message_with_meta_def Let_def)
qed

section \<open>The reassembly buffer holds the payload\<close>

definition reassembly_wf :: "reassembly \<Rightarrow> bool" where
  "reassembly_wf b \<longleftrightarrow> 16 dvd length (ra_buf b) \<and> ra_len b \<le> length (ra_buf b)"

lemma reassembly_new_wf [simp]: "reassembly_wf reassembly_new"
  by (simp add: reassembly_wf_def reassembly_new_def)

lemma ensure_capacity_ok:
  assumes "16 dvd length (ra_buf b)" "needed + 16 \<le> usize_max"
  shows "\<exists>xs. ensure_capacity needed b = b\<lparr>ra_buf := xs\<rparr> \<and> 16 dvd length xs \<and> needed \<le> length xs
           \<and> (\<forall>k \<le> length (ra_buf b). take k xs = take k (ra_buf b)) \<and> length (ra_buf b) \<le> length xs"
proof -
  obtain k where k: "length (ra_buf b) = 16 * k" using assms(1) by (elim dvdE)
  have w: "word_capacity needed = (needed + 15) div 16"
    using assms(2) by (simp add: word_capacity_def min_def)
  have up: "needed \<le> 16 * ((needed + 15) div 16)" by presburger
  show ?thesis
  proof (cases "k < word_capacity needed")
    case True
    then show ?thesis
      using k up w by (intro exI [of _ "ra_buf b @ replicate (16 * word_capacity needed - 16 * k) 0"])
        (simp add: ensure_capacity_def Let_def dvd_add_right_iff)
  next
    case False
    then have "needed \<le> 16 * k" using up w by linarith
    then show ?thesis
      using False k by (intro exI [of _ "ra_buf b"]) (simp add: ensure_capacity_def Let_def)
  qed
qed

lemma start_ok:
  assumes "reassembly_wf b" "max total_len (length data) + 16 \<le> usize_max"
  shows "reassembly_wf (reassembly_start msg_id kind data total_len sent b)"
    and "reassembly_bytes (reassembly_start msg_id kind data total_len sent b) = data"
    and "ra_msg_id (reassembly_start msg_id kind data total_len sent b) = msg_id"
    and "ra_kind (reassembly_start msg_id kind data total_len sent b) = kind"
    and "ra_sent (reassembly_start msg_id kind data total_len sent b) = sent"
proof -
  obtain xs where "ensure_capacity (max total_len (length data)) b = b\<lparr>ra_buf := xs\<rparr>"
    "16 dvd length xs" "max total_len (length data) \<le> length xs"
    using ensure_capacity_ok [of b "max total_len (length data)"] assms by (auto simp: reassembly_wf_def)
  then show "reassembly_wf (reassembly_start msg_id kind data total_len sent b)"
    "reassembly_bytes (reassembly_start msg_id kind data total_len sent b) = data"
    "ra_msg_id (reassembly_start msg_id kind data total_len sent b) = msg_id"
    "ra_kind (reassembly_start msg_id kind data total_len sent b) = kind"
    "ra_sent (reassembly_start msg_id kind data total_len sent b) = sent"
    by (simp_all add: reassembly_start_def Let_def reassembly_wf_def reassembly_bytes_def)
qed

lemma append_ok:
  assumes "reassembly_wf b" "ra_len b + length data + 16 \<le> usize_max"
  shows "reassembly_wf (reassembly_append data b)"
    and "reassembly_bytes (reassembly_append data b) = reassembly_bytes b @ data"
    and "ra_msg_id (reassembly_append data b) = ra_msg_id b"
    and "ra_kind (reassembly_append data b) = ra_kind b"
    and "ra_sent (reassembly_append data b) = ra_sent b"
    and "ra_len (reassembly_append data b) = ra_len b + length data"
proof -
  obtain xs where z: "ensure_capacity (ra_len b + length data) b = b\<lparr>ra_buf := xs\<rparr>"
    "16 dvd length xs" "ra_len b + length data \<le> length xs" "take (ra_len b) xs = take (ra_len b) (ra_buf b)"
    "length (ra_buf b) \<le> length xs"
    using ensure_capacity_ok [of b "ra_len b + length data"] assms by (auto simp: reassembly_wf_def)
  then show "reassembly_wf (reassembly_append data b)"
    "reassembly_bytes (reassembly_append data b) = reassembly_bytes b @ data"
    "ra_msg_id (reassembly_append data b) = ra_msg_id b"
    "ra_kind (reassembly_append data b) = ra_kind b"
    "ra_sent (reassembly_append data b) = ra_sent b"
    "ra_len (reassembly_append data b) = ra_len b + length data"
    using assms(1)
    by (simp_all add: reassembly_append_def Let_def reassembly_wf_def reassembly_bytes_def)
qed

lemma bytes_length [simp]: "reassembly_wf b \<Longrightarrow> length (reassembly_bytes b) = ra_len b"
  by (simp add: reassembly_bytes_def reassembly_wf_def)

lemma reset_ok [simp]: "reassembly_wf b \<Longrightarrow> reassembly_wf (reassembly_reset b)"
  by (simp add: reassembly_reset_def reassembly_wf_def)

section \<open>Batch receiving delivers the messages\<close>

lemma on_frames_tail:
  assumes "0 < n" "carries meta fs (frame_list False payload kind n msg_id)"
    and "reassembly_wf b" "ra_msg_id b = msg_id" "ra_len b + length payload + 16 \<le> usize_max"
  shows "\<exists>b'. reassembly_wf b' \<and> ra_msg_id b' = 0
     \<and> on_frames clock meta handler (fs @ rest) (d, b, acc)
       = on_frames clock meta handler rest (d + 1, b',
           handler \<lparr> rm_kind = ra_kind b, rm_msg_id = msg_id, rm_sent = ra_sent b, rm_received = clock d \<rparr>
             (reassembly_bytes b @ payload) acc)"
  using assms
proof (induction "False" payload kind n msg_id arbitrary: fs b rule: frame_list.induct)
  case (1 payload kind n msg_id)
  show ?case
  proof (cases "length payload \<le> n")
    case True
    then obtain f where f: "fs = [f]" "meta f = Some (call_meta (payload, kind, msg_id, frame_flags False True))"
      using 1(3) by (auto simp: frame_list_cases carries_Cons)
    note app = append_ok [OF 1(4), of payload]
    show ?thesis
      using f app 1(4-6)
      by (intro exI [of _ "reassembly_reset (reassembly_append payload b)"])
        (simp add: call_meta_def on_frame_def Let_def, simp add: reassembly_reset_def)
  next
    case False
    then obtain f fs1 where fs: "fs = f # fs1"
      "meta f = Some (call_meta (take n payload, kind, msg_id, frame_flags False False))"
      "carries meta fs1 (frame_list False (drop n payload) kind n msg_id)"
      using 1(2,3) by (auto simp: frame_list_cases carries_Cons)
    let ?b = "reassembly_append (take n payload) b"
    have app: "reassembly_wf ?b" "reassembly_bytes ?b = reassembly_bytes b @ take n payload"
      "ra_msg_id ?b = msg_id" "ra_kind ?b = ra_kind b" "ra_sent ?b = ra_sent b" "ra_len ?b = ra_len b + n"
      using append_ok [OF 1(4), of "take n payload"] 1(5,6) False by simp_all
    have "ra_len ?b + length (drop n payload) + 16 \<le> usize_max" using app(6) 1(6) False by simp
    note IH = 1(1) [OF _ 1(2) fs(3) app(1,3) this]
    have step: "on_frames clock meta handler (fs @ rest) (d, b, acc)
        = on_frames clock meta handler (fs1 @ rest) (d, ?b, acc)"
      using fs 1(5) by (simp add: call_meta_def on_frame_def Let_def)
    show ?thesis using IH False 1(2) unfolding step app(2,4,5) by simp
  qed
qed

text \<open>One message, whatever the buffer held before.\<close>

lemma on_frames_message:
  assumes "0 < n" "carries meta fs (frame_calls payload kind n msg_id)"
    and "reassembly_wf b" "length payload + 16 \<le> usize_max"
  shows "\<exists>b'. reassembly_wf b' \<and> (ra_msg_id b = 0 \<longrightarrow> ra_msg_id b' = 0)
     \<and> on_frames clock meta handler (fs @ rest) (d, b, acc)
       = on_frames clock meta handler rest (d + 1, b',
           handler \<lparr> rm_kind = kind, rm_msg_id = msg_id, rm_sent = None, rm_received = clock d \<rparr> payload acc)"
proof (cases "length payload \<le> n")
  case True
  then obtain f where "fs = [f]" "meta f = Some (call_meta (payload, kind, msg_id, frame_flags True True))"
    using assms(1,2) by (auto simp: frame_calls_list frame_list_cases carries_Cons)
  then show ?thesis using assms(3) by (intro exI [of _ b]) (simp add: call_meta_def on_frame_def)
next
  case False
  then obtain f fs1 where fs: "fs = f # fs1"
    "meta f = Some (call_meta (take n payload, kind, msg_id, frame_flags True False))"
    "carries meta fs1 (frame_list False (drop n payload) kind n msg_id)"
    using assms(1,2) by (auto simp: frame_calls_list frame_list_cases carries_Cons)
  let ?b = "reassembly_start msg_id kind (take n payload) n None b"
  have st: "reassembly_wf ?b" "reassembly_bytes ?b = take n payload" "ra_msg_id ?b = msg_id"
    "ra_kind ?b = kind" "ra_sent ?b = None"
    using start_ok [OF assms(3), of n "take n payload"] False assms(4) by simp_all
  have "ra_len ?b = n" using bytes_length [OF st(1)] st(2) False by simp
  then have "ra_len ?b + length (drop n payload) + 16 \<le> usize_max" using assms(4) False by simp
  note tail = on_frames_tail [OF assms(1) fs(3) st(1,3) this, of clock handler rest d acc]
  have "on_frames clock meta handler (fs @ rest) (d, b, acc)
      = on_frames clock meta handler (fs1 @ rest) (d, ?b, acc)"
    using fs False by (simp add: call_meta_def on_frame_def Let_def)
  then show ?thesis using tail unfolding st(2,4,5) by auto
qed

type_synonym message = "u8 list \<times> u8 \<times> u32"

text \<open>The write calls of a sequence of messages over frames of one capacity.\<close>

definition message_calls :: "nat \<Rightarrow> message list \<Rightarrow> frame_call list" where
  "message_calls n messages = concat (map (\<lambda>(payload, kind, msg_id). frame_calls payload kind n msg_id) messages)"

lemma carries_append:
  "carries meta fs (calls1 @ calls2) \<longleftrightarrow>
     (\<exists>fs1 fs2. fs = fs1 @ fs2 \<and> carries meta fs1 calls1 \<and> carries meta fs2 calls2)"
  unfolding carries_def map_append map_eq_append_conv by (metis (no_types))

lemma on_frames_messages:
  assumes "0 < n" "carries meta fs (message_calls n messages)" "reassembly_wf b"
    and "\<forall>(payload, kind, msg_id) \<in> set messages. length payload + 16 \<le> usize_max"
  shows "\<exists>b'. on_frames clock meta handler fs (d, b, acc)
     = Some (d + length messages, b',
             fold (\<lambda>(k, payload, kind, msg_id).
                     handler \<lparr> rm_kind = kind, rm_msg_id = msg_id, rm_sent = None, rm_received = clock k \<rparr> payload)
               (enumerate d messages) acc)"
  using assms(2-4)
proof (induction messages arbitrary: fs b d acc)
  case Nil
  then show ?case by (simp add: message_calls_def)
next
  case (Cons m messages)
  obtain payload kind msg_id where m: "m = (payload, kind, msg_id)" by (cases m)
  obtain fs1 fs2 where fs: "fs = fs1 @ fs2" "carries meta fs1 (frame_calls payload kind n msg_id)"
    "carries meta fs2 (message_calls n messages)"
    using Cons.prems(1) by (auto simp: m message_calls_def carries_append)
  obtain b1 where b1: "reassembly_wf b1" "on_frames clock meta handler (fs1 @ fs2) (d, b, acc)
       = on_frames clock meta handler fs2 (d + 1, b1,
           handler \<lparr> rm_kind = kind, rm_msg_id = msg_id, rm_sent = None, rm_received = clock d \<rparr> payload acc)"
    using on_frames_message [OF assms(1) fs(2) Cons.prems(2)] Cons.prems(3) by (fastforce simp: m)
  show ?case
    using Cons.IH [OF fs(3) b1(1), of "d + 1" "handler \<lparr> rm_kind = kind, rm_msg_id = msg_id, rm_sent = None,
        rm_received = clock d \<rparr> payload acc"] Cons.prems(3) b1(2)
    by (simp add: m fs(1))
qed

text \<open>C10. Batch receiving. Over the frames of any sequence of messages the batch receiver calls the handler once for
  each message, in order, with its kind, id, whole payload and the clock reading of its delivery, and counts them; the message
  ids need not be distinct and the reassembly buffer may hold a truncated message before.\<close>

theorem batch_receive_delivers_messages:
  assumes "0 < n" "carries meta fs (message_calls n messages)" "reassembly_wf b"
    and "\<forall>(payload, kind, msg_id) \<in> set messages. length payload + 16 \<le> usize_max"
  shows "\<exists>b'. on_frames clock meta handler fs (d, b, acc)
     = Some (d + length messages, b',
             fold (\<lambda>(k, payload, kind, msg_id).
                     handler \<lparr> rm_kind = kind, rm_msg_id = msg_id, rm_sent = None, rm_received = clock k \<rparr> payload)
               (enumerate d messages) acc)"
  by (rule on_frames_messages [OF assms])

section \<open>The frame interface\<close>

text \<open>What the transport relies on in a frame type: a slot that is overwritten reads back as the
  call that wrote it.\<close>

locale framed =
  fixes capacity :: nat
    and wf :: "'f \<Rightarrow> bool"
    and meta :: "'f \<Rightarrow> frame_meta option"
    and write_frame :: "u8 list \<Rightarrow> u8 \<Rightarrow> u32 \<Rightarrow> u8 \<Rightarrow> 'f \<Rightarrow> 'f option"
  assumes written: "wf f \<Longrightarrow> length payload \<le> capacity \<Longrightarrow> length payload < 2 ^ 32
    \<Longrightarrow> \<exists>f'. write_frame payload kind msg_id flags f = Some f' \<and> wf f'
          \<and> meta f' = Some (call_meta (payload, kind, msg_id, flags))"

text \<open>Writing a call over the next slot of a ring, whose contents are \<open>old\<close>.\<close>

definition put_frame ::
  "(u8 list \<Rightarrow> u8 \<Rightarrow> u32 \<Rightarrow> u8 \<Rightarrow> 'f \<Rightarrow> 'f option) \<Rightarrow> (nat \<Rightarrow> 'f) \<Rightarrow> frame_call \<Rightarrow> 'f list \<Rightarrow> 'f list outcome" where
  "put_frame write old = (\<lambda>(payload, kind, msg_id, flags) fs.
     case write payload kind msg_id flags (old (length fs)) of
       None \<Rightarrow> Panics
     | Some f \<Rightarrow> Returns (fs @ [f]))"

context framed
begin

lemma run_calls_put:
  assumes "\<And>i. wf (old i)" "\<forall>c \<in> set calls. length (fst c) \<le> capacity \<and> length (fst c) < 2 ^ 32"
  shows "\<exists>gs. run_calls (put_frame write_frame old) calls fs = Returns (fs @ gs)
           \<and> carries meta gs calls \<and> (\<forall>g \<in> set gs. wf g)"
  using assms(2)
proof (induction calls arbitrary: fs)
  case (Cons c calls)
  obtain payload kind msg_id flags where c: "c = (payload, kind, msg_id, flags)" by (cases c)
  obtain f where f: "write_frame payload kind msg_id flags (old (length fs)) = Some f" "wf f"
    "meta f = Some (call_meta c)"
    using written [OF assms(1)] Cons.prems by (fastforce simp: c)
  obtain gs where "run_calls (put_frame write_frame old) calls (fs @ [f]) = Returns ((fs @ [f]) @ gs)"
    "carries meta gs calls" "\<forall>g \<in> set gs. wf g"
    using Cons.IH [of "fs @ [f]"] Cons.prems by auto
  then show ?case using f by (intro exI [of _ "f # gs"]) (simp add: put_frame_def c)
qed simp

lemma publish_then_receive:
  assumes "0 < capacity" "capacity < 2 ^ 32" "\<And>i. wf (old i)"
  shows "\<exists>fs. publish_framed_payload_in_place payload kind capacity (put_frame write_frame old) (next_id, [])
       = Returns (next_id + 1, fs)
     \<and> carries meta fs (frame_calls payload kind capacity next_id)
     \<and> length fs = max 1 ((length payload + capacity - 1) div capacity)
     \<and> (\<forall>clock rest. recv_framed_message clock (length fs) pop_frame meta (fs @ rest)
          = Returns ((kind, payload), rest))"
proof -
  have "\<forall>c \<in> set (frame_calls payload kind capacity next_id). length (fst c) \<le> capacity"
    using frame_list_chunk [OF assms(1)] assms(1) by (fastforce simp: frame_calls_list)
  then have "\<forall>c \<in> set (frame_calls payload kind capacity next_id).
      length (fst c) \<le> capacity \<and> length (fst c) < 2 ^ 32" using assms(2) by fastforce
  from run_calls_put [where old = old and fs = "[]", OF assms(3) this] obtain fs where
    fs: "run_calls (put_frame write_frame old) (frame_calls payload kind capacity next_id) [] = Returns fs"
      "carries meta fs (frame_calls payload kind capacity next_id)" by auto
  have "length fs = length (frame_calls payload kind capacity next_id)"
    using fs(2) by (simp add: carries_def) (metis length_map)
  then have "length fs = max 1 ((length payload + capacity - 1) div capacity)"
    using frame_list_count [OF assms(1)] assms(1) by (simp only: frame_calls_list)
  then show ?thesis
    using fs assms(1) recv_frames [OF assms(1) fs(2), of "length fs"]
    by (intro exI [of _ fs]) (simp add: publish_framed_payload_in_place_def recv_framed_message_def)
qed

end

definition fixed_frame_wf :: "nat \<Rightarrow> fixed_frame \<Rightarrow> bool" where
  "fixed_frame_wf data_bytes f \<longleftrightarrow> length (ff_data f) = data_bytes"

definition aligned_frame_wf :: "nat \<Rightarrow> aligned_frame \<Rightarrow> bool" where
  "aligned_frame_wf data_bytes f \<longleftrightarrow> length (af_bytes f) = data_bytes"

lemma unat_len_u32: "n < 2 ^ 32 \<Longrightarrow> unat (of_nat n :: u32) = n"
  by (simp add: unsigned_of_nat take_bit_nat_eq_self)

interpretation fixed: framed n "fixed_frame_wf n" fixed_frame_meta "fixed_write_frame n" for n
  by unfold_locales
    (auto simp: fixed_frame_wf_def fixed_frame_meta_def fixed_write_frame_def call_meta_def Let_def unat_len_u32)

interpretation aligned: framed n "aligned_frame_wf n" aligned_frame_meta "aligned_write_frame n" for n
  by unfold_locales
    (auto simp: aligned_frame_wf_def aligned_frame_meta_def aligned_write_frame_def call_meta_def Let_def unat_len_u32)

text \<open>C18. Framing round trip. Whatever the slots held before, a payload published as fixed frames is received again by
  \<open>recv_framed_message\<close> with its kind, complete, consuming exactly its own frames; it takes
  one frame for each started chunk and one for an empty payload, and one message id.\<close>

theorem framed_roundtrip:
  assumes "0 < n" "n < 2 ^ 32" "\<forall>i. fixed_frame_wf n (old i)"
  shows "\<exists>fs. publish_framed_payload_in_place payload kind n (put_frame (fixed_write_frame n) old) (next_id, [])
       = Returns (next_id + 1, fs)
     \<and> length fs = max 1 ((length payload + n - 1) div n)
     \<and> (\<forall>clock rest. recv_framed_message clock (length fs) pop_frame fixed_frame_meta (fs @ rest)
          = Returns ((kind, payload), rest))"
  using fixed.publish_then_receive [where old = old and payload = payload and kind = kind and next_id = next_id,
      OF assms(1,2)] assms(3) by blast

theorem framed_roundtrip_witness:
  "\<exists>fs. publish_framed_payload_in_place [1, 2, 3, 4, 5, 6, 7, 8, 9, 10] 7 4
          (put_frame (fixed_write_frame 4) (\<lambda>i. fixed_frame_default 4)) (41, []) = Returns (42, fs)
     \<and> length fs = 3
     \<and> recv_framed_message 0 3 pop_frame fixed_frame_meta fs = Returns ((7, [1, 2, 3, 4, 5, 6, 7, 8, 9, 10]), [])"
proof -
  have "\<forall>i. fixed_frame_wf 4 (fixed_frame_default 4)" by (simp add: fixed_frame_wf_def fixed_frame_default_def)
  then obtain fs where fs: "publish_framed_payload_in_place [1, 2, 3, 4, 5, 6, 7, 8, 9, 10] 7 4
      (put_frame (fixed_write_frame 4) (\<lambda>i. fixed_frame_default 4)) (41, []) = Returns (41 + 1, fs)"
    "length fs = 3" and recv: "\<forall>clock rest. recv_framed_message clock (length fs) pop_frame fixed_frame_meta (fs @ rest)
      = Returns ((7, [1, 2, 3, 4, 5, 6, 7, 8, 9, 10]), rest)"
    using framed_roundtrip [of 4 "\<lambda>i. fixed_frame_default 4" "[1, 2, 3, 4, 5, 6, 7, 8, 9, 10]" 7 41] by auto
  show ?thesis using fs spec [OF spec [OF recv, of 0], of "[]"] by auto
qed

theorem batch_receive_delivers_messages_witness:
  "\<exists>fs b'. on_frames (\<lambda>_. 0) fixed_frame_meta (\<lambda>m bytes acc. acc @ [(rm_kind m, bytes)]) fs (0, reassembly_new, [])
     = Some (2, b', [(7, [1, 2, 3, 4, 5]), (8, [6])])"
proof -
  have ok: "fixed_frame_wf 2 (fixed_frame_default 2)" by (simp add: fixed_frame_wf_def fixed_frame_default_def)
  obtain fs where fs: "carries fixed_frame_meta fs (frame_calls [1, 2, 3, 4, 5] 7 2 1)"
    using fixed.publish_then_receive [of 2 "\<lambda>i. fixed_frame_default 2" "[1, 2, 3, 4, 5]" 7 1] ok by auto
  obtain gs where gs: "carries fixed_frame_meta gs (frame_calls [6] 8 2 2)"
    using fixed.publish_then_receive [of 2 "\<lambda>i. fixed_frame_default 2" "[6]" 8 2] ok by auto
  have "carries fixed_frame_meta (fs @ gs) (message_calls 2 [([1, 2, 3, 4, 5], 7, 1), ([6], 8, 2)])"
    using fs gs by (auto simp: message_calls_def carries_append)
  from batch_receive_delivers_messages [OF _ this reassembly_new_wf, where d = 0 and acc = "[]" and clock = "\<lambda>_. 0"
      and handler = "\<lambda>m bytes acc. acc @ [(rm_kind m, bytes)]"]
  show ?thesis by (auto simp: usize_max_def numeral_2_eq_2)
qed

section \<open>Owned and leased receiving\<close>

lemma recv_rest_leased_owned:
  assumes frames: "\<And>s f s1 m. next_frame s = Returns (f, s1) \<Longrightarrow> meta f = Some m \<Longrightarrow> length (fm_data m) \<le> bound"
    and "reassembly_wf b" "ra_len b + n * bound + 16 \<le> usize_max"
  shows "bind_outcome (recv_rest_leased next_frame meta n msg_id b s) (\<lambda>(b1, s1). Returns (reassembly_bytes b1, s1))
       = recv_rest next_frame meta n msg_id (reassembly_bytes b) s"
  using assms(2,3)
proof (induction n arbitrary: b s)
  case (Suc n)
  show ?case
  proof (cases "next_frame s")
    case (Returns r)
    obtain f s1 where r: "r = (f, s1)" by fastforce
    show ?thesis
    proof (cases "meta f")
      case (Some m)
      have len: "length (fm_data m) \<le> bound" using frames Returns r Some by blast
      then have "ra_len b + length (fm_data m) + 16 \<le> usize_max" using Suc.prems(2) by simp
      note app = append_ok [OF Suc.prems(1) this]
      have "ra_len (reassembly_append (fm_data m) b) + n * bound + 16 \<le> usize_max"
        using app(6) len Suc.prems(2) by simp
      note Suc.IH [OF app(1) this, of s1]
      moreover have "ra_len b + n * bound + 16 \<le> usize_max" using Suc.prems(2) by simp
      note Suc.IH [OF Suc.prems(1) this, of s1]
      ultimately show ?thesis using Returns r Some app(2) by (simp add: Let_def)
    qed (use Returns r in simp)
  qed simp_all
qed simp

text \<open>C19. Leased receiving equals owned receiving. On every stream of frames, complete or not, receiving into a reassembly buffer and lending
  the bytes to a handler gives the handler exactly the message that the copying receiver
  returns, and panics or waits exactly when that does.\<close>

theorem leased_equals_owned:
  assumes "\<And>s f s1 m. next_frame s = Returns (f, s1) \<Longrightarrow> meta f = Some m
      \<Longrightarrow> length (fm_data m) \<le> bound \<and> fm_len m \<le> bound"
    and "reassembly_wf b" "(n + 1) * bound + 16 \<le> usize_max"
  shows "bind_outcome (recv_framed_message_leased_with_meta clock n next_frame meta handler b s)
           (\<lambda>(r, b1, s1). Returns (r, s1))
       = bind_outcome (recv_framed_message_with_meta clock n next_frame meta s)
           (\<lambda>((m, payload), s1). Returns (handler m payload, s1))"
proof (cases "next_frame s")
  case (Returns r)
  obtain f s1 where r: "r = (f, s1)" by fastforce
  show ?thesis
  proof (cases "meta f")
    case (Some m)
    have len: "length (fm_data m) \<le> bound" "fm_len m \<le> bound" using assms(1) Returns r Some by blast+
    have "max (fm_len m) (length (fm_data m)) + 16 \<le> usize_max" using len assms(3) by simp
    note st = start_ok [OF assms(2) this, of "fm_msg_id m" "fm_kind m" "fm_timestamp m"]
    let ?b = "reassembly_start (fm_msg_id m) (fm_kind m) (fm_data m) (fm_len m) (fm_timestamp m) b"
    have "ra_len ?b + n * bound + 16 \<le> usize_max"
      using bytes_length [OF st(1)] st(2) len assms(3) by simp
    with assms(1) have "bind_outcome (recv_rest_leased next_frame meta n (fm_msg_id m) ?b s1)
        (\<lambda>(b1, s1). Returns (reassembly_bytes b1, s1)) = recv_rest next_frame meta n (fm_msg_id m) (fm_data m) s1"
      using recv_rest_leased_owned [of next_frame meta bound ?b n "fm_msg_id m" s1] st(1,2) by auto
    then show ?thesis
      using Returns r Some st(2)
      by (cases "recv_rest_leased next_frame meta n (fm_msg_id m) ?b s1")
        (auto simp: recv_framed_message_leased_with_meta_def recv_framed_message_with_meta_def Let_def
          dest: sym)
  qed (use Returns r in \<open>simp add: recv_framed_message_leased_with_meta_def recv_framed_message_with_meta_def\<close>)
qed (simp_all add: recv_framed_message_leased_with_meta_def recv_framed_message_with_meta_def)

theorem leased_equals_owned_witness:
  "bind_outcome (recv_framed_message_leased_with_meta 5 3 pop_frame fixed_frame_meta (\<lambda>m p. (rm_kind m, p))
       reassembly_new
       [\<lparr> ff_len = 2, ff_kind = 7, ff_flags = 1, ff_msg_id = 9, ff_data = [1, 2] \<rparr>,
        \<lparr> ff_len = 1, ff_kind = 7, ff_flags = 2, ff_msg_id = 9, ff_data = [3, 0] \<rparr>])
     (\<lambda>(r, b1, s1). Returns (r, s1)) = Returns ((7, [1, 2, 3]), [])"
proof -
  have "length (fm_data m) \<le> 4294967296 \<and> fm_len m \<le> 4294967296"
    if "pop_frame s = Returns (f, s1)" "fixed_frame_meta f = Some m" for s f s1 m
    using that(2) unsigned_less [of "ff_len f", where ?'a = nat]
    by (auto simp: fixed_frame_meta_def Let_def split: if_splits)
  then show ?thesis
    by (subst leased_equals_owned [where bound = 4294967296])
      (simp_all add: usize_max_def recv_framed_message_with_meta_def fixed_frame_meta_def is_single_frame_def
        is_last_frame_def numeral_3_eq_3)
qed

section \<open>Joining in the middle of a message\<close>

lemma on_frames_ignored:
  assumes "0 < n" "carries meta fs (frame_list False payload kind n msg_id)" "ra_msg_id b \<noteq> msg_id"
  shows "on_frames clock meta handler (fs @ rest) (d, b, acc) = on_frames clock meta handler rest (d, b, acc)"
  using assms
proof (induction "False" payload kind n msg_id arbitrary: fs rule: frame_list.induct)
  case (1 payload kind n msg_id)
  show ?case
  proof (cases "length payload \<le> n")
    case True
    then show ?thesis
      using 1(3,4) by (auto simp: frame_list_cases carries_Cons call_meta_def on_frame_def Let_def)
  next
    case False
    then obtain f fs1 where fs: "fs = f # fs1"
      "meta f = Some (call_meta (take n payload, kind, msg_id, frame_flags False False))"
      "carries meta fs1 (frame_list False (drop n payload) kind n msg_id)"
      using 1(2,3) by (auto simp: frame_list_cases carries_Cons)
    have "on_frames clock meta handler (fs1 @ rest) (d, b, acc) = on_frames clock meta handler rest (d, b, acc)"
      using 1(1) [OF _ 1(2) fs(3) 1(4)] False 1(2) by simp
    then show ?thesis using fs 1(4) by (simp add: call_meta_def on_frame_def Let_def)
  qed
qed

text \<open>C20. A late joiner. A receiver whose first frame is the second frame of a message: the blocking receiver does
  not look at the first-frame bit and returns the rest of the message as a whole one, whereas
  the batch receiver drops it (unless the message id is 0, the id of an empty buffer).\<close>

theorem late_joiner_truncates:
  assumes "0 < n" "n < length payload" "carries meta (f # fs) (frame_calls payload kind n msg_id)"
    and "length fs \<le> Suc k" "msg_id \<noteq> 0"
  shows "recv_framed_message received k pop_frame meta (fs @ rest) = Returns ((kind, drop n payload), rest)
     \<and> on_frames clock meta handler (fs @ rest) (d, reassembly_new, acc)
         = on_frames clock meta handler rest (d, reassembly_new, acc)"
proof
  let ?p = "drop n payload"
  have tail: "carries meta fs (frame_list False ?p kind n msg_id)"
    using assms(1-3) by (simp add: frame_calls_list frame_list_cases)
  show "on_frames clock meta handler (fs @ rest) (d, reassembly_new, acc)
         = on_frames clock meta handler rest (d, reassembly_new, acc)"
    by (rule on_frames_ignored [OF assms(1) tail]) (use assms(5) in \<open>simp add: reassembly_new_def\<close>)
  show "recv_framed_message received k pop_frame meta (fs @ rest) = Returns ((kind, drop n payload), rest)"
  proof (cases "length ?p \<le> n")
    case True
    then show ?thesis
      using tail by (auto simp: frame_list_cases carries_Cons call_meta_def recv_framed_message_def
          recv_framed_message_with_meta_def Let_def)
  next
    case False
    then obtain g gs where gs: "fs = g # gs"
      "meta g = Some (call_meta (take n ?p, kind, msg_id, frame_flags False False))"
      "carries meta gs (frame_list False (drop n ?p) kind n msg_id)"
      using tail assms(1) by (auto simp: frame_list_cases carries_Cons)
    have "recv_rest pop_frame meta k msg_id (take n ?p) (gs @ rest) = Returns (take n ?p @ drop n ?p, rest)"
      by (rule recv_rest_frames [OF assms(1) gs(3)]) (use assms(4) gs(1) in simp)
    then have "recv_rest pop_frame meta k msg_id (take n ?p) (gs @ rest) = Returns (?p, rest)"
      by (simp only: append_take_drop_id)
    then show ?thesis
      using gs by (simp add: call_meta_def recv_framed_message_def recv_framed_message_with_meta_def Let_def)
  qed
qed

theorem late_joiner_truncates_witness:
  "\<exists>fs. recv_framed_message 0 1 pop_frame fixed_frame_meta fs = Returns ((7, [3, 4, 5]), [])
     \<and> on_frames (\<lambda>_. 0) fixed_frame_meta (\<lambda>m bytes acc. acc @ [bytes]) fs (0, reassembly_new, [])
         = Some (0, reassembly_new, [])"
proof -
  have ok: "fixed_frame_wf 2 (fixed_frame_default 2)" by (simp add: fixed_frame_wf_def fixed_frame_default_def)
  then obtain fs where fs: "carries fixed_frame_meta fs (frame_calls [1, 2, 3, 4, 5] 7 2 1)" "length fs = 3"
    using fixed.publish_then_receive [of 2 "\<lambda>i. fixed_frame_default 2" "[1, 2, 3, 4, 5]" 7 1] by auto
  then obtain f gs where gs: "fs = f # gs" "length gs = 2" by (cases fs) auto
  have "recv_framed_message 0 1 pop_frame fixed_frame_meta (gs @ []) = Returns ((7, drop 2 [1, 2, 3, 4, 5]), [])
     \<and> on_frames (\<lambda>_. 0) fixed_frame_meta (\<lambda>m bytes acc. acc @ [bytes]) (gs @ []) (0, reassembly_new, [])
         = on_frames (\<lambda>_. 0) fixed_frame_meta (\<lambda>m bytes acc. acc @ [bytes]) [] (0, reassembly_new, [])"
    by (rule late_joiner_truncates [where f = f and msg_id = 1]) (use fs gs in auto)
  then show ?thesis by (intro exI [of _ gs]) simp
qed

end
