(* ===== verification/Fnv.thy ===== *)
theory Fnv
  imports Prelude
begin

unbundle bit_operations_syntax

text \<open>
  The byte-wise multiplicative hash of the program, at any word width: the fold, and what a
  multiplier with an inverse gives, stated once in a locale. Theory Layout interprets it for
  the 32-bit header checksum, theory Oracle for the 64-bit payload hash.
\<close>

text \<open>The hash loop shared by the header checksum and the payload hash of the simulation oracle:
  \<open>hash ^= byte; hash = hash.wrapping_mul(prime)\<close>.\<close>

definition fnv_step :: "'a::len word \<Rightarrow> 'a word \<Rightarrow> u8 \<Rightarrow> 'a word" where
  "fnv_step prime h b = (h XOR ucast b) * prime"

definition fnv_fold :: "'a::len word \<Rightarrow> 'a word \<Rightarrow> u8 list \<Rightarrow> 'a word" where
  "fnv_fold prime h bs = foldl (fnv_step prime) h bs"

lemma fnv_fold_simps [simp]:
  "fnv_fold p h [] = h"
  "fnv_fold p h (b # bs) = fnv_fold p (fnv_step p h b) bs"
  "fnv_fold p h (bs @ cs) = fnv_fold p (fnv_fold p h bs) cs"
  by (simp_all add: fnv_fold_def)

locale fnv_hash =
  fixes prime inverse_prime :: "'a::len word"
  assumes prime_unit: "prime * inverse_prime = 1"
    and byte_inject: "(ucast (x :: u8) :: 'a word) = ucast y \<Longrightarrow> x = y"
begin

lemma step_inject_state: "fnv_step prime h b = fnv_step prime k b \<Longrightarrow> h = k"
  unfolding fnv_step_def using mult_unit_cancel [OF prime_unit] xor_right_cancel by metis

lemma step_inject_byte: "fnv_step prime h b = fnv_step prime h c \<Longrightarrow> b = c"
  unfolding fnv_step_def using mult_unit_cancel [OF prime_unit] xor_left_cancel byte_inject by metis

lemma fold_inject_state: "fnv_fold prime h bs = fnv_fold prime k bs \<Longrightarrow> h = k"
  by (induction bs arbitrary: h k) (auto dest: step_inject_state)

lemma fold_single_byte:
  assumes "fnv_fold prime h (xs @ b # ys) = fnv_fold prime h (xs @ c # ys)"
  shows "b = c"
  using assms by (auto dest!: fold_inject_state step_inject_byte)

lemma fold_update_byte:
  assumes "i < length bs" "fnv_fold prime h (bs[i := c]) = fnv_fold prime h bs"
  shows "c = bs ! i"
proof -
  have "bs = take i bs @ bs ! i # drop (Suc i) bs"
    using assms(1) by (simp add: id_take_nth_drop)
  moreover have "bs[i := c] = take i bs @ c # drop (Suc i) bs"
    using assms(1) by (simp add: upd_conv_take_nth_drop)
  ultimately show ?thesis
    using assms(2) fold_single_byte [of h "take i bs" c "drop (Suc i) bs" "bs ! i"] by simp
qed

end

end
