(* ===== verification/Layout.thy ===== *)
theory Layout
  imports Config Fnv
begin

text \<open>
  The header contract of every segment (\<open>disruptor-mp/src/shared_memory_layout.rs\<close>): the
  56-byte \<open>LayoutHeader\<close>, its checksum, the offset contract, the writer and the validator
  that runs before any payload access. A region is the list of its bytes, a null pointer is
  \<open>None\<close>; numbers are \<open>usize\<close> words, little-endian in memory.
\<close>

section \<open>Header data\<close>

definition LAYOUT_MAGIC :: "u8 list" where
  "LAYOUT_MAGIC = [68, 83, 77, 80, 84, 86, 48, 49]"

definition CURRENT_LAYOUT_VERSION :: u16 where
  "CURRENT_LAYOUT_VERSION = 1"

definition HEADER_ALIGNMENT_MIN :: usize where
  "HEADER_ALIGNMENT_MIN = 8"

definition MIGRATION_HINT :: string where
  "MIGRATION_HINT = ''MIGRATION: create a new ring/segment name for LayoutV2 and perform a rolling restart.''"

record layout_header =
  lh_magic :: "u8 list"
  lh_version :: u16
  lh_kind :: u16
  lh_header_size :: u16
  lh_alignment :: u16
  lh_payload_size :: u64
  lh_element_size :: u64
  lh_capacity :: u64
  lh_reserved :: u64
  lh_checksum :: u32
  lh_reserved2 :: u32

datatype segment_kind = RingBuffer | Cursor

fun segment_kind_name :: "segment_kind \<Rightarrow> string" where
  "segment_kind_name RingBuffer = ''ring_buffer''"
| "segment_kind_name Cursor = ''cursor''"

fun segment_kind_as_u16 :: "segment_kind \<Rightarrow> u16" where
  "segment_kind_as_u16 RingBuffer = 1"
| "segment_kind_as_u16 Cursor = 2"

definition segment_kind_from_u16 :: "u16 \<Rightarrow> segment_kind mp_result" where
  "segment_kind_from_u16 kind =
     (if kind = 1 then Inr RingBuffer
      else if kind = 2 then Inr Cursor
      else Inl (IncompatibleLayout (''segment kind unknown: '' @ show_nat (unat kind))))"

record layout_contract =
  lc_payload_offset :: usize
  lc_total_size :: usize

section \<open>Alignment, checksum and the bytes of a header\<close>

text \<open>\<open>usize::is_power_of_two\<close>.\<close>

definition is_power_of_two :: "usize \<Rightarrow> bool" where
  "is_power_of_two x \<longleftrightarrow> x \<noteq> 0 \<and> x AND (x - 1) = 0"

definition align_up :: "usize \<Rightarrow> usize \<Rightarrow> usize mp_result" where
  "align_up v align =
     (if align = 0 \<or> \<not> is_power_of_two align
      then Inl (IncompatibleLayout ''layout alignment must be power-of-two'')
      else Inr ((v + align - 1) AND NOT (align - 1)))"

definition checksum32 :: "u8 list \<Rightarrow> u32" where
  "checksum32 bytes = fnv_fold 0x01000193 0x811C9DC5 bytes"

text \<open>\<open>size_of\<close> and \<open>align_of\<close> of the \<open>repr(C)\<close> structure: eight bytes of magic, four
  16-bit, four 64-bit and two 32-bit fields, which need no padding.\<close>

definition header_size :: nat where
  "header_size = 56"

definition align_of_header :: usize where
  "align_of_header = 8"

definition bytes_of_header :: "layout_header \<Rightarrow> u8 list" where
  "bytes_of_header h =
     lh_magic h
     @ nat_le_bytes 2 (unat (lh_version h))
     @ nat_le_bytes 2 (unat (lh_kind h))
     @ nat_le_bytes 2 (unat (lh_header_size h))
     @ nat_le_bytes 2 (unat (lh_alignment h))
     @ nat_le_bytes 8 (unat (lh_payload_size h))
     @ nat_le_bytes 8 (unat (lh_element_size h))
     @ nat_le_bytes 8 (unat (lh_capacity h))
     @ nat_le_bytes 8 (unat (lh_reserved h))
     @ nat_le_bytes 4 (unat (lh_checksum h))
     @ nat_le_bytes 4 (unat (lh_reserved2 h))"

text \<open>\<open>ptr::read_unaligned\<close> of a header at the start of a region.\<close>

definition field_at :: "u8 list \<Rightarrow> nat \<Rightarrow> nat \<Rightarrow> nat" where
  "field_at bs offset n = nat_of_le_bytes (take n (drop offset bs))"

definition header_of_bytes :: "u8 list \<Rightarrow> layout_header" where
  "header_of_bytes bs =
     \<lparr> lh_magic = take 8 bs,
       lh_version = of_nat (field_at bs 8 2),
       lh_kind = of_nat (field_at bs 10 2),
       lh_header_size = of_nat (field_at bs 12 2),
       lh_alignment = of_nat (field_at bs 14 2),
       lh_payload_size = of_nat (field_at bs 16 8),
       lh_element_size = of_nat (field_at bs 24 8),
       lh_capacity = of_nat (field_at bs 32 8),
       lh_reserved = of_nat (field_at bs 40 8),
       lh_checksum = of_nat (field_at bs 48 4),
       lh_reserved2 = of_nat (field_at bs 52 4) \<rparr>"

definition is_valid_checksum :: "layout_header \<Rightarrow> bool" where
  "is_valid_checksum h \<longleftrightarrow>
     checksum32 (bytes_of_header (h\<lparr>lh_checksum := 0\<rparr>)) = lh_checksum h"

section \<open>Reading, building and validating\<close>

definition layout_error :: "string \<Rightarrow> mp_error + 'a" where
  "layout_error m = Inl (IncompatibleLayout m)"

definition read_header :: "u8 list option \<Rightarrow> layout_header mp_result" where
  "read_header base =
     (case base of
        None \<Rightarrow> layout_error ''shared layout pointer is null''
      | Some region \<Rightarrow>
          if length region < header_size
          then layout_error
                 (''shared segment too small for layout header: got '' @ show_nat (length region)
                  @ '' bytes, expected at least '' @ show_nat header_size)
          else
            let header = header_of_bytes region in
            if lh_magic header \<noteq> LAYOUT_MAGIC
            then layout_error
                   (''layout magic mismatch (expected '' @ show_bytes_debug LAYOUT_MAGIC
                    @ '', got '' @ show_bytes_debug (lh_magic header) @ '')'')
            else if lh_version header \<noteq> CURRENT_LAYOUT_VERSION
            then layout_error
                   (''layout version mismatch: got '' @ show_nat (unat (lh_version header))
                    @ '', expected '' @ show_nat (unat CURRENT_LAYOUT_VERSION)
                    @ ''. '' @ MIGRATION_HINT)
            else if \<not> is_valid_checksum header
            then layout_error ''layout checksum failed''
            else if unat (lh_header_size header) \<noteq> header_size
            then layout_error
                   (''layout header size mismatch: got '' @ show_nat (unat (lh_header_size header))
                    @ '', expected '' @ show_nat header_size)
            else
              let alignment = ucast (lh_alignment header) :: usize in
              if alignment = 0 \<or> \<not> is_power_of_two alignment
              then layout_error ''layout alignment is invalid''
              else Inr header)"

definition validate_kind :: "u16 \<Rightarrow> segment_kind \<Rightarrow> unit mp_result" where
  "validate_kind header_kind expected =
     bind_result (segment_kind_from_u16 header_kind) (\<lambda>observed.
       if observed \<noteq> expected
       then layout_error (''segment kind mismatch: got '' @ segment_kind_name observed
                          @ '', expected '' @ segment_kind_name expected)
       else Inr ())"

definition payload_offset :: "usize \<Rightarrow> usize mp_result" where
  "payload_offset payload_alignment =
     align_up (of_nat header_size)
       (max (max payload_alignment align_of_header) HEADER_ALIGNMENT_MIN)"

text \<open>\<open>u16::try_from\<close> of a \<open>usize\<close>; \<open>u64::try_from\<close> always succeeds on a 64-bit target.\<close>

definition u16_try_from :: "usize \<Rightarrow> u16 option" where
  "u16_try_from x = (if unat x < 65536 then Some (ucast x) else None)"

definition make_layout_header ::
  "usize \<Rightarrow> usize \<Rightarrow> usize \<Rightarrow> usize \<Rightarrow> segment_kind \<Rightarrow> layout_header mp_result" where
  "make_layout_header payload_size element_size cap payload_alignment kind =
     (let pa = max (max payload_alignment align_of_header) HEADER_ALIGNMENT_MIN in
      bind_result (ok_or (IncompatibleLayout ''layout header size does not fit u16'')
                     (u16_try_from (of_nat header_size))) (\<lambda>hsize.
      bind_result (ok_or (IncompatibleLayout ''layout alignment does not fit u16'')
                     (u16_try_from pa)) (\<lambda>align.
        let header = \<lparr> lh_magic = LAYOUT_MAGIC, lh_version = CURRENT_LAYOUT_VERSION,
                       lh_kind = segment_kind_as_u16 kind, lh_header_size = hsize,
                       lh_alignment = align, lh_payload_size = payload_size,
                       lh_element_size = element_size, lh_capacity = cap,
                       lh_reserved = 0, lh_checksum = 0, lh_reserved2 = 0 \<rparr> in
        Inr (header\<lparr>lh_checksum := checksum32 (bytes_of_header header)\<rparr>))))"

text \<open>\<open>usize::checked_add\<close>.\<close>

definition checked_add_usize :: "usize \<Rightarrow> usize \<Rightarrow> usize option" where
  "checked_add_usize a b = (if unat a + unat b \<le> usize_max then Some (a + b) else None)"

definition make_contract :: "usize \<Rightarrow> usize \<Rightarrow> layout_contract mp_result" where
  "make_contract payload_size payload_alignment =
     bind_result (payload_offset payload_alignment) (\<lambda>offset.
     bind_result (ok_or (SharedMemoryError ''shared memory size overflow'')
                    (checked_add_usize payload_size offset)) (\<lambda>total.
       Inr \<lparr> lc_payload_offset = offset, lc_total_size = total \<rparr>))"

definition required_layout_size :: "usize \<Rightarrow> usize \<Rightarrow> usize mp_result" where
  "required_layout_size payload_size payload_alignment =
     bind_result (make_contract payload_size payload_alignment) (\<lambda>c. Inr (lc_total_size c))"

text \<open>\<open>write_layout\<close> / \<open>write_layout_bytes\<close>: the contract and the region with the header
  copied over its first bytes; on an error the region is untouched.\<close>

definition write_layout_bytes ::
  "u8 list \<Rightarrow> usize \<Rightarrow> usize \<Rightarrow> usize \<Rightarrow> usize \<Rightarrow> segment_kind
    \<Rightarrow> (layout_contract \<times> u8 list) mp_result" where
  "write_layout_bytes region payload_size element_size cap payload_alignment kind =
     bind_result (make_contract payload_size payload_alignment) (\<lambda>contract.
       if length region < unat (lc_total_size contract)
       then Inl (SharedMemoryError ''shared segment too small for layout'')
       else
         bind_result (make_layout_header payload_size element_size cap payload_alignment kind)
           (\<lambda>header. let bytes = bytes_of_header header in
              Inr (contract, bytes @ drop (length bytes) region)))"

definition mismatch_text :: "string \<Rightarrow> segment_kind \<Rightarrow> u64 \<Rightarrow> u64 \<Rightarrow> string" where
  "mismatch_text what kind got expected =
     what @ '' mismatch for '' @ segment_kind_name kind @ '' segment: got ''
     @ show_nat (unat got) @ '', expected '' @ show_nat (unat expected)"

definition validate_layout_bytes ::
  "u8 list option \<Rightarrow> usize \<Rightarrow> usize \<Rightarrow> usize \<Rightarrow> usize \<Rightarrow> segment_kind
    \<Rightarrow> layout_contract mp_result" where
  "validate_layout_bytes base payload_size element_size cap payload_alignment kind =
     bind_result (read_header base) (\<lambda>header.
     bind_result (validate_kind (lh_kind header) kind) (\<lambda>_.
       if lh_payload_size header \<noteq> payload_size
       then layout_error (mismatch_text ''payload size'' kind (lh_payload_size header) payload_size)
       else if lh_element_size header \<noteq> element_size
       then layout_error (mismatch_text ''element size'' kind (lh_element_size header) element_size)
       else if lh_capacity header \<noteq> cap
       then layout_error (mismatch_text ''capacity'' kind (lh_capacity header) cap)
       else
         bind_result (make_contract payload_size
                        (max payload_alignment (ucast (lh_alignment header)))) (\<lambda>contract.
           let region_len = (case base of None \<Rightarrow> 0 | Some region \<Rightarrow> length region) in
           if region_len < unat (lc_total_size contract)
           then layout_error
                  (''shared segment too small for layout: got '' @ show_nat region_len
                   @ '' bytes, expected at least '' @ show_nat (unat (lc_total_size contract)))
           else Inr contract)))"

section \<open>Alignment\<close>

text \<open>A power of two in the sense of the bit test is \<open>2 ^ k\<close>.\<close>

lemma is_power_of_two_iff: "is_power_of_two x \<longleftrightarrow> (\<exists>k<64. x = 2 ^ k)"
  using word_and_pred_iff [of x] by (simp add: is_power_of_two_def)

lemma unat_power_of_two: "k < 64 \<Longrightarrow> unat (2 ^ k :: usize) = 2 ^ k"
proof -
  assume k: "k < 64"
  have "(2::nat) ^ k < 2 ^ 64" using k by (intro power_strict_increasing) simp_all
  moreover have "unat (of_nat (2 ^ k) :: usize) = 2 ^ k mod 2 ^ 64"
    by (simp only: unat_of_nat) simp
  ultimately show "unat (2 ^ k :: usize) = 2 ^ k" by simp
qed

lemma align_up_error:
  "\<not> is_power_of_two align \<Longrightarrow>
   align_up v align = Inl (IncompatibleLayout ''layout alignment must be power-of-two'')"
  by (simp add: align_up_def)

lemma align_up_value:
  assumes "is_power_of_two align" "unat v + unat align - 1 \<le> usize_max"
  shows "\<exists>r. align_up v align = Inr r
           \<and> unat r = (unat v + unat align - 1) div unat align * unat align"
proof -
  obtain k where k: "k < 64" "align = 2 ^ k" using assms(1) by (auto simp: is_power_of_two_iff)
  have pos: "0 < unat align" using k by (simp add: unat_power_of_two)
  have "unat (v + align - 1) = unat v + unat align - 1"
  proof -
    have "v + align - 1 = of_nat (unat v + unat align - 1)" using pos by (simp add: of_nat_diff)
    also have "unat \<dots> = (unat v + unat align - 1) mod 2 ^ 64" by (simp only: unat_of_nat) simp
    finally show ?thesis using assms(2) by (simp add: usize_max_def)
  qed
  moreover have "align_up v align = Inr ((v + align - 1) AND NOT (align - 1))"
    using assms(1) k by (auto simp: align_up_def is_power_of_two_def)
  ultimately show ?thesis
    using k unat_and_not_mask [of k "v + align - 1"] by (simp add: unat_power_of_two)
qed

lemma round_up_bounds:
  fixes v a :: nat
  assumes "0 < a"
  shows "v \<le> (v + a - 1) div a * a" "(v + a - 1) div a * a < v + a"
proof -
  have "(v + a - 1) div a * a = v + a - 1 - (v + a - 1) mod a"
    by (simp add: minus_mod_eq_div_mult)
  moreover have "(v + a - 1) mod a \<le> a - 1" using assms by (simp add: Suc_leI less_Suc_eq_le [symmetric])
  moreover have "(v + a - 1) mod a \<le> v + a - 1" by (rule mod_less_eq_dividend)
  ultimately show "v \<le> (v + a - 1) div a * a" "(v + a - 1) div a * a < v + a"
    using assms by linarith+
qed

text \<open>Alignment. For every power-of-two alignment and every value that does not overflow, \<open>align_up\<close> succeeds
  with the least multiple of the alignment that is not below the value; any other
  alignment is an error.\<close>

theorem align_up_least_multiple:
  "if is_power_of_two align
   then unat v + unat align - 1 \<le> usize_max \<longrightarrow>
        (\<exists>r. align_up v align = Inr r \<and> unat align dvd unat r
             \<and> unat v \<le> unat r \<and> unat r < unat v + unat align)
   else \<exists>e. align_up v align = Inl e"
proof (cases "is_power_of_two align")
  case True
  then have "0 < unat align" by (auto simp: is_power_of_two_iff unat_power_of_two)
  with True show ?thesis
    using align_up_value [of align v] round_up_bounds [of "unat align" "unat v"] by fastforce
qed (simp add: align_up_error)

theorem align_up_least_multiple_witness:
  "align_up 57 64 = Inr 64 \<and> unat (64 :: usize) dvd unat (64 :: usize)"
proof -
  have "\<exists>r. align_up 57 64 = Inr r \<and> unat (64 :: usize) dvd unat r
             \<and> unat (57 :: usize) \<le> unat r \<and> unat r < unat (57 :: usize) + unat (64 :: usize)"
    using align_up_least_multiple [of 64 57] by (simp add: is_power_of_two_def usize_max_def)
  then show ?thesis by (simp add: align_up_def is_power_of_two_def)
qed

section \<open>Reading back the bytes of a header\<close>

lemma length_bytes_of_header [simp]:
  "length (lh_magic h) = 8 \<Longrightarrow> length (bytes_of_header h) = 56"
  by (simp add: bytes_of_header_def)

lemma field_at_skip:
  "field_at (xs @ ys) (length xs + k) n = field_at ys k n"
  by (simp add: field_at_def)

lemma field_at_here:
  "field_at (nat_le_bytes n v @ ys) 0 n = v mod 256 ^ n"
  by (simp add: field_at_def nat_of_le_bytes_of_nat)

lemma field_at_append:
  assumes "length xs \<le> k"
  shows "field_at (xs @ ys) k n = field_at ys (k - length xs) n"
  using assms by (simp add: field_at_def)

lemma header_of_bytes_of_header:
  assumes "length (lh_magic h) = 8"
  shows "header_of_bytes (bytes_of_header h @ rest) = h"
  using assms
  by (cases h) (simp add: header_of_bytes_def bytes_of_header_def field_at_append field_at_here)

lemma nat_le_bytes_field_at:
  assumes "k + n \<le> length bs"
  shows "nat_le_bytes n (field_at bs k n) = take n (drop k bs)"
proof -
  have "length (take n (drop k bs)) = n" using assms by simp
  then show ?thesis
    using nat_le_bytes_of_bytes [of "take n (drop k bs)"] by (simp add: field_at_def)
qed

lemma field_at_less:
  assumes "k + n \<le> length bs"
  shows "field_at bs k n < 256 ^ n"
proof -
  have "length (take n (drop k bs)) = n" using assms by simp
  then show ?thesis
    using nat_of_le_bytes_less [of "take n (drop k bs)"] by (simp add: field_at_def)
qed

lemma unat_field_at:
  assumes "k + n \<le> length bs" "256 ^ n \<le> (2 :: nat) ^ LENGTH('a::len)"
  shows "unat (of_nat (field_at bs k n) :: 'a word) = field_at bs k n"
proof -
  have "field_at bs k n < 2 ^ LENGTH('a)"
    using field_at_less [OF assms(1)] assms(2) by linarith
  then show ?thesis by (simp add: unat_of_nat)
qed

lemma take_48_fields:
  "take 48 bs = take 8 bs @ take 2 (drop 8 bs) @ take 2 (drop 10 bs) @ take 2 (drop 12 bs)
        @ take 2 (drop 14 bs) @ take 8 (drop 16 bs) @ take 8 (drop 24 bs) @ take 8 (drop 32 bs)
        @ take 8 (drop 40 bs)"
proof -
  have "take 48 bs = take (8 + (2 + (2 + (2 + (2 + (8 + (8 + (8 + 8)))))))) bs" by simp
  also have "\<dots> = take 8 bs @ take 2 (drop 8 bs) @ take 2 (drop 10 bs) @ take 2 (drop 12 bs)
        @ take 2 (drop 14 bs) @ take 8 (drop 16 bs) @ take 8 (drop 24 bs) @ take 8 (drop 32 bs)
        @ take 8 (drop 40 bs)"
    by (simp only: take_add drop_drop) simp
  finally show ?thesis .
qed

lemma word_field_bytes:
  assumes "k + n \<le> length bs" "256 ^ n \<le> (2 :: nat) ^ LENGTH('a::len)"
  shows "nat_le_bytes n (unat (of_nat (field_at bs k n) :: 'a word)) = take n (drop k bs)"
  using assms by (simp only: unat_field_at nat_le_bytes_field_at)

lemma word_field_bytes16:
  assumes "56 \<le> length bs" "k \<in> {8, 10, 12, 14}"
  shows "nat_le_bytes 2 (unat (of_nat (field_at bs k 2) :: u16)) = take 2 (drop k bs)"
  using assms by (intro word_field_bytes) auto

lemma word_field_bytes64:
  assumes "56 \<le> length bs" "k \<in> {16, 24, 32, 40}"
  shows "nat_le_bytes 8 (unat (of_nat (field_at bs k 8) :: u64)) = take 8 (drop k bs)"
  using assms by (intro word_field_bytes) auto

lemma word_field_bytes32:
  assumes "56 \<le> length bs" "k \<in> {48, 52}"
  shows "nat_le_bytes 4 (unat (of_nat (field_at bs k 4) :: u32)) = take 4 (drop k bs)"
  using assms by (intro word_field_bytes) auto

lemma zero_bytes: "nat_le_bytes 4 0 = [0, 0, 0, 0]"
  by (simp add: nat_le_bytes_numeral)

lemma bytes_without_checksum_fields:
  assumes "56 \<le> length bs"
  shows "bytes_of_header ((header_of_bytes bs)\<lparr>lh_checksum := 0\<rparr>)
      = take 8 bs @ take 2 (drop 8 bs) @ take 2 (drop 10 bs) @ take 2 (drop 12 bs)
        @ take 2 (drop 14 bs) @ take 8 (drop 16 bs) @ take 8 (drop 24 bs) @ take 8 (drop 32 bs)
        @ take 8 (drop 40 bs) @ [0, 0, 0, 0] @ take 4 (drop 52 bs)"
  by (simp only: bytes_of_header_def header_of_bytes_def layout_header.simps
      word_field_bytes16 [OF assms] word_field_bytes64 [OF assms] word_field_bytes32 [OF assms]
      unsigned_0 zero_bytes insert_iff simp_thms)

lemma bytes_without_checksum:
  assumes "56 \<le> length bs"
  shows "bytes_of_header ((header_of_bytes bs)\<lparr>lh_checksum := 0\<rparr>)
           = take 48 bs @ [0, 0, 0, 0] @ take 4 (drop 52 bs)"
  unfolding bytes_without_checksum_fields [OF assms] take_48_fields append_assoc ..

section \<open>Checksum and corruption\<close>

interpretation checksum: fnv_hash "0x01000193 :: u32" "0x359C449B"
  by unfold_locales simp_all

lemma checksum32_update:
  assumes "i < length bs" "checksum32 (bs[i := c]) = checksum32 bs"
  shows "c = bs ! i"
  using assms checksum.fold_update_byte by (auto simp: checksum32_def)

text \<open>Outside the checksum field an update changes the hashed bytes; inside it, the
  stored sum. Either way the check fails.\<close>

lemma is_valid_checksum_bytes:
  assumes "56 \<le> length bs"
  shows "is_valid_checksum (header_of_bytes bs) \<longleftrightarrow>
           checksum32 (take 48 bs @ [0, 0, 0, 0] @ take 4 (drop 52 bs))
             = of_nat (nat_of_le_bytes (take 4 (drop 48 bs)))"
  by (simp only: is_valid_checksum_def bytes_without_checksum [OF assms])
     (simp add: header_of_bytes_def field_at_def)

lemma nat_of_le_bytes_inject:
  assumes "length bs = length cs" "nat_of_le_bytes bs = nat_of_le_bytes cs"
  shows "bs = cs"
  using assms nat_le_bytes_of_bytes by metis

lemma stored_checksum_inject:
  assumes "length xs = 4" "length ys = 4"
    and "(of_nat (nat_of_le_bytes xs) :: u32) = of_nat (nat_of_le_bytes ys)"
  shows "xs = ys"
proof (rule nat_of_le_bytes_inject)
  have "nat_of_le_bytes xs < 2 ^ 32" "nat_of_le_bytes ys < 2 ^ 32"
    using nat_of_le_bytes_less [of xs] nat_of_le_bytes_less [of ys] assms(1,2) by simp_all
  then show "nat_of_le_bytes xs = nat_of_le_bytes ys"
    using assms(3) by (auto simp: word_unat_eq_iff unat_of_nat)
qed (simp add: assms)

lemma checksum_detects_update:
  assumes "56 \<le> length bs" "i < 56" "c \<noteq> bs ! i" "is_valid_checksum (header_of_bytes bs)"
  shows "\<not> is_valid_checksum (header_of_bytes (bs[i := c]))"
proof
  let ?cs = "bs[i := c]"
  let ?hashed = "\<lambda>xs. take 48 xs @ [0, 0, 0, 0] @ take 4 (drop 52 xs) :: u8 list"
  assume "is_valid_checksum (header_of_bytes ?cs)"
  then have new: "checksum32 (?hashed ?cs) = of_nat (nat_of_le_bytes (take 4 (drop 48 ?cs)))"
    using assms(1) by (subst is_valid_checksum_bytes [symmetric]) simp_all
  have old: "checksum32 (?hashed bs) = of_nat (nat_of_le_bytes (take 4 (drop 48 bs)))"
    using assms(1,4) is_valid_checksum_bytes by blast
  consider (front) "i < 48" | (stored) "48 \<le> i" "i < 52" | (tail) "52 \<le> i" by linarith
  then show False
  proof cases
    case front
    then have "?hashed ?cs = (?hashed bs)[i := c]" "i < length (?hashed bs)" "?hashed bs ! i = bs ! i"
      using assms(1) by (simp_all add: take_update_swap list_update_append nth_append)
    moreover have "take 4 (drop 48 ?cs) = take 4 (drop 48 bs)" using front by simp
    ultimately show False using old new checksum32_update [of i "?hashed bs" c] assms(3) by simp
  next
    case stored
    then have "?hashed ?cs = ?hashed bs" by simp
    then have "take 4 (drop 48 ?cs) = take 4 (drop 48 bs)"
      using old new assms(1) by (intro stored_checksum_inject) simp_all
    then have "take 4 (drop 48 ?cs) ! (i - 48) = take 4 (drop 48 bs) ! (i - 48)" by simp
    then show False using stored assms(1-3) by (simp add: nth_append)
  next
    case tail
    then obtain j where "i = 52 + j" using le_Suc_ex by blast
    then have "i - 48 = Suc (Suc (Suc (Suc j)))" "i - 52 = j" "52 + j = i" by simp_all
    then have "?hashed ?cs = (?hashed bs)[i := c]" "i < length (?hashed bs)" "?hashed bs ! i = bs ! i"
      using tail assms(1,2)
      by (simp_all add: list_update_beyond drop_update_swap take_update_swap list_update_append nth_append)
    moreover have "take 4 (drop 48 ?cs) = take 4 (drop 48 bs)"
      using tail by (simp add: drop_update_swap)
    ultimately show False using old new checksum32_update [of i "?hashed bs" c] assms(3) by simp
  qed
qed

section \<open>What the validator accepts\<close>

lemma read_header_ok_iff:
  "read_header (Some r) = Inr h \<longleftrightarrow>
     56 \<le> length r \<and> h = header_of_bytes r \<and> lh_magic h = LAYOUT_MAGIC
     \<and> lh_version h = CURRENT_LAYOUT_VERSION \<and> is_valid_checksum h
     \<and> unat (lh_header_size h) = 56 \<and> is_power_of_two (ucast (lh_alignment h))"
  by (auto simp: read_header_def header_size_def layout_error_def Let_def is_power_of_two_def
      not_less split: if_splits)

lemma read_header_null: "read_header None = Inl e \<longleftrightarrow>
    e = IncompatibleLayout ''shared layout pointer is null''"
  by (auto simp: read_header_def layout_error_def)

lemma validate_kind_ok_iff: "validate_kind k kind = Inr u \<longleftrightarrow> k = segment_kind_as_u16 kind"
  by (cases kind)
    (auto simp: validate_kind_def segment_kind_from_u16_def layout_error_def split: if_splits)

lemma validate_layout_ok_iff:
  "validate_layout_bytes (Some r) ps es cap pa kind = Inr c \<longleftrightarrow>
     (\<exists>h. read_header (Some r) = Inr h \<and> lh_kind h = segment_kind_as_u16 kind
          \<and> lh_payload_size h = ps \<and> lh_element_size h = es \<and> lh_capacity h = cap
          \<and> make_contract ps (max pa (ucast (lh_alignment h))) = Inr c
          \<and> unat (lc_total_size c) \<le> length r)"
proof (cases "read_header (Some r)")
  case (Inr h)
  have kind: "bind_result (validate_kind k kind) (\<lambda>_. f) = Inr c
      \<longleftrightarrow> k = segment_kind_as_u16 kind \<and> f = Inr c" for k and f :: "layout_contract mp_result"
    by (auto simp: bind_result_eq_Inr validate_kind_ok_iff)
  show ?thesis
    unfolding validate_layout_bytes_def Inr bind_result_simps kind
    by (cases "make_contract ps (max pa (ucast (lh_alignment h)))")
       (auto simp: layout_error_def Let_def)
qed (simp add: validate_layout_bytes_def)

definition effective_alignment :: "usize \<Rightarrow> usize" where
  "effective_alignment pa = max (max pa align_of_header) HEADER_ALIGNMENT_MIN"

lemma effective_alignment_max: "effective_alignment pa = max pa 8"
  by (simp add: effective_alignment_def align_of_header_def HEADER_ALIGNMENT_MIN_def)

lemma make_contract_ok_iff:
  "make_contract ps pa = Inr c \<longleftrightarrow>
     (\<exists>off. align_up 56 (effective_alignment pa) = Inr off \<and> unat ps + unat off \<le> usize_max
       \<and> c = \<lparr> lc_payload_offset = off, lc_total_size = ps + off \<rparr>)"
  by (auto simp: make_contract_def payload_offset_def bind_result_eq_Inr effective_alignment_def
      header_size_def checked_add_usize_def split: if_splits)

lemma power_of_two_dvd:
  assumes "is_power_of_two a" "is_power_of_two b" "a \<le> b"
  shows "unat a dvd unat b"
proof -
  obtain j k where "j < 64" "k < 64" "unat a = 2 ^ j" "unat b = 2 ^ k"
    using assms(1,2) by (auto simp: is_power_of_two_iff unat_power_of_two)
  moreover have "unat a \<le> unat b" using assms(3) by (simp add: word_le_nat_alt)
  ultimately show ?thesis by (simp add: le_imp_power_dvd)
qed

lemma unat_power_of_two_le: "is_power_of_two a \<Longrightarrow> unat a \<le> 2 ^ 63"
proof -
  assume "is_power_of_two a"
  then obtain k where "k < 64" "unat a = 2 ^ k"
    by (auto simp: is_power_of_two_iff unat_power_of_two)
  then show "unat a \<le> 2 ^ 63" using power_increasing [of k 63 "2::nat"] by simp
qed

lemma make_contract_bounds:
  assumes "make_contract ps pa = Inr c"
  shows "is_power_of_two (effective_alignment pa)"
    and "unat (effective_alignment pa) dvd unat (lc_payload_offset c)"
    and "56 \<le> unat (lc_payload_offset c)"
    and "unat (lc_total_size c) = unat ps + unat (lc_payload_offset c)"
proof -
  obtain off where off: "align_up 56 (effective_alignment pa) = Inr off"
      "unat ps + unat off \<le> usize_max" "c = \<lparr> lc_payload_offset = off, lc_total_size = ps + off \<rparr>"
    using assms by (auto simp: make_contract_ok_iff)
  show pow: "is_power_of_two (effective_alignment pa)"
    using off(1) by (auto simp: align_up_def split: if_splits)
  then have pos: "0 < unat (effective_alignment pa)"
    by (auto simp: is_power_of_two_iff unat_power_of_two)
  have "unat off = (56 + unat (effective_alignment pa) - 1) div unat (effective_alignment pa)
                     * unat (effective_alignment pa)"
    using align_up_value [OF pow, of 56] unat_power_of_two_le [OF pow] off(1)
    by (simp add: usize_max_def)
  then show "unat (effective_alignment pa) dvd unat (lc_payload_offset c)"
    and "56 \<le> unat (lc_payload_offset c)"
    using off(3) round_up_bounds(1) [OF pos, of 56] by simp_all
  show "unat (lc_total_size c) = unat ps + unat (lc_payload_offset c)"
    using off(2,3) by (simp add: unat_word_ariths usize_max_def)
qed

lemma make_layout_header_ok_iff:
  "make_layout_header ps es cap pa kind = Inr h \<longleftrightarrow>
     unat (effective_alignment pa) < 65536 \<and>
     (let h0 = \<lparr> lh_magic = LAYOUT_MAGIC, lh_version = CURRENT_LAYOUT_VERSION,
                 lh_kind = segment_kind_as_u16 kind, lh_header_size = 56,
                 lh_alignment = ucast (effective_alignment pa), lh_payload_size = ps,
                 lh_element_size = es, lh_capacity = cap, lh_reserved = 0, lh_checksum = 0,
                 lh_reserved2 = 0 \<rparr>
      in h = h0\<lparr>lh_checksum := checksum32 (bytes_of_header h0)\<rparr>)"
  by (auto simp: make_layout_header_def Let_def bind_result_eq_Inr u16_try_from_def header_size_def
      effective_alignment_def split: if_splits)

lemma ucast_u16_back:
  assumes "unat (a :: usize) < 65536"
  shows "(ucast (ucast a :: u16) :: usize) = a"
  using assms by (simp add: word_unat_eq_iff unsigned_ucast_eq unsigned_take_bit_eq take_bit_nat_eq_self)

lemma length_LAYOUT_MAGIC [simp]: "length LAYOUT_MAGIC = 8"
  by (simp add: LAYOUT_MAGIC_def)

lemma effective_alignment_idem:
  "effective_alignment (max pa (effective_alignment pa)) = effective_alignment pa"
  by (simp add: effective_alignment_max max.assoc max.left_commute)

lemma make_contract_effective:
  "make_contract ps (max pa (effective_alignment pa)) = make_contract ps pa"
  unfolding make_contract_def payload_offset_def effective_alignment_def [symmetric]
    effective_alignment_idem ..

section \<open>Properties of the header contract\<close>

lemma write_layout_reads_back:
  assumes "write_layout_bytes region ps es cap pa kind = Inr (c, region')"
  obtains h where "read_header (Some region') = Inr h" "lh_kind h = segment_kind_as_u16 kind"
    "lh_payload_size h = ps" "lh_element_size h = es" "lh_capacity h = cap"
    "(ucast (lh_alignment h) :: usize) = effective_alignment pa" "make_contract ps pa = Inr c"
    "unat (lc_total_size c) \<le> length region" "length region' = length region"
    "drop 56 region' = drop 56 region"
proof -
  obtain h where c: "make_contract ps pa = Inr c" and room: "unat (lc_total_size c) \<le> length region"
    and h: "make_layout_header ps es cap pa kind = Inr h"
    and region': "region' = bytes_of_header h @ drop (length (bytes_of_header h)) region"
    using assms by (auto simp: write_layout_bytes_def bind_result_eq_Inr Let_def not_less
        split: if_splits)
  note bounds = make_contract_bounds [OF c]
  have magic: "lh_magic h = LAYOUT_MAGIC" and fields: "lh_kind h = segment_kind_as_u16 kind"
      "lh_version h = CURRENT_LAYOUT_VERSION" "lh_header_size h = 56" "lh_payload_size h = ps"
      "lh_element_size h = es" "lh_capacity h = cap"
      and alignment: "(ucast (lh_alignment h) :: usize) = effective_alignment pa"
    using h ucast_u16_back by (auto simp: make_layout_header_ok_iff Let_def)
  have checked: "is_valid_checksum h"
    using h by (auto simp: make_layout_header_ok_iff Let_def is_valid_checksum_def)
  have long: "56 \<le> length region" using room bounds(3,4) by linarith
  have read: "header_of_bytes region' = h"
    unfolding region' by (rule header_of_bytes_of_header) (simp add: magic)
  have "length region' = length region" "drop 56 region' = drop 56 region"
    using long by (simp_all add: region' magic)
  moreover from this have "read_header (Some region') = Inr h"
    using long magic fields checked alignment bounds(1) by (simp add: read_header_ok_iff read)
  ultimately show ?thesis using that c room fields alignment by blast
qed

lemma write_layout_validates:
  assumes "write_layout_bytes region ps es cap pa kind = Inr (c, region')"
  shows "validate_layout_bytes (Some region') ps es cap pa kind = Inr c"
    and "length region' = length region" and "drop 56 region' = drop 56 region"
proof -
  from write_layout_reads_back [OF assms] obtain h where h:
    "read_header (Some region') = Inr h" "lh_kind h = segment_kind_as_u16 kind"
    "lh_payload_size h = ps" "lh_element_size h = es" "lh_capacity h = cap"
    "(ucast (lh_alignment h) :: usize) = effective_alignment pa" "make_contract ps pa = Inr c"
    "unat (lc_total_size c) \<le> length region" "length region' = length region"
    "drop 56 region' = drop 56 region" .
  then show "validate_layout_bytes (Some region') ps es cap pa kind = Inr c"
    by (simp add: validate_layout_ok_iff make_contract_effective)
  show "length region' = length region" "drop 56 region' = drop 56 region"
    by (rule h(9), rule h(10))
qed

text \<open>C23. Round trip of the segment header. Whatever \<open>write_layout\<close> stores, \<open>validate_layout\<close> with the same
  parameters accepts, with the same contract; only the first 56 bytes of the region change.\<close>

theorem write_then_validate:
  assumes "write_layout_bytes region ps es cap pa kind = Inr (c, region')"
  shows "validate_layout_bytes (Some region') ps es cap pa kind = Inr c
         \<and> length region' = length region \<and> drop 56 region' = drop 56 region"
  using write_layout_validates [OF assms] by simp

theorem write_then_validate_witness:
  "\<exists>c region'. write_layout_bytes (replicate 128 0) 64 8 8 8 RingBuffer = Inr (c, region')
     \<and> validate_layout_bytes (Some region') 64 8 8 8 RingBuffer = Inr c
     \<and> lc_payload_offset c = 56 \<and> lc_total_size c = 120"
proof -
  let ?w = "write_layout_bytes (replicate 128 0) 64 8 8 8 RingBuffer"
  have "\<exists>c region'. ?w = Inr (c, region') \<and> lc_payload_offset c = 56 \<and> lc_total_size c = 120"
    by (simp add: write_layout_bytes_def make_contract_def payload_offset_def align_up_def
        header_size_def align_of_header_def HEADER_ALIGNMENT_MIN_def is_power_of_two_def
        checked_add_usize_def usize_max_def make_layout_header_def u16_try_from_def Let_def)
  then show ?thesis using write_then_validate by blast
qed

text \<open>C24. Soundness of validation. A region that \<open>validate_layout\<close> accepts carries the expected kind,
  sizes and capacity, and the payload it grants lies behind the header, inside the region
  and aligned to the requested alignment.\<close>

theorem validate_layout_sound:
  assumes "validate_layout_bytes (Some region) ps es cap pa kind = Inr c"
    and "is_power_of_two pa"
  shows "\<exists>h. read_header (Some region) = Inr h \<and> lh_kind h = segment_kind_as_u16 kind
           \<and> lh_payload_size h = ps \<and> lh_element_size h = es \<and> lh_capacity h = cap
           \<and> header_size \<le> unat (lc_payload_offset c)
           \<and> unat pa dvd unat (lc_payload_offset c)
           \<and> unat (lc_payload_offset c) + unat ps \<le> length region"
proof -
  obtain h where h: "read_header (Some region) = Inr h" "lh_kind h = segment_kind_as_u16 kind"
      "lh_payload_size h = ps" "lh_element_size h = es" "lh_capacity h = cap"
      "make_contract ps (max pa (ucast (lh_alignment h))) = Inr c"
      "unat (lc_total_size c) \<le> length region"
    using assms(1) by (auto simp: validate_layout_ok_iff)
  note bounds = make_contract_bounds [OF h(6)]
  have "pa \<le> effective_alignment (max pa (ucast (lh_alignment h)))"
    by (simp add: effective_alignment_max le_max_iff_disj)
  then have "unat pa dvd unat (lc_payload_offset c)"
    using power_of_two_dvd [OF assms(2) bounds(1)] bounds(2) dvd_trans by blast
  then show ?thesis
    using h bounds(3,4) by (intro exI [of _ h]) (simp add: header_size_def)
qed

text \<open>A concrete segment: a ring of eight 8-byte elements.\<close>

definition example_segment :: "u8 list" where
  "example_segment =
     [68, 83, 77, 80, 84, 86, 48, 49, 1, 0, 1, 0, 56, 0, 8, 0, 64, 0, 0, 0, 0, 0, 0, 0, 8,
      0, 0, 0, 0, 0, 0, 0, 8, 0, 0, 0, 0, 0, 0, 0, 0, 0, 0, 0, 0, 0, 0, 0, 108, 215, 214,
      43, 0, 0, 0, 0] @ replicate 64 0"

lemma example_segment_checksum: "is_valid_checksum (header_of_bytes example_segment)"
proof -
  have "56 \<le> length example_segment" by (simp add: example_segment_def)
  from is_valid_checksum_bytes [OF this] show ?thesis
    by (simp add: example_segment_def checksum32_def fnv_step_def)
qed

lemma example_segment_fields:
  "length example_segment = 120"
  "lh_magic (header_of_bytes example_segment) = LAYOUT_MAGIC"
  "lh_version (header_of_bytes example_segment) = 1"
  "lh_kind (header_of_bytes example_segment) = 1"
  "lh_header_size (header_of_bytes example_segment) = 56"
  "lh_alignment (header_of_bytes example_segment) = 8"
  "lh_payload_size (header_of_bytes example_segment) = 64"
  "lh_element_size (header_of_bytes example_segment) = 8"
  "lh_capacity (header_of_bytes example_segment) = 8"
  by (simp_all add: header_of_bytes_def example_segment_def field_at_def LAYOUT_MAGIC_def)

lemma example_segment_header:
  "read_header (Some example_segment) = Inr (header_of_bytes example_segment)"
  by (simp add: read_header_ok_iff CURRENT_LAYOUT_VERSION_def is_power_of_two_def
      example_segment_fields example_segment_checksum)

lemma example_segment_valid:
  "validate_layout_bytes (Some example_segment) 64 8 8 8 RingBuffer
     = Inr \<lparr> lc_payload_offset = 56, lc_total_size = 120 \<rparr>"
proof -
  have "make_contract 64 8 = Inr \<lparr> lc_payload_offset = 56, lc_total_size = 120 \<rparr>"
    by (simp add: make_contract_ok_iff effective_alignment_max align_up_def is_power_of_two_def
        usize_max_def)
  then show ?thesis
    by (simp add: validate_layout_ok_iff example_segment_header example_segment_fields)
qed

theorem validate_layout_sound_witness:
  "unat (8 :: usize) dvd 56 \<and>
   (\<exists>h. read_header (Some example_segment) = Inr h \<and> lh_capacity h = 8)"
proof -
  have "is_power_of_two 8" by (simp add: is_power_of_two_def)
  from validate_layout_sound [OF example_segment_valid this] show ?thesis by auto
qed

text \<open>C25. Corruption of a header. Changing any single byte of a valid header makes every later
  validation of the segment fail, whatever the caller expects of it.\<close>

theorem corrupted_header_rejected:
  assumes "read_header (Some region) = Inr h" "i < header_size" "b \<noteq> region ! i"
  shows "\<exists>e. validate_layout_bytes (Some (region[i := b])) ps es cap pa kind = Inl e"
proof (cases "validate_layout_bytes (Some (region[i := b])) ps es cap pa kind")
  case (Inr c)
  then obtain h' where "read_header (Some (region[i := b])) = Inr h'"
    by (auto simp: validate_layout_ok_iff)
  then have "is_valid_checksum (header_of_bytes (region[i := b]))"
    by (auto simp: read_header_ok_iff)
  moreover have "56 \<le> length region" "is_valid_checksum (header_of_bytes region)"
    using assms(1) by (auto simp: read_header_ok_iff)
  ultimately show ?thesis
    using checksum_detects_update [of region i b] assms(2,3) by (simp add: header_size_def)
qed auto

theorem corrupted_header_rejected_witness:
  "\<exists>e. validate_layout_bytes (Some (example_segment[32 := 9])) 64 8 9 8 RingBuffer = Inl e"
  by (rule corrupted_header_rejected [OF example_segment_header])
    (simp_all add: header_size_def example_segment_def)

end
