(* ===== verification/RingBuffers.thy ===== *)
theory RingBuffers
  imports Layout
begin

text \<open>
  The ring buffers of both backends: \<open>disruptor-mp/src/backend/shared_memory/ringbuffer.rs\<close>
  and \<open>backend/mmap/ringbuffer.rs\<close>. Construction runs at the byte level over the segments of
  the operating system, which is a parameter (a record of the operations the code calls);
  slot arithmetic is that of the source, on 64-bit words.
\<close>

section \<open>The segments of the operating system\<close>

text \<open>What the crate uses of \<open>shared_memory\<close> and \<open>libc\<close>: create a segment of a size under a
  name (\<open>None\<close> lets the library choose one), open a name, unlink a name, and the bytes of a
  mapping; dropping a mapping, which unlinks the name when the mapping owns it. Errors are the rendered texts of the library's error values.\<close>

record 's shm_os =
  os_create :: "'s \<Rightarrow> string option \<Rightarrow> nat \<Rightarrow> (string + nat \<times> string) \<times> 's"
  os_open :: "'s \<Rightarrow> string \<Rightarrow> string + nat"
  os_unlink :: "'s \<Rightarrow> string \<Rightarrow> 's"
  os_bytes :: "'s \<Rightarrow> nat \<Rightarrow> u8 list"
  os_write :: "'s \<Rightarrow> nat \<Rightarrow> u8 list \<Rightarrow> 's"
  os_drop :: "'s \<Rightarrow> nat \<Rightarrow> bool \<Rightarrow> 's"

text \<open>The documented behaviour the construction code relies on: a created segment is at least
  as long as requested and can be opened under its name, until the name is unlinked; a
  mapping reads back what was stored through any mapping of the segment, and stores do not
  touch the name table.\<close>

definition shm_create_opens :: "'s shm_os \<Rightarrow> bool" where
  "shm_create_opens os \<longleftrightarrow>
     (\<forall>s n size i nm s'. os_create os s n size = (Inr (i, nm), s') \<longrightarrow>
        (\<forall>name. n = Some name \<longrightarrow> nm = name) \<and> os_open os s' nm = Inr i
        \<and> size \<le> length (os_bytes os s' i))"

definition shm_write_reads :: "'s shm_os \<Rightarrow> bool" where
  "shm_write_reads os \<longleftrightarrow>
     (\<forall>s i bs. length bs = length (os_bytes os s i) \<longrightarrow>
        os_bytes os (os_write os s i bs) i = bs
        \<and> (\<forall>nm. os_open os (os_write os s i bs) nm = os_open os s nm))"

lemma shm_create_opensD:
  assumes "shm_create_opens os" "os_create os s (Some name) n = (Inr (i, nm), s')"
  shows "nm = name \<and> os_open os s' name = Inr i \<and> n \<le> length (os_bytes os s' i)"
  using assms unfolding shm_create_opens_def by metis

text \<open>A store into the middle of a region.\<close>

definition write_at :: "nat \<Rightarrow> 'a list \<Rightarrow> 'a list \<Rightarrow> 'a list" where
  "write_at k bs region = take k region @ bs @ drop (k + length bs) region"

definition read_at :: "nat \<Rightarrow> nat \<Rightarrow> 'a list \<Rightarrow> 'a list" where
  "read_at k n region = take n (drop k region)"

lemma length_write_at [simp]:
  "k + length bs \<le> length region \<Longrightarrow> length (write_at k bs region) = length region"
  by (simp add: write_at_def)

lemma read_write_same [simp]:
  "k + length bs \<le> length region \<Longrightarrow> read_at k (length bs) (write_at k bs region) = bs"
  by (simp add: read_at_def write_at_def)

lemma read_write_below:
  assumes "j + n \<le> k" "k + length bs \<le> length region"
  shows "read_at j n (write_at k bs region) = read_at j n region"
proof -
  have "drop j (write_at k bs region) = drop j (take k region) @ bs @ drop (k + length bs) region"
    using assms by (simp add: write_at_def)
  moreover have "n \<le> length (drop j (take k region))" using assms by simp
  ultimately have "read_at j n (write_at k bs region) = take n (drop j (take k region))"
    by (simp add: read_at_def)
  also have "\<dots> = take n (drop j region)" using assms by (simp add: drop_take min_absorb1)
  finally show ?thesis by (simp add: read_at_def)
qed

lemma read_write_above:
  assumes "k + length bs \<le> j" "k + length bs \<le> length region"
  shows "read_at j n (write_at k bs region) = read_at j n region"
  using assms by (simp add: read_at_def write_at_def)

section \<open>Ring arithmetic\<close>

record ring =
  rb_segment :: nat
  rb_slots_offset :: usize
  rb_index_mask :: int
  rb_size :: usize
  rb_is_owner :: bool

definition is_pow_of_2 :: "usize \<Rightarrow> bool" where
  "is_pow_of_2 num \<longleftrightarrow> num \<noteq> 0 \<and> num AND (num - 1) = 0"

lemma unat_mult_no_wrap:
  "unat (a :: usize) * unat b \<le> usize_max \<Longrightarrow> unat (a * b) = unat a * unat b"
  by (simp add: unat_word_ariths usize_max_def)

text \<open>\<open>as i64\<close> of a \<open>usize\<close>.\<close>

definition usize_as_i64 :: "usize \<Rightarrow> int" where
  "usize_as_i64 x = sint x"

definition wrap_point :: "ring \<Rightarrow> int \<Rightarrow> int" where
  "wrap_point r sequence = wrap_i64 (sequence - usize_as_i64 (rb_size r))"

definition free_slots :: "ring \<Rightarrow> int \<Rightarrow> int \<Rightarrow> int" where
  "free_slots r producer highest_read = wrap_i64 (highest_read - wrap_point r producer)"

text \<open>The slot of a sequence number; \<open>None\<close> is the panic on a negative one.\<close>

definition ring_index :: "ring \<Rightarrow> int \<Rightarrow> usize option" where
  "ring_index r sequence =
     (if \<not> 0 \<le> sequence \<or> rb_index_mask r < 0 then None
      else Some (word_of_int sequence AND word_of_int (rb_index_mask r)))"

text \<open>\<open>get\<close>: the byte offset of the element in the segment.\<close>

definition ring_get :: "ring \<Rightarrow> usize \<Rightarrow> int \<Rightarrow> usize option" where
  "ring_get r element_size sequence =
     map_option (\<lambda>index. rb_slots_offset r + index * element_size) (ring_index r sequence)"

text \<open>A ring as every constructor leaves it.\<close>

definition ring_wf :: "ring \<Rightarrow> bool" where
  "ring_wf r \<longleftrightarrow> is_pow_of_2 (rb_size r) \<and> rb_index_mask r = usize_as_i64 (rb_size r - 1)"

section \<open>Construction over shared memory\<close>

definition validate_event_config :: "string \<Rightarrow> usize \<Rightarrow> usize \<Rightarrow> unit mp_result" where
  "validate_event_config name expected configured =
     (if expected \<noteq> configured
      then layout_error (name @ '' event element size mismatch: expected '' @ show_nat (unat expected)
                         @ '', configured '' @ show_nat (unat configured))
      else Inr ())"

definition checked_mul_usize :: "usize \<Rightarrow> usize \<Rightarrow> usize option" where
  "checked_mul_usize a b = (if unat a * unat b \<le> usize_max then Some (a * b) else None)"

text \<open>The loop \<open>for i in 0..size\<close> that writes the factory's \<open>i\<close>-th event into slot \<open>i\<close>.\<close>

primrec init_slots :: "nat \<Rightarrow> nat \<Rightarrow> (nat \<Rightarrow> u8 list) \<Rightarrow> nat \<Rightarrow> u8 list \<Rightarrow> u8 list" where
  "init_slots offset element_size factory 0 region = region"
| "init_slots offset element_size factory (Suc n) region =
     write_at (offset + n * element_size) (factory n) (init_slots offset element_size factory n region)"

text \<open>The element type: its size and alignment.\<close>

record element_type =
  et_size :: usize
  et_align :: usize

text \<open>The \<open>Drop\<close> of a ring leaves the clean-up to its mapping.\<close>

definition ring_drop :: "'s shm_os \<Rightarrow> 's \<Rightarrow> ring \<Rightarrow> 's" where
  "ring_drop os s r = os_drop os s (rb_segment r) (rb_is_owner r)"

definition make_ring :: "nat \<Rightarrow> usize \<Rightarrow> usize \<Rightarrow> bool \<Rightarrow> ring" where
  "make_ring seg offset n owner =
     \<lparr> rb_segment = seg, rb_slots_offset = offset, rb_index_mask = usize_as_i64 (n - 1),
       rb_size = n, rb_is_owner = owner \<rparr>"

definition size_error :: "mp_error" where
  "size_error = IncompatibleLayout ''ring buffer size must be power-of-two''"

text \<open>Create a segment, write its header and fill its slots: the creating half of \<open>new\<close> and
  \<open>new_auto\<close>.\<close>

definition ring_create ::
  "'s shm_os \<Rightarrow> 's \<Rightarrow> string option \<Rightarrow> element_type \<Rightarrow> usize \<Rightarrow> usize \<Rightarrow> (nat \<Rightarrow> u8 list)
    \<Rightarrow> (ring \<times> string) mp_result \<times> 's" where
  "ring_create os s name et cap payload_size factory =
     (case required_layout_size payload_size (et_align et) of
        Inl e \<Rightarrow> (Inl e, s)
      | Inr required \<Rightarrow>
          (case os_create os s name (unat required) of
             (Inl e, s1) \<Rightarrow> (Inl (SharedMemoryError e), s1)
           | (Inr (seg, generated), s1) \<Rightarrow>
               (case write_layout_bytes (os_bytes os s1 seg) payload_size (et_size et) cap
                       (et_align et) RingBuffer of
                  Inl e \<Rightarrow> (Inl e, os_drop os s1 seg True)
                | Inr (contract, region) \<Rightarrow>
                    (Inr (make_ring seg (lc_payload_offset contract) cap True, generated),
                     os_write os s1 seg
                       (init_slots (unat (lc_payload_offset contract)) (unat (et_size et)) factory
                          (unat cap) region)))))"

text \<open>Open a segment and check its header: the attaching half of \<open>new\<close>, and \<open>attach\<close>.\<close>

definition ring_open ::
  "'s shm_os \<Rightarrow> 's \<Rightarrow> string \<Rightarrow> element_type \<Rightarrow> usize \<Rightarrow> usize \<Rightarrow> ring mp_result" where
  "ring_open os s name et cap payload_size =
     (case os_open os s name of
        Inl e \<Rightarrow> Inl (SegmentNotFound e)
      | Inr seg \<Rightarrow>
          bind_result (validate_layout_bytes (Some (os_bytes os s seg)) payload_size (et_size et)
                         cap (et_align et) RingBuffer)
            (\<lambda>contract. Inr (make_ring seg (lc_payload_offset contract) cap False)))"

text \<open>\<open>new_auto\<close>: \<open>None\<close> is the failed assertion on the cap.\<close>

definition ring_new_auto ::
  "'s shm_os \<Rightarrow> 's \<Rightarrow> element_type \<Rightarrow> usize \<Rightarrow> (nat \<Rightarrow> u8 list)
    \<Rightarrow> ((ring \<times> string) mp_result \<times> 's) option" where
  "ring_new_auto os s et buffer_size factory =
     (if \<not> 0 < buffer_size then None
      else if \<not> is_pow_of_2 buffer_size then Some (Inl size_error, s)
      else
        (case checked_mul_usize (et_size et) buffer_size of
           None \<Rightarrow> Some (Inl (SharedMemoryError ''shared memory size overflow''), s)
         | Some payload_size \<Rightarrow> Some (ring_create os s None et buffer_size payload_size factory)))"

definition ring_new ::
  "'s shm_os \<Rightarrow> 's \<Rightarrow> element_type \<Rightarrow> shared_memory_config \<Rightarrow> (nat \<Rightarrow> u8 list)
    \<Rightarrow> (ring mp_result \<times> 's) option" where
  "ring_new os s et config factory =
     (let cap = of_nat (smc_buffer_size config) :: usize in
      if smc_name config = [] then None
      else if \<not> 0 < cap then None
      else if \<not> is_pow_of_2 cap then Some (Inl size_error, s)
      else
        (case validate_event_config ''ring'' (et_size et) (of_nat (smc_element_size config)) of
           Inl e \<Rightarrow> Some (Inl e, s)
         | Inr _ \<Rightarrow>
             (case checked_mul_usize (et_size et) cap of
                None \<Rightarrow> Some (Inl (SharedMemoryError ''shared memory size overflow''), s)
              | Some payload_size \<Rightarrow>
                  if smc_create config
                  then (case ring_create os s (Some (smc_name config)) et cap payload_size factory of
                          (Inl e, s1) \<Rightarrow> Some (Inl e, s1)
                        | (Inr (r, _), s1) \<Rightarrow> Some (Inr r, s1))
                  else Some (ring_open os s (smc_name config) et cap payload_size, s))))"

definition ring_attach ::
  "'s shm_os \<Rightarrow> 's \<Rightarrow> element_type \<Rightarrow> shared_memory_config \<Rightarrow> ring mp_result option" where
  "ring_attach os s et config =
     (let cap = of_nat (smc_buffer_size config) :: usize in
      if smc_name config = [] then None
      else if \<not> 0 < cap then None
      else if \<not> is_pow_of_2 cap then Some (Inl size_error)
      else
        Some (bind_result (validate_event_config ''ring'' (et_size et)
                             (of_nat (smc_element_size config))) (\<lambda>_.
              bind_result (ok_or (SharedMemoryError ''shared memory size overflow'')
                             (checked_mul_usize (et_size et) cap)) (\<lambda>payload_size.
                ring_open os s (smc_name config) et cap payload_size))))"

text \<open>\<open>recreate\<close>: the assertion makes the second test on \<open>create\<close> unreachable.\<close>

definition ring_recreate ::
  "'s shm_os \<Rightarrow> 's \<Rightarrow> element_type \<Rightarrow> shared_memory_config \<Rightarrow> (nat \<Rightarrow> u8 list)
    \<Rightarrow> (ring mp_result \<times> 's) option" where
  "ring_recreate os s et config factory =
     (if \<not> smc_create config then None
      else
        (case validate_event_config ''ring'' (et_size et) (of_nat (smc_element_size config)) of
           Inl e \<Rightarrow> Some (Inl e, s)
         | Inr _ \<Rightarrow> ring_new os (os_unlink os s (smc_name config)) et config factory))"

section \<open>Construction over a file mapping\<close>

text \<open>What the mmap backend uses of \<open>std::fs\<close> and \<open>memmap2\<close>: create the parent directories,
  open a file (creating and truncating it, or an existing one), set its length, map it, and
  the bytes of the mapping.\<close>

record 's mmap_fs =
  fs_create_dir_all :: "'s \<Rightarrow> path \<Rightarrow> (string + unit) \<times> 's"
  fs_create_truncate :: "'s \<Rightarrow> path \<Rightarrow> (string + nat) \<times> 's"
  fs_set_len :: "'s \<Rightarrow> nat \<Rightarrow> nat \<Rightarrow> (string + unit) \<times> 's"
  fs_open :: "'s \<Rightarrow> path \<Rightarrow> string + nat"
  fs_exists :: "'s \<Rightarrow> path \<Rightarrow> bool"
  fs_map :: "'s \<Rightarrow> nat \<Rightarrow> string + unit"
  fs_bytes :: "'s \<Rightarrow> nat \<Rightarrow> u8 list"
  fs_store :: "'s \<Rightarrow> nat \<Rightarrow> u8 list \<Rightarrow> 's"

definition ensure_parent_dir :: "'s mmap_fs \<Rightarrow> 's \<Rightarrow> path \<Rightarrow> unit mp_result \<times> 's" where
  "ensure_parent_dir fs s p =
     (case path_parent p of
        None \<Rightarrow> (Inr (), s)
      | Some parent \<Rightarrow>
          if path_is_empty parent then (Inr (), s)
          else (case fs_create_dir_all fs s parent of
                  (Inl e, s1) \<Rightarrow> (Inl (SharedMemoryError e), s1)
                | (Inr _, s1) \<Rightarrow> (Inr (), s1)))"

text \<open>Open the file of a segment: created, truncated and grown to the required size, or an
  existing one; then map it.\<close>

definition mmap_open_segment ::
  "'s mmap_fs \<Rightarrow> 's \<Rightarrow> path \<Rightarrow> bool \<Rightarrow> usize mp_result \<Rightarrow> nat mp_result \<times> 's" where
  "mmap_open_segment fs s p create required_size =
     (let opened =
        (if create then
           (case required_size of
              Inl e \<Rightarrow> (Inl e, s)
            | Inr n \<Rightarrow>
                (case fs_create_truncate fs s p of
                   (Inl e, s1) \<Rightarrow> (Inl (SharedMemoryError e), s1)
                 | (Inr file, s1) \<Rightarrow>
                     (case fs_set_len fs s1 file (unat n) of
                        (Inl e, s2) \<Rightarrow> (Inl (SharedMemoryError e), s2)
                      | (Inr _, s2) \<Rightarrow> (Inr file, s2))))
         else
           (case fs_open fs s p of
              Inl e \<Rightarrow> (Inl (SegmentNotFound e), s)
            | Inr file \<Rightarrow> (Inr file, s)))
      in case opened of
           (Inl e, s1) \<Rightarrow> (Inl e, s1)
         | (Inr file, s1) \<Rightarrow>
             (case fs_map fs s1 file of
                Inl e \<Rightarrow> (Inl (MemoryMapError e), s1)
              | Inr _ \<Rightarrow> (Inr file, s1)))"

record mmap_ring =
  mrb_ring :: ring
  mrb_path :: path

definition mmap_validate_event_config :: "usize \<Rightarrow> usize \<Rightarrow> unit mp_result" where
  "mmap_validate_event_config expected configured =
     (if expected \<noteq> configured
      then layout_error (''mmap event element size mismatch: expected '' @ show_nat (unat expected)
                         @ '', configured '' @ show_nat (unat configured))
      else Inr ())"

definition mmap_ring_new ::
  "'s mmap_fs \<Rightarrow> 's \<Rightarrow> element_type \<Rightarrow> mmap_file_config \<Rightarrow> (nat \<Rightarrow> u8 list)
    \<Rightarrow> (mmap_ring mp_result \<times> 's) option" where
  "mmap_ring_new fs s et config factory =
     (let cap = of_nat (mfc_buffer_size config) :: usize; create = mfc_create config in
      if path_is_empty (mfc_path config) then None
      else if \<not> 0 < cap then None
      else if \<not> is_pow_of_2 cap then Some (Inl size_error, s)
      else
        (case mmap_validate_event_config (et_size et) (of_nat (mfc_element_size config)) of
           Inl e \<Rightarrow> Some (Inl e, s)
         | Inr _ \<Rightarrow>
             (case checked_mul_usize (et_size et) cap of
                None \<Rightarrow> Some (Inl (SharedMemoryError ''mmap layout size overflow''), s)
              | Some payload_size \<Rightarrow>
                  (case ensure_parent_dir fs s (mfc_path config) of
                     (Inl e, s1) \<Rightarrow> Some (Inl e, s1)
                   | (Inr _, s1) \<Rightarrow>
                       (case mmap_open_segment fs s1 (mfc_path config) create
                               (required_layout_size payload_size (et_align et)) of
                          (Inl e, s2) \<Rightarrow> Some (Inl e, s2)
                        | (Inr file, s2) \<Rightarrow>
                            if create then
                              (case write_layout_bytes (fs_bytes fs s2 file) payload_size
                                      (et_size et) cap (et_align et) RingBuffer of
                                 Inl e \<Rightarrow> Some (Inl e, s2)
                               | Inr (contract, region) \<Rightarrow>
                                   Some (Inr \<lparr> mrb_ring = make_ring file (lc_payload_offset contract) cap True,
                                               mrb_path = mfc_path config \<rparr>,
                                         fs_store fs s2 file
                                           (init_slots (unat (lc_payload_offset contract))
                                              (unat (et_size et)) factory (unat cap) region)))
                            else
                              (case validate_layout_bytes (Some (fs_bytes fs s2 file)) payload_size
                                      (et_size et) cap (et_align et) RingBuffer of
                                 Inl e \<Rightarrow> Some (Inl e, s2)
                               | Inr contract \<Rightarrow>
                                   Some (Inr \<lparr> mrb_ring = make_ring file (lc_payload_offset contract) cap False,
                                               mrb_path = mfc_path config \<rparr>, s2)))))))"

text \<open>\<open>attach\<close> insists on \<open>create = false\<close>; the default events are never written.\<close>

definition mmap_ring_attach ::
  "'s mmap_fs \<Rightarrow> 's \<Rightarrow> element_type \<Rightarrow> mmap_file_config \<Rightarrow> (nat \<Rightarrow> u8 list)
    \<Rightarrow> (mmap_ring mp_result \<times> 's) option" where
  "mmap_ring_attach fs s et config default_event =
     (if mfc_create config then None else mmap_ring_new fs s et config default_event)"

section \<open>Facts about slots\<close>

lemma is_pow_of_2_eq [simp]: "is_pow_of_2 x \<longleftrightarrow> is_power_of_two x"
  by (simp add: is_pow_of_2_def is_power_of_two_def)

lemma sint_of_small:
  fixes x :: usize
  assumes "unat x < 2 ^ 63"
  shows "sint x = int (unat x)"
proof -
  have "sint x = signed_take_bit (LENGTH(64) - 1) (uint x)"
    by transfer (simp add: signed_take_bit_take_bit)
  also have "\<dots> = signed_take_bit 63 (int (unat x))" by simp
  also have "\<dots> = int (unat x)"
  proof (rule signed_take_bit_int_eq_self)
    show "- (2 ^ 63) \<le> int (unat x)" by (rule order_trans [of _ 0]) simp_all
    show "int (unat x) < 2 ^ 63" using assms by (simp only: of_nat_less_numeral_power_cancel_iff)
  qed
  finally show ?thesis .
qed

lemma size_minus_one:
  assumes "k < 64"
  shows "unat (2 ^ k - 1 :: usize) = 2 ^ k - 1"
proof -
  have "(2 ^ k :: usize) \<noteq> 0"
    using unat_power_of_two [OF assms] by (metis unsigned_0 power_not_zero zero_neq_numeral)
  then show ?thesis using unat_minus_one unat_power_of_two [OF assms] by metis
qed

lemma mask_of_size:
  assumes "k < 64"
  shows "usize_as_i64 (2 ^ k - 1) = 2 ^ k - 1"
proof -
  have "(2::nat) ^ k \<le> 2 ^ 63" using assms by (intro power_increasing) auto
  then have "unat (2 ^ k - 1 :: usize) < 2 ^ 63"
    unfolding size_minus_one [OF assms] by simp
  then show ?thesis
    using size_minus_one [OF assms] by (simp add: usize_as_i64_def sint_of_small of_nat_diff)
qed

lemma ring_index_value:
  assumes "ring_wf r" "0 \<le> sequence" "sequence \<le> i64_max"
  shows "ring_index r sequence = Some (of_nat (nat sequence mod unat (rb_size r)))"
proof -
  obtain k where k: "k < 64" "rb_size r = 2 ^ k" "rb_index_mask r = 2 ^ k - 1"
    using assms(1) by (auto simp: ring_wf_def is_power_of_two_iff mask_of_size)
  have "word_of_int sequence AND word_of_int (2 ^ k - 1) = (of_int sequence AND mask k :: usize)"
    by (simp add: mask_eq_exp_minus_1)
  also have "\<dots> = take_bit k (of_int sequence)" by (simp add: take_bit_eq_mask)
  also have "\<dots> = of_nat (nat sequence mod 2 ^ k)"
  proof -
    have "unat (take_bit k (of_nat n :: usize)) = unat (of_nat (n mod 2 ^ k) :: usize)" for n
      using k(1) by (simp add: unsigned_take_bit_eq unsigned_of_nat min_def flip: take_bit_eq_mod)
    then have "take_bit k (of_nat n :: usize) = of_nat (n mod 2 ^ k)" for n
      by (simp only: word_unat_eq_iff)
    moreover have "(of_int sequence :: usize) = of_nat (nat sequence)" using assms(2) by simp
    ultimately show ?thesis by (simp only:)
  qed
  finally have "word_of_int sequence AND word_of_int (rb_index_mask r)
      = (of_nat (nat sequence mod unat (rb_size r)) :: usize)"
    using k by (simp add: unat_power_of_two)
  moreover have "0 \<le> rb_index_mask r" unfolding k(3) by simp
  ultimately show ?thesis using assms by (simp add: ring_index_def)
qed

lemma ring_wf_size_pos: "ring_wf r \<Longrightarrow> 0 < unat (rb_size r)"
  by (auto simp: ring_wf_def is_power_of_two_iff unat_power_of_two)

lemma unat_mod_size:
  assumes "0 < unat (n :: usize)"
  shows "unat (of_nat (m mod unat n) :: usize) = m mod unat n"
proof -
  have "m mod unat n < unat n" using assms by simp
  also have "\<dots> < 2 ^ 64" using unat_less_exp [of n] by simp
  finally show ?thesis by (simp add: unat_of_nat)
qed

text \<open>C26. Slot addressing. The masked index of a sequence number is its remainder by the ring
  size, so the sequence numbers of a window of that many events occupy pairwise different
  slots and a full turn leads back to the same slot.\<close>

theorem ring_window_slots:
  assumes "ring_wf r" "0 \<le> a" "a < b" "b \<le> i64_max"
  shows "\<exists>i j. ring_index r a = Some i \<and> ring_index r b = Some j
           \<and> unat i = nat a mod unat (rb_size r) \<and> unat j = nat b mod unat (rb_size r)
           \<and> (i = j \<longleftrightarrow> int (unat (rb_size r)) dvd b - a)
           \<and> (b - a < int (unat (rb_size r)) \<longrightarrow> i \<noteq> j)"
proof -
  let ?n = "unat (rb_size r)"
  have pos: "0 < ?n" using ring_wf_size_pos [OF assms(1)] .
  have "a mod int ?n = b mod int ?n \<longleftrightarrow> int ?n dvd b - a"
    by (metis mod_eq_dvd_iff dvd_diff_commute)
  moreover have "int (nat a mod ?n) = a mod int ?n" "int (nat b mod ?n) = b mod int ?n"
    using assms(2,3) by (simp_all only: of_nat_mod nat_0_le order_less_imp_le order_trans)
  ultimately have same: "nat a mod ?n = nat b mod ?n \<longleftrightarrow> int ?n dvd b - a"
    by (metis of_nat_eq_iff)
  define I J :: usize where "I = of_nat (nat a mod ?n)" and "J = of_nat (nat b mod ?n)"
  have unat: "unat I = nat a mod ?n" "unat J = nat b mod ?n"
    using pos by (simp_all only: I_def J_def unat_mod_size)
  then have iff: "I = J \<longleftrightarrow> int ?n dvd b - a" using same by (simp only: word_unat_eq_iff)
  have far: "b - a < int ?n \<longrightarrow> I \<noteq> J"
    unfolding iff using assms(3) by (auto dest: zdvd_imp_le)
  have "ring_index r a = Some I" "ring_index r b = Some J"
    using assms by (simp_all add: ring_index_value I_def J_def)
  with unat iff far show ?thesis by blast
qed

theorem ring_window_slots_witness:
  "\<exists>i j. ring_index (make_ring 0 56 8 True) 7 = Some i
     \<and> ring_index (make_ring 0 56 8 True) 14 = Some j \<and> i \<noteq> j"
proof -
  have "ring_wf (make_ring 0 56 8 True)"
    using mask_of_size [of 3] by (simp add: ring_wf_def make_ring_def is_power_of_two_def)
  from ring_window_slots [OF this, of 7 14] show ?thesis
    by (auto simp: i64_max_def make_ring_def)
qed

lemma free_slots_value:
  assumes "unat (rb_size r) < 2 ^ 63"
    and "in_i64 (producer - int (unat (rb_size r)))"
    and "in_i64 (highest_read - producer + int (unat (rb_size r)))"
  shows "free_slots r producer highest_read = highest_read - producer + int (unat (rb_size r))"
proof -
  define n where "n = int (unat (rb_size r))"
  have "wrap_point r producer = producer - n"
    using assms(2) sint_of_small [OF assms(1)]
    unfolding wrap_point_def usize_as_i64_def n_def [symmetric] by simp
  then show ?thesis
    using assms(3) unfolding free_slots_def n_def [symmetric]
    by (simp add: diff_diff_eq2 diff_add_eq)
qed

section \<open>Facts about construction\<close>

lemma header_of_bytes_take: "header_of_bytes (take 56 bs) = header_of_bytes bs"
  by (simp add: header_of_bytes_def field_at_def drop_take min_def)

lemma validate_layout_depends:
  assumes "length r = length r'" "take 56 r = take 56 r'"
  shows "validate_layout_bytes (Some r) ps es cap pa kind
           = validate_layout_bytes (Some r') ps es cap pa kind"
proof -
  have "header_of_bytes r = header_of_bytes r'"
    using assms(2) header_of_bytes_take by metis
  then have "read_header (Some r) = read_header (Some r')"
    using assms(1) by (simp add: read_header_def)
  then show ?thesis by (simp only: validate_layout_bytes_def option.case assms(1))
qed

lemma take_write_at: "k \<le> j \<Longrightarrow> j \<le> length region \<Longrightarrow> take k (write_at j bs region) = take k region"
  by (simp add: write_at_def min_def)

lemma init_slots_frame:
  assumes "\<And>i. length (factory i) = es" "off + n * es \<le> length region"
  shows "length (init_slots off es factory n region) = length region
         \<and> take off (init_slots off es factory n region) = take off region"
  using assms(2)
proof (induction n)
  case (Suc n)
  then show ?case using assms(1) by (simp add: take_write_at)
qed simp

lemma init_slots_read:
  assumes "\<And>i. length (factory i) = es" "off + n * es \<le> length region" "i < n"
  shows "read_at (off + i * es) es (init_slots off es factory n region) = factory i"
  using assms(2,3)
proof (induction n)
  case (Suc n)
  let ?r = "init_slots off es factory n region"
  have room: "off + n * es + length (factory n) \<le> length ?r"
    using init_slots_frame [OF assms(1), of off n region] Suc.prems(1) assms(1) by simp
  show ?case
  proof (cases "i = n")
    case True
    then show ?thesis using read_write_same [OF room] assms(1) by simp
  next
    case False
    then have "i < n" using Suc.prems(2) by simp
    then have "off + i * es + es \<le> off + n * es"
      using mult_le_mono1 [of "Suc i" n es] by simp
    then show ?thesis using read_write_below [OF _ room, of "off + i * es" es] Suc \<open>i < n\<close> by simp
  qed
qed simp

section \<open>Creating and attaching\<close>

lemma ring_create_ok:
  assumes "ring_create os s name et cap payload_size factory = (Inr (r, generated), s')"
  obtains required seg s1 contract region where
    "required_layout_size payload_size (et_align et) = Inr required"
    "os_create os s name (unat required) = (Inr (seg, generated), s1)"
    "write_layout_bytes (os_bytes os s1 seg) payload_size (et_size et) cap (et_align et) RingBuffer
       = Inr (contract, region)"
    "r = make_ring seg (lc_payload_offset contract) cap True"
    "s' = os_write os s1 seg (init_slots (unat (lc_payload_offset contract)) (unat (et_size et))
            factory (unat cap) region)"
  using assms by (auto simp: ring_create_def split: sum.splits prod.splits)

lemma ring_new_ok:
  assumes "ring_new os s et config factory = Some (Inr r, s')" "smc_create config"
  obtains payload_size generated where
    "smc_name config \<noteq> []" "is_power_of_two (of_nat (smc_buffer_size config))"
    "et_size et = of_nat (smc_element_size config)"
    "checked_mul_usize (et_size et) (of_nat (smc_buffer_size config)) = Some payload_size"
    "ring_create os s (Some (smc_name config)) et (of_nat (smc_buffer_size config)) payload_size
       factory = (Inr (r, generated), s')"
  using assms
  by (auto simp: ring_new_def Let_def validate_event_config_def layout_error_def
      split: if_splits option.splits sum.splits prod.splits)

lemma ring_attach_eq:
  assumes "smc_name config \<noteq> []" "is_power_of_two (of_nat (smc_buffer_size config))"
    and "et_size et = of_nat (smc_element_size config)"
    and "checked_mul_usize (et_size et) (of_nat (smc_buffer_size config)) = Some payload_size"
  shows "ring_attach os s et config
           = Some (ring_open os s (smc_name config) et (of_nat (smc_buffer_size config)) payload_size)"
proof -
  have "(0 :: usize) < of_nat (smc_buffer_size config)"
    using assms(2) by (simp add: is_power_of_two_def word_greater_zero_iff)
  then show ?thesis
    using assms by (simp add: ring_attach_def Let_def validate_event_config_def)
qed

text \<open>The byte offset of a slot, without wrap-around, for an in-range sequence number.\<close>

definition slot_bytes :: "'s shm_os \<Rightarrow> 's \<Rightarrow> ring \<Rightarrow> element_type \<Rightarrow> int \<Rightarrow> u8 list option" where
  "slot_bytes os s r et sequence =
     map_option (\<lambda>off. read_at (unat off) (unat (et_size et)) (os_bytes os s (rb_segment r)))
       (ring_get r (et_size et) sequence)"

lemma slot_offset_value:
  assumes "unat off + unat n * unat (es :: usize) \<le> usize_max" "i < unat (n :: usize)"
  shows "unat (off + of_nat i * es) = unat off + i * unat es"
proof -
  have "i * unat es \<le> unat n * unat es" using assms(2) by (intro mult_le_mono1) simp
  then have "unat off + i * unat es < 18446744073709551616"
    using assms(1) unfolding usize_max_def by linarith
  moreover have "off + of_nat i * es = of_nat (unat off + i * unat es)" by simp
  ultimately show ?thesis by (simp only: unat_of_nat) simp
qed

lemma write_layout_ok:
  assumes "write_layout_bytes region ps es cap pa kind = Inr (c, region')"
  shows "make_contract ps pa = Inr c" "unat (lc_total_size c) \<le> length region"
  using assms by (auto simp: write_layout_bytes_def bind_result_eq_Inr Let_def not_less
      split: if_splits)

lemma init_slots_keeps_layout:
  assumes "validate_layout_bytes (Some region) ps es cap pa kind = Inr c" "56 \<le> off"
    and "\<And>i. length (factory i) = n" "off + m * n \<le> length region"
  shows "validate_layout_bytes (Some (init_slots off n factory m region)) ps es cap pa kind = Inr c"
proof -
  note frame = init_slots_frame [OF assms(3,4)]
  have below: "take 56 xs = take 56 (take off xs)" for xs :: "u8 list"
    using assms(2) by (simp add: min_def)
  have "take 56 (init_slots off n factory m region) = take 56 (take off region)"
    using frame by (subst below) simp
  also have "\<dots> = take 56 region" by (rule below [symmetric])
  finally show ?thesis
    using validate_layout_depends [OF conjunct1 [OF frame]] assms(1) by simp
qed

lemma created_ring_contents:
  assumes os: "shm_create_opens os" "shm_write_reads os"
    and create: "ring_create os s (Some name) et cap payload_size factory = (Inr (r, generated), s')"
    and payload: "unat payload_size = unat (et_size et) * unat cap"
    and pow: "is_power_of_two cap"
    and factory: "\<And>i. length (factory i) = unat (et_size et)"
  shows "ring_open os s' name et cap payload_size = Inr (r\<lparr>rb_is_owner := False\<rparr>)
         \<and> rb_is_owner r \<and> ring_wf r \<and> rb_size r = cap
         \<and> (\<forall>i < unat cap. slot_bytes os s' r et (int i) = Some (factory i))"
proof -
  obtain seg s1 c region and required :: usize where
    created: "os_create os s (Some name) (unat required) = (Inr (seg, generated), s1)"
    and wrote: "write_layout_bytes (os_bytes os s1 seg) payload_size (et_size et) cap (et_align et)
        RingBuffer = Inr (c, region)"
    and r: "r = make_ring seg (lc_payload_offset c) cap True"
    and s': "s' = os_write os s1 seg (init_slots (unat (lc_payload_offset c)) (unat (et_size et))
            factory (unat cap) region)"
    by (rule ring_create_ok [OF create]) (rule that; assumption)
  let ?off = "unat (lc_payload_offset c)" and ?es = "unat (et_size et)"
  let ?filled = "init_slots ?off ?es factory (unat cap) region"
  have opens: "os_open os s1 name = Inr seg"
    using shm_create_opensD [OF os(1) created] by simp
  note layout = write_layout_validates(1,2) [OF wrote]
  note contract = make_contract_bounds(3,4) [OF write_layout_ok(1) [OF wrote]]
  have room: "?off + unat cap * ?es \<le> length region"
    using write_layout_ok(2) [OF wrote] contract payload layout by (simp add: mult.commute)
  have len: "length ?filled = length (os_bytes os s1 seg)"
    using init_slots_frame [OF factory room] layout by simp
  have bytes: "os_bytes os s' seg = ?filled" "os_open os s' name = Inr seg"
    using os(2) len opens unfolding shm_write_reads_def s' by simp_all
  have valid: "validate_layout_bytes (Some ?filled) payload_size (et_size et) cap (et_align et)
      RingBuffer = Inr c"
    using init_slots_keeps_layout [OF layout(1) contract(1) factory room] .
  have wf: "ring_wf r"
    using pow by (simp add: ring_wf_def r make_ring_def)
  have "slot_bytes os s' r et (int i) = Some (factory i)" if i: "i < unat cap" for i
  proof -
    have "int i \<le> i64_max" using i unat_power_of_two_le [OF pow] by (simp add: i64_max_def)
    then have idx: "ring_index r (int i) = Some (of_nat i)"
      using ring_index_value [OF wf, of "int i"] i by (simp add: r make_ring_def)
    have "?off + unat cap * ?es \<le> usize_max"
      using contract(2) payload unat_less_exp [of "lc_total_size c"]
      by (simp add: usize_max_def mult.commute)
    from slot_offset_value [OF this i] idx bytes(1) init_slots_read [OF factory room i]
    show ?thesis by (simp add: slot_bytes_def ring_get_def r make_ring_def)
  qed
  then show ?thesis
    using bytes valid wf by (simp add: ring_open_def r make_ring_def)
qed

lemma new_then_attach:
  assumes "shm_create_opens os" "shm_write_reads os"
    and "ring_new os s et config factory = Some (Inr r, s')" "smc_create config"
    and "\<And>i. length (factory i) = unat (et_size et)"
  shows "ring_attach os s' et config = Some (Inr (r\<lparr>rb_is_owner := False\<rparr>))
         \<and> rb_is_owner r \<and> ring_wf r
         \<and> (\<forall>i < unat (rb_size r). slot_bytes os s' r et (int i) = Some (factory i))"
proof -
  obtain payload_size generated where new: "smc_name config \<noteq> []"
    "is_power_of_two (of_nat (smc_buffer_size config))" "et_size et = of_nat (smc_element_size config)"
    "checked_mul_usize (et_size et) (of_nat (smc_buffer_size config)) = Some payload_size"
    "ring_create os s (Some (smc_name config)) et (of_nat (smc_buffer_size config)) payload_size
       factory = (Inr (r, generated), s')"
    by (rule ring_new_ok [OF assms(3,4)]) (rule that; assumption)
  have "unat payload_size = unat (et_size et) * unat (of_nat (smc_buffer_size config) :: usize)"
    using new(4) by (auto simp: checked_mul_usize_def unat_mult_no_wrap split: if_splits)
  from created_ring_contents [OF assms(1,2) new(5) this new(2) assms(5)] show ?thesis
    by (simp add: ring_attach_eq [OF new(1-4)])
qed

text \<open>Creating and attaching. When the operating system keeps its promises, a ring that
  \<open>new\<close> created can be attached with the same configuration: the attacher maps the same
  segment at the same payload offset with the same size, does not own it, and both see the
  factory's events in the slots.\<close>

theorem ring_new_then_attach:
  assumes "shm_create_opens os" "shm_write_reads os"
    and "ring_new os s et config factory = Some (Inr r, s')" "smc_create config"
    and "\<And>i. length (factory i) = unat (et_size et)"
  shows "ring_attach os s' et config = Some (Inr (r\<lparr>rb_is_owner := False\<rparr>))
         \<and> rb_is_owner r \<and> ring_wf r
         \<and> (\<forall>i < unat (rb_size r). slot_bytes os s' r et (int i) = Some (factory i))"
  by (rule new_then_attach [OF assms])

text \<open>A small operating system that keeps the promises: a table of names, a store of regions
  and a counter. Creating an existing name fails with the text of \<open>EEXIST\<close>.\<close>

type_synonym table_state = "(string \<Rightarrow> nat option) \<times> (nat \<Rightarrow> u8 list) \<times> nat"

fun table_create :: "table_state \<Rightarrow> string option \<Rightarrow> nat \<Rightarrow> (string + nat \<times> string) \<times> table_state" where
  "table_create (names, regions, next) n len =
     (let nm = (case n of None \<Rightarrow> ''auto_'' @ show_nat next | Some x \<Rightarrow> x) in
      if names nm \<noteq> None then (Inl ''File exists (os error 17)'', (names, regions, next))
      else (Inr (next, nm), (names(nm \<mapsto> next), regions(next := replicate len 0), Suc next)))"

fun table_open :: "table_state \<Rightarrow> string \<Rightarrow> string + nat" where
  "table_open (names, regions, next) nm =
     (case names nm of None \<Rightarrow> Inl ''No such file or directory (os error 2)'' | Some i \<Rightarrow> Inr i)"

fun table_unlink :: "table_state \<Rightarrow> string \<Rightarrow> table_state" where
  "table_unlink (names, regions, next) nm = (names(nm := None), regions, next)"

fun table_bytes :: "table_state \<Rightarrow> nat \<Rightarrow> u8 list" where
  "table_bytes (names, regions, next) i = regions i"

fun table_write :: "table_state \<Rightarrow> nat \<Rightarrow> u8 list \<Rightarrow> table_state" where
  "table_write (names, regions, next) i bs = (names, regions(i := bs), next)"

definition table_os :: "table_state shm_os" where
  "table_os = \<lparr> os_create = table_create, os_open = table_open, os_unlink = table_unlink,
                os_bytes = table_bytes, os_write = table_write, os_drop = (\<lambda>s i owner. s) \<rparr>"

lemma table_os_simps [simp]:
  "os_create table_os = table_create" "os_open table_os = table_open"
  "os_unlink table_os = table_unlink" "os_bytes table_os = table_bytes"
  "os_write table_os = table_write"
  by (simp_all add: table_os_def)

lemma table_os_promises: "shm_create_opens table_os" "shm_write_reads table_os"
  by (auto simp: shm_create_opens_def shm_write_reads_def Let_def split: if_splits option.splits)

definition table_empty :: table_state where
  "table_empty = (\<lambda>_. None, \<lambda>_. [], 0)"

text \<open>A configuration it can create.\<close>

definition tiny_element :: element_type where
  "tiny_element = \<lparr>et_size = 2, et_align = 2\<rparr>"

definition tiny_config :: shared_memory_config where
  "tiny_config = \<lparr>smc_name = ''ring'', smc_buffer_size = 4, smc_element_size = 2, smc_create = True\<rparr>"

lemma tiny_ring_new:
  "\<exists>r s'. ring_new table_os table_empty tiny_element tiny_config factory = Some (Inr r, s')
     \<and> unat (rb_size r) = 4"
  by (simp add: tiny_element_def tiny_config_def ring_new_def Let_def is_power_of_two_def validate_event_config_def
        checked_mul_usize_def usize_max_def ring_create_def required_layout_size_def
        make_contract_def payload_offset_def align_up_def header_size_def align_of_header_def
        HEADER_ALIGNMENT_MIN_def checked_add_usize_def table_empty_def write_layout_bytes_def
        make_layout_header_def u16_try_from_def make_ring_def)

theorem ring_new_then_attach_witness:
  "\<exists>r s'. ring_new table_os table_empty \<lparr>et_size = 2, et_align = 2\<rparr>
        \<lparr>smc_name = ''ring'', smc_buffer_size = 4, smc_element_size = 2, smc_create = True\<rparr>
        (\<lambda>i. [of_nat i, 7]) = Some (Inr r, s')
     \<and> slot_bytes table_os s' r \<lparr>et_size = 2, et_align = 2\<rparr> 3 = Some [3, 7]"
proof -
  let ?new = "ring_new table_os table_empty \<lparr>et_size = 2, et_align = 2\<rparr>
        \<lparr>smc_name = ''ring'', smc_buffer_size = 4, smc_element_size = 2, smc_create = True\<rparr>
        (\<lambda>i. [of_nat i, 7])"
  have "\<exists>r s'. ?new = Some (Inr r, s') \<and> unat (rb_size r) = 4"
    using tiny_ring_new unfolding tiny_element_def tiny_config_def .
  then obtain r s' where new: "?new = Some (Inr r, s')" "unat (rb_size r) = 4" by blast
  from ring_new_then_attach [OF table_os_promises new(1)] new(2)
  have all: "\<forall>i<4. slot_bytes table_os s' r \<lparr>et_size = 2, et_align = 2\<rparr> (int i) = Some [of_nat i, 7]"
    by simp
  from all [rule_format, of 3] show ?thesis using new by simp
qed

end
