(* ===== verification/Cursors.thy ===== *)
theory Cursors
  imports RingBuffers
begin

text \<open>
  Sequence cursors of both backends: \<open>disruptor-mp/src/lock_free/cursor.rs\<close> and
  \<open>backend/mmap/cursor.rs\<close>. A cursor is a segment whose payload is one cache line holding an
  atomic 64-bit sequence number; its constructors run over the operating-system records of
  \<open>RingBuffers\<close>, its operations read and write the eight bytes of the value.
\<close>

section \<open>The atomic value\<close>

definition CACHE_LINE_SIZE :: nat where
  "CACHE_LINE_SIZE = 64"

definition i64_bytes :: "int \<Rightarrow> u8 list" where
  "i64_bytes v = nat_le_bytes 8 (unat (i64_as_u64 v))"

definition i64_of_bytes :: "u8 list \<Rightarrow> int" where
  "i64_of_bytes bs = sint (of_nat (nat_of_le_bytes bs) :: u64)"

text \<open>\<open>PaddedAtomicI64::new\<close>: the value and its padding to a cache line.\<close>

definition padded_atomic_new :: "int \<Rightarrow> u8 list" where
  "padded_atomic_new v = i64_bytes v @ replicate (CACHE_LINE_SIZE - 8) 0"

text \<open>The read-modify-write operations, as the value returned and the value left behind.
  \<open>Ordering\<close> arguments have no counterpart: every operation is one atomic step.\<close>

definition atomic_compare_exchange :: "int \<Rightarrow> int \<Rightarrow> int \<Rightarrow> (int + int) \<times> int" where
  "atomic_compare_exchange current new v = (if v = current then (Inr v, new) else (Inl v, v))"

definition atomic_compare_exchange_weak :: "bool \<Rightarrow> int \<Rightarrow> int \<Rightarrow> int \<Rightarrow> (int + int) \<times> int" where
  "atomic_compare_exchange_weak spurious current new v =
     (if v = current \<and> \<not> spurious then (Inr v, new) else (Inl v, v))"

definition atomic_fetch_add :: "int \<Rightarrow> int \<Rightarrow> int \<times> int" where
  "atomic_fetch_add n v = (v, wrap_i64 (v + n))"

definition atomic_swap :: "int \<Rightarrow> int \<Rightarrow> int \<times> int" where
  "atomic_swap new v = (v, new)"

lemma length_i64_bytes [simp]: "length (i64_bytes v) = 8"
  by (simp add: i64_bytes_def)

lemma length_padded_atomic [simp]: "length (padded_atomic_new v) = 64"
  by (simp add: padded_atomic_new_def CACHE_LINE_SIZE_def)

lemma i64_bytes_back [simp]: "in_i64 v \<Longrightarrow> i64_of_bytes (i64_bytes v) = v"
proof -
  assume v: "in_i64 v"
  have "sint (word_of_int v :: u64) = signed_take_bit (LENGTH(64) - 1) v" by transfer simp
  also have "\<dots> = v" using v by (intro signed_take_bit_int_eq_self) (simp_all add: i64_simps)
  finally have "sint (word_of_int v :: u64) = v" .
  moreover have "nat_of_le_bytes (i64_bytes v) = unat (i64_as_u64 v)"
    by (simp add: i64_bytes_def nat_of_le_bytes_of_nat)
  ultimately show ?thesis by (simp add: i64_of_bytes_def i64_as_u64_def)
qed

section \<open>Shared-memory cursors\<close>

record shared_cursor =
  sc_os_id :: string
  sc_segment :: nat
  sc_offset :: usize
  sc_is_owner :: bool

definition cursor_size :: usize where
  "cursor_size = 64"

definition cursor_align :: usize where
  "cursor_align = 64"

text \<open>\<open>str::contains\<close>.\<close>

fun contains_str :: "string \<Rightarrow> string \<Rightarrow> bool" where
  "contains_str p [] \<longleftrightarrow> p = []"
| "contains_str p (c # cs) \<longleftrightarrow> take (length p) (c # cs) = p \<or> contains_str p cs"

text \<open>Create the segment under a name or an automatic one, write header and value.\<close>

definition cursor_create ::
  "'s shm_os \<Rightarrow> 's \<Rightarrow> string option \<Rightarrow> int \<Rightarrow> shared_cursor mp_result \<times> 's" where
  "cursor_create os s name initial_value =
     (case required_layout_size cursor_size cursor_align of
        Inl e \<Rightarrow> (Inl e, s)
      | Inr required \<Rightarrow>
          (case os_create os s name (unat required) of
             (Inl e, s1) \<Rightarrow> (Inl (SharedMemoryError e), s1)
           | (Inr (seg, generated), s1) \<Rightarrow>
               (case write_layout_bytes (os_bytes os s1 seg) cursor_size cursor_size 1 cursor_align
                       Cursor of
                  Inl e \<Rightarrow> (Inl e, os_drop os s1 seg True)
                | Inr (contract, region) \<Rightarrow>
                    (Inr \<lparr> sc_os_id = generated, sc_segment = seg,
                           sc_offset = lc_payload_offset contract, sc_is_owner = True \<rparr>,
                     os_write os s1 seg
                       (write_at (unat (lc_payload_offset contract)) (padded_atomic_new initial_value)
                          region)))))"

definition cursor_new_auto :: "'s shm_os \<Rightarrow> 's \<Rightarrow> int \<Rightarrow> (shared_cursor \<times> string) mp_result \<times> 's" where
  "cursor_new_auto os s initial_value =
     (case cursor_create os s None initial_value of
        (Inl e, s1) \<Rightarrow> (Inl e, s1)
      | (Inr c, s1) \<Rightarrow> (Inr (c, sc_os_id c), s1))"

text \<open>\<open>ensure_name\<close> fails on the empty name: \<open>None\<close>.\<close>

definition cursor_new :: "'s shm_os \<Rightarrow> 's \<Rightarrow> string \<Rightarrow> int \<Rightarrow> (shared_cursor mp_result \<times> 's) option" where
  "cursor_new os s name initial_value =
     (if name = [] then None else Some (cursor_create os s (Some name) initial_value))"

definition cursor_recreate :: "'s shm_os \<Rightarrow> 's \<Rightarrow> string \<Rightarrow> int \<Rightarrow> (shared_cursor mp_result \<times> 's) option" where
  "cursor_recreate os s name initial_value =
     (if name = [] then None else cursor_new os (os_unlink os s name) name initial_value)"

definition cursor_attach :: "'s shm_os \<Rightarrow> 's \<Rightarrow> string \<Rightarrow> shared_cursor mp_result option" where
  "cursor_attach os s name =
     (if name = [] then None
      else Some
        (case os_open os s name of
           Inl e \<Rightarrow> Inl (SegmentNotFound e)
         | Inr seg \<Rightarrow>
             bind_result (validate_layout_bytes (Some (os_bytes os s seg)) cursor_size cursor_size 1
                            cursor_align Cursor)
               (\<lambda>contract. Inr \<lparr> sc_os_id = name, sc_segment = seg,
                                 sc_offset = lc_payload_offset contract, sc_is_owner = False \<rparr>)))"

definition cursor_new_or_attach ::
  "'s shm_os \<Rightarrow> 's \<Rightarrow> string \<Rightarrow> int \<Rightarrow> (shared_cursor mp_result \<times> 's) option" where
  "cursor_new_or_attach os s name initial_value =
     (case cursor_new os s name initial_value of
        None \<Rightarrow> None
      | Some (Inr c, s1) \<Rightarrow> Some (Inr c, s1)
      | Some (Inl (SharedMemoryError msg), s1) \<Rightarrow>
          if contains_str ''already exists'' msg \<or> contains_str ''File exists'' msg
          then map_option (\<lambda>r. (r, s1)) (cursor_attach os s1 name)
          else Some (Inl (SharedMemoryError msg), s1)
      | Some (Inl e, s1) \<Rightarrow> Some (Inl e, s1))"

text \<open>\<open>Clone\<close> attaches to the same name and panics when that fails.\<close>

definition cursor_clone :: "'s shm_os \<Rightarrow> 's \<Rightarrow> shared_cursor \<Rightarrow> shared_cursor option" where
  "cursor_clone os s c =
     (case cursor_attach os s (sc_os_id c) of
        Some (Inr c') \<Rightarrow> Some c'
      | _ \<Rightarrow> None)"

definition cursor_drop :: "'s shm_os \<Rightarrow> 's \<Rightarrow> shared_cursor \<Rightarrow> 's" where
  "cursor_drop os s c = os_drop os s (sc_segment c) (sc_is_owner c)"

definition cursor_set_owner :: "shared_cursor \<Rightarrow> bool \<Rightarrow> bool \<times> shared_cursor" where
  "cursor_set_owner c owner = (sc_is_owner c, c\<lparr>sc_is_owner := owner\<rparr>)"

definition cursor_load :: "'s shm_os \<Rightarrow> 's \<Rightarrow> shared_cursor \<Rightarrow> int" where
  "cursor_load os s c = i64_of_bytes (read_at (unat (sc_offset c)) 8 (os_bytes os s (sc_segment c)))"

definition cursor_store :: "'s shm_os \<Rightarrow> 's \<Rightarrow> shared_cursor \<Rightarrow> int \<Rightarrow> 's" where
  "cursor_store os s c v =
     os_write os s (sc_segment c)
       (write_at (unat (sc_offset c)) (i64_bytes v) (os_bytes os s (sc_segment c)))"

definition cursor_update :: "'s shm_os \<Rightarrow> 's \<Rightarrow> shared_cursor \<Rightarrow> (int \<Rightarrow> 'r \<times> int) \<Rightarrow> 'r \<times> 's" where
  "cursor_update os s c f =
     (case f (cursor_load os s c) of (r, v) \<Rightarrow> (r, cursor_store os s c v))"

definition cursor_compare_exchange ::
  "'s shm_os \<Rightarrow> 's \<Rightarrow> shared_cursor \<Rightarrow> int \<Rightarrow> int \<Rightarrow> (int + int) \<times> 's" where
  "cursor_compare_exchange os s c current new = cursor_update os s c (atomic_compare_exchange current new)"

definition cursor_compare_exchange_weak ::
  "'s shm_os \<Rightarrow> 's \<Rightarrow> shared_cursor \<Rightarrow> bool \<Rightarrow> int \<Rightarrow> int \<Rightarrow> (int + int) \<times> 's" where
  "cursor_compare_exchange_weak os s c spurious current new =
     cursor_update os s c (atomic_compare_exchange_weak spurious current new)"

definition cursor_fetch_add :: "'s shm_os \<Rightarrow> 's \<Rightarrow> shared_cursor \<Rightarrow> int \<Rightarrow> int \<times> 's" where
  "cursor_fetch_add os s c n = cursor_update os s c (atomic_fetch_add n)"

definition cursor_swap :: "'s shm_os \<Rightarrow> 's \<Rightarrow> shared_cursor \<Rightarrow> int \<Rightarrow> int \<times> 's" where
  "cursor_swap os s c v = cursor_update os s c (atomic_swap v)"

section \<open>Cursors over file mappings\<close>

record mmap_cursor =
  mc_path :: path
  mc_file :: nat
  mc_offset :: usize
  mc_is_owner :: bool

definition mmap_cursor_new ::
  "'s mmap_fs \<Rightarrow> 's \<Rightarrow> mmap_cursor_config \<Rightarrow> int \<Rightarrow> (mmap_cursor mp_result \<times> 's) option" where
  "mmap_cursor_new fs s config initial_value =
     (let create = mcc_create config in
      if path_is_empty (mcc_path config) then None
      else
        (case ensure_parent_dir fs s (mcc_path config) of
           (Inl e, s1) \<Rightarrow> Some (Inl e, s1)
         | (Inr _, s1) \<Rightarrow>
             (case required_layout_size cursor_size cursor_align of
                Inl e \<Rightarrow> Some (Inl e, s1)
              | Inr required \<Rightarrow>
                  (case mmap_open_segment fs s1 (mcc_path config) create (Inr required) of
                     (Inl e, s2) \<Rightarrow> Some (Inl e, s2)
                   | (Inr file, s2) \<Rightarrow>
                       if create then
                         (case write_layout_bytes (fs_bytes fs s2 file) cursor_size cursor_size 1
                                 cursor_align Cursor of
                            Inl e \<Rightarrow> Some (Inl e, s2)
                          | Inr (contract, region) \<Rightarrow>
                              Some (Inr \<lparr> mc_path = mcc_path config, mc_file = file,
                                          mc_offset = lc_payload_offset contract, mc_is_owner = True \<rparr>,
                                    fs_store fs s2 file
                                      (write_at (unat (lc_payload_offset contract))
                                         (padded_atomic_new initial_value) region)))
                       else
                         (case validate_layout_bytes (Some (fs_bytes fs s2 file)) cursor_size
                                 cursor_size 1 cursor_align Cursor of
                            Inl e \<Rightarrow> Some (Inl e, s2)
                          | Inr contract \<Rightarrow>
                              Some (Inr \<lparr> mc_path = mcc_path config, mc_file = file,
                                          mc_offset = lc_payload_offset contract, mc_is_owner = False \<rparr>,
                                    s2))))))"

definition mmap_cursor_attach ::
  "'s mmap_fs \<Rightarrow> 's \<Rightarrow> mmap_cursor_config \<Rightarrow> (mmap_cursor mp_result \<times> 's) option" where
  "mmap_cursor_attach fs s config = (if mcc_create config then None else mmap_cursor_new fs s config 0)"

definition mmap_cursor_new_or_attach ::
  "'s mmap_fs \<Rightarrow> 's \<Rightarrow> mmap_cursor_config \<Rightarrow> int \<Rightarrow> (mmap_cursor mp_result \<times> 's) option" where
  "mmap_cursor_new_or_attach fs s config initial_value =
     (if fs_exists fs s (mcc_path config)
      then mmap_cursor_attach fs s (config\<lparr>mcc_create := False\<rparr>)
      else mmap_cursor_new fs s config initial_value)"

definition mmap_cursor_clone :: "'s mmap_fs \<Rightarrow> 's \<Rightarrow> mmap_cursor \<Rightarrow> (mmap_cursor \<times> 's) option" where
  "mmap_cursor_clone fs s c =
     (case mmap_cursor_attach fs s \<lparr> mcc_path = mc_path c, mcc_create = False \<rparr> of
        Some (Inr c', s1) \<Rightarrow> Some (c', s1)
      | _ \<Rightarrow> None)"

definition mmap_cursor_load :: "'s mmap_fs \<Rightarrow> 's \<Rightarrow> mmap_cursor \<Rightarrow> int" where
  "mmap_cursor_load fs s c = i64_of_bytes (read_at (unat (mc_offset c)) 8 (fs_bytes fs s (mc_file c)))"

definition mmap_cursor_store :: "'s mmap_fs \<Rightarrow> 's \<Rightarrow> mmap_cursor \<Rightarrow> int \<Rightarrow> 's" where
  "mmap_cursor_store fs s c v =
     fs_store fs s (mc_file c)
       (write_at (unat (mc_offset c)) (i64_bytes v) (fs_bytes fs s (mc_file c)))"

definition mmap_cursor_update :: "'s mmap_fs \<Rightarrow> 's \<Rightarrow> mmap_cursor \<Rightarrow> (int \<Rightarrow> 'r \<times> int) \<Rightarrow> 'r \<times> 's" where
  "mmap_cursor_update fs s c f =
     (case f (mmap_cursor_load fs s c) of (r, v) \<Rightarrow> (r, mmap_cursor_store fs s c v))"

definition mmap_cursor_compare_exchange ::
  "'s mmap_fs \<Rightarrow> 's \<Rightarrow> mmap_cursor \<Rightarrow> int \<Rightarrow> int \<Rightarrow> (int + int) \<times> 's" where
  "mmap_cursor_compare_exchange fs s c current new =
     mmap_cursor_update fs s c (atomic_compare_exchange current new)"

definition mmap_cursor_fetch_add :: "'s mmap_fs \<Rightarrow> 's \<Rightarrow> mmap_cursor \<Rightarrow> int \<Rightarrow> int \<times> 's" where
  "mmap_cursor_fetch_add fs s c n = mmap_cursor_update fs s c (atomic_fetch_add n)"

definition mmap_cursor_swap :: "'s mmap_fs \<Rightarrow> 's \<Rightarrow> mmap_cursor \<Rightarrow> int \<Rightarrow> int \<times> 's" where
  "mmap_cursor_swap fs s c v = mmap_cursor_update fs s c (atomic_swap v)"

section \<open>A cursor keeps its value across mappings\<close>

text \<open>The name of the cursor opens its segment, and the header grants the payload the handle
  points to.\<close>

definition cursor_live :: "'s shm_os \<Rightarrow> 's \<Rightarrow> shared_cursor \<Rightarrow> bool" where
  "cursor_live os s c \<longleftrightarrow>
     sc_os_id c \<noteq> [] \<and> os_open os s (sc_os_id c) = Inr (sc_segment c)
     \<and> (\<exists>contract. validate_layout_bytes (Some (os_bytes os s (sc_segment c))) cursor_size cursor_size 1
            cursor_align Cursor = Inr contract \<and> lc_payload_offset contract = sc_offset c)"

lemma cursor_live_room:
  assumes "cursor_live os s c"
  shows "56 \<le> unat (sc_offset c)" "unat (sc_offset c) + 64 \<le> length (os_bytes os s (sc_segment c))"
proof -
  obtain h :: layout_header and contract where "make_contract cursor_size (max cursor_align (ucast (lh_alignment h))) = Inr contract"
    "unat (lc_total_size contract) \<le> length (os_bytes os s (sc_segment c))"
    "lc_payload_offset contract = sc_offset c"
    using assms by (auto simp: cursor_live_def validate_layout_ok_iff)
  then show "56 \<le> unat (sc_offset c)" "unat (sc_offset c) + 64 \<le> length (os_bytes os s (sc_segment c))"
    using make_contract_bounds(3,4) [of cursor_size _ contract] by (auto simp: cursor_size_def)
qed

lemma cursor_attach_live:
  assumes "cursor_live os s c"
  shows "cursor_attach os s (sc_os_id c) = Some (Inr (c\<lparr>sc_is_owner := False\<rparr>))"
  using assms by (auto simp: cursor_live_def cursor_attach_def)

lemma validate_after_write:
  assumes "validate_layout_bytes (Some r) ps es cap pa kind = Inr c"
    and "56 \<le> k" "k + length bs \<le> length r"
  shows "validate_layout_bytes (Some (write_at k bs r)) ps es cap pa kind = Inr c"
proof -
  have "take 56 (write_at k bs r) = take 56 r" using assms(2,3) by (intro take_write_at) simp_all
  then show ?thesis
    using validate_layout_depends [of "write_at k bs r" r] assms by simp
qed

lemma cursor_store_live:
  assumes "shm_write_reads os" "cursor_live os s c"
  shows "cursor_live os (cursor_store os s c v) c"
proof -
  let ?r = "os_bytes os s (sc_segment c)"
  have room: "unat (sc_offset c) + length (i64_bytes v) \<le> length ?r"
    using cursor_live_room(2) [OF assms(2)] by simp
  then have "os_bytes os (cursor_store os s c v) (sc_segment c) = write_at (unat (sc_offset c)) (i64_bytes v) ?r"
    "os_open os (cursor_store os s c v) (sc_os_id c) = os_open os s (sc_os_id c)"
    using assms(1) by (simp_all add: shm_write_reads_def cursor_store_def)
  then show ?thesis
    using assms(2) validate_after_write [OF _ cursor_live_room(1) [OF assms(2)] room]
    unfolding cursor_live_def by force
qed

lemma cursor_load_store:
  assumes "shm_write_reads os" "cursor_live os s c" "in_i64 v"
  shows "cursor_load os (cursor_store os s c v) c = v"
proof -
  let ?r = "os_bytes os s (sc_segment c)"
  have room: "unat (sc_offset c) + length (i64_bytes v) \<le> length ?r"
    using cursor_live_room(2) [OF assms(2)] by simp
  then have "os_bytes os (cursor_store os s c v) (sc_segment c) = write_at (unat (sc_offset c)) (i64_bytes v) ?r"
    using assms(1) by (simp add: shm_write_reads_def cursor_store_def)
  then show ?thesis
    using read_write_same [OF room] assms(3) by (simp add: cursor_load_def)
qed

lemma cursor_create_live:
  assumes os: "shm_create_opens os" "shm_write_reads os" and name: "name \<noteq> []"
    and create: "cursor_create os s (Some name) v = (Inr c, s')" and v: "in_i64 v"
  shows "cursor_live os s' c \<and> sc_os_id c = name \<and> sc_is_owner c \<and> cursor_load os s' c = v"
proof -
  obtain seg s1 region contract generated and required :: usize where
    created: "os_create os s (Some name) (unat required) = (Inr (seg, generated), s1)"
    and wrote: "write_layout_bytes (os_bytes os s1 seg) cursor_size cursor_size 1 cursor_align Cursor
        = Inr (contract, region)"
    and c: "c = \<lparr> sc_os_id = generated, sc_segment = seg, sc_offset = lc_payload_offset contract,
                  sc_is_owner = True \<rparr>"
    and s': "s' = os_write os s1 seg
        (write_at (unat (lc_payload_offset contract)) (padded_atomic_new v) region)"
    using create unfolding cursor_create_def by (auto split: sum.splits prod.splits)
  note opens = shm_create_opensD [OF os(1) created]
  note layout = write_layout_validates(1,2) [OF wrote]
  have off: "56 \<le> unat (lc_payload_offset contract)"
    and total: "unat (lc_total_size contract) = 64 + unat (lc_payload_offset contract)"
    using make_contract_bounds(3,4) [OF write_layout_ok(1) [OF wrote]] by (simp_all add: cursor_size_def)
  have room: "unat (lc_payload_offset contract) + length (padded_atomic_new v) \<le> length region"
    using write_layout_ok(2) [OF wrote] layout(2) total by simp
  let ?r = "write_at (unat (lc_payload_offset contract)) (padded_atomic_new v) region"
  have bytes: "os_bytes os s' seg = ?r" "os_open os s' name = Inr seg"
    using os(2) opens layout(2) room unfolding shm_write_reads_def s' by simp_all
  have "read_at (unat (lc_payload_offset contract)) 8 ?r = i64_bytes v"
  proof -
    have "take 8 (read_at (unat (lc_payload_offset contract)) 64 ?r) = take 8 (padded_atomic_new v)"
      using read_write_same [OF room] by simp
    then show ?thesis by (simp add: read_at_def padded_atomic_new_def min_def)
  qed
  then show ?thesis
    using validate_after_write [OF layout(1) off room] bytes name opens v
    by (simp add: cursor_live_def cursor_load_def c)
qed

text \<open>Creating a name that is already taken fails with a text that says so, and changes
  nothing.\<close>

definition shm_create_exists :: "'s shm_os \<Rightarrow> bool" where
  "shm_create_exists os \<longleftrightarrow>
     (\<forall>s name i n. os_open os s name = Inr i \<longrightarrow>
        (\<exists>msg. os_create os s (Some name) n = (Inl msg, s)
               \<and> (contains_str ''already exists'' msg \<or> contains_str ''File exists'' msg)))"

lemma cursor_new_or_attach_live:
  assumes "shm_create_exists os" "cursor_live os s c"
  shows "cursor_new_or_attach os s (sc_os_id c) v = Some (Inr (c\<lparr>sc_is_owner := False\<rparr>), s)"
proof -
  obtain required :: usize where required: "required_layout_size cursor_size cursor_align = Inr required"
    by (simp add: required_layout_size_def make_contract_def payload_offset_def align_up_def
        header_size_def align_of_header_def HEADER_ALIGNMENT_MIN_def checked_add_usize_def
        cursor_size_def cursor_align_def is_power_of_two_def usize_max_def)
  obtain msg where msg: "os_create os s (Some (sc_os_id c)) (unat required) = (Inl msg, s)"
    "contains_str ''already exists'' msg \<or> contains_str ''File exists'' msg"
    using assms unfolding shm_create_exists_def cursor_live_def by metis
  have "cursor_new os s (sc_os_id c) v = Some (Inl (SharedMemoryError msg), s)"
    using assms(2) msg(1) required by (simp add: cursor_new_def cursor_create_def cursor_live_def)
  then show ?thesis
    using msg(2) cursor_attach_live [OF assms(2)] by (simp add: cursor_new_or_attach_def)
qed

text \<open>Restart anchors. A cursor created under a name holds its initial value; after any store
  through it, a process that calls \<open>new_or_attach\<close> with the same name, whatever initial value
  it asks for, maps the same segment without owning it and reads the stored value, and
  \<open>clone\<close> yields the same mapping.\<close>

theorem cursor_restart_anchor:
  assumes "shm_create_opens os" "shm_write_reads os" "shm_create_exists os"
    and "cursor_new os s name initial_value = Some (Inr c, s1)" "in_i64 initial_value" "in_i64 v"
  shows "let s2 = cursor_store os s1 c v; c' = c\<lparr>sc_is_owner := False\<rparr> in
           cursor_load os s1 c = initial_value
           \<and> cursor_new_or_attach os s2 name other = Some (Inr c', s2)
           \<and> cursor_clone os s2 c = Some c'
           \<and> cursor_load os s2 c' = v"
proof -
  have "name \<noteq> []" and create: "cursor_create os s (Some name) initial_value = (Inr c, s1)"
    using assms(4) by (auto simp: cursor_new_def split: if_splits)
  from cursor_create_live [OF assms(1,2) this assms(5)]
  have live: "cursor_live os s1 c" and name: "sc_os_id c = name"
    and init: "cursor_load os s1 c = initial_value" by simp_all
  note live2 = cursor_store_live [OF assms(2) live, of v]
  have "cursor_load os s2 (c\<lparr>sc_is_owner := False\<rparr>) = cursor_load os s2 c" for s2
    by (simp add: cursor_load_def)
  then show ?thesis
    using cursor_new_or_attach_live [OF assms(3) live2, of other] cursor_attach_live [OF live2]
      cursor_load_store [OF assms(2) live assms(6)] init name
    by (simp add: Let_def cursor_clone_def)
qed

theorem cursor_restart_anchor_witness:
  "\<exists>c s1. cursor_new table_os table_empty ''seq'' (-1) = Some (Inr c, s1)
     \<and> cursor_load table_os (cursor_store table_os s1 c 41) (c\<lparr>sc_is_owner := False\<rparr>) = 41"
proof -
  have exists: "shm_create_exists table_os"
    by (auto simp: shm_create_exists_def split: option.splits)
  have "\<exists>c s1. cursor_new table_os table_empty ''seq'' (-1) = Some (Inr c, s1)"
    by (simp add: cursor_new_def cursor_create_def required_layout_size_def make_contract_def
        payload_offset_def align_up_def header_size_def align_of_header_def cursor_align_def
        HEADER_ALIGNMENT_MIN_def checked_add_usize_def cursor_size_def is_power_of_two_def
        usize_max_def table_empty_def write_layout_bytes_def make_layout_header_def
        u16_try_from_def Let_def)
  then obtain c s1 where new: "cursor_new table_os table_empty ''seq'' (-1) = Some (Inr c, s1)"
    by blast
  with cursor_restart_anchor [OF table_os_promises exists new, of 41 0]
  show ?thesis by (auto simp: i64_simps Let_def)
qed

end
