(* ===== verification/Naming.thy ===== *)
theory Naming
  imports Cursors
begin

text \<open>
  Names of segments and files: \<open>disruptor-mp/src/segment_name.rs\<close> (generated segment names), the
  session layout, the runner and engine configurations and the name rules of
  \<open>myelon/src/transport.rs\<close>, and the file layout of \<open>disruptor-mp/src/backend/mmap/transport.rs\<close>.

  A string is the list of its UTF-8 bytes. The character filters of the source keep ASCII
  characters only, and every byte of another character is above 127, so filtering the bytes
  gives the same text. \<open>DefaultHasher\<close>, whose algorithm Rust leaves open, is the argument
  \<open>hash\<close> of the definitions that need it.
\<close>

section \<open>ASCII text\<close>

definition is_ascii_alphanumeric :: "char \<Rightarrow> bool" where
  "is_ascii_alphanumeric c \<longleftrightarrow>
     (let n = of_char c :: nat in 48 \<le> n \<and> n \<le> 57 \<or> 65 \<le> n \<and> n \<le> 90 \<or> 97 \<le> n \<and> n \<le> 122)"

definition to_ascii_lowercase :: "char \<Rightarrow> char" where
  "to_ascii_lowercase c = (let n = of_char c :: nat in if 65 \<le> n \<and> n \<le> 90 then char_of (n + 32) else c)"

definition is_lower_alnum :: "char \<Rightarrow> bool" where
  "is_lower_alnum c \<longleftrightarrow> (let n = of_char c :: nat in 48 \<le> n \<and> n \<le> 57 \<or> 97 \<le> n \<and> n \<le> 122)"

definition lower_alnum_projection :: "string \<Rightarrow> string" where
  "lower_alnum_projection s = map to_ascii_lowercase (filter is_ascii_alphanumeric s)"

lemma lower_alnumI: "is_ascii_alphanumeric c \<Longrightarrow> is_lower_alnum (to_ascii_lowercase c)"
  by (auto simp: is_ascii_alphanumeric_def is_lower_alnum_def to_ascii_lowercase_def Let_def)

lemma lower_alnum_is_alnum: "is_lower_alnum c \<Longrightarrow> is_ascii_alphanumeric c"
  by (auto simp: is_ascii_alphanumeric_def is_lower_alnum_def Let_def)

lemma lower_alnum_projection_chars: "c \<in> set (lower_alnum_projection s) \<Longrightarrow> is_lower_alnum c"
  by (auto simp: lower_alnum_projection_def intro: lower_alnumI)

lemma digit_char_lower_alnum: "d < 36 \<Longrightarrow> is_lower_alnum (digit_char d)"
  by (auto simp: is_lower_alnum_def digit_char_def Let_def)

lemma digit_char_inject: "d < 36 \<Longrightarrow> e < 36 \<Longrightarrow> digit_char d = digit_char e \<longleftrightarrow> d = e"
  using digit_value_char by metis

lemma show_base_digits:
  assumes "2 \<le> b" "b \<le> 36" "c \<in> set (show_base b n)"
  shows "\<exists>d < b. c = digit_char d"
  using assms
proof (induction b n rule: show_base.induct)
  case (1 b n)
  show ?case
  proof (cases "n < b")
    case True
    with 1 show ?thesis by (subst (asm) show_base.simps) auto
  next
    case False
    then have "show_base b n = show_base b (n div b) @ [digit_char (n mod b)]"
      using 1 by (subst show_base.simps) simp
    with 1 False show ?thesis by (auto intro: exI [of _ "n mod b"])
  qed
qed

lemma show_base_inject:
  "2 \<le> b \<Longrightarrow> b \<le> 36 \<Longrightarrow> show_base b m = show_base b n \<longleftrightarrow> m = n"
  using read_show_base by metis

lemma length_show_base:
  assumes "2 \<le> b" "0 < k"
  shows "length (show_base b n) \<le> k \<longleftrightarrow> n < b ^ k"
  using assms
proof (induction b n arbitrary: k rule: show_base.induct)
  case (1 b n)
  show ?case
  proof (cases "n < b")
    case True
    have "b \<le> b ^ k" using 1 by (cases k) auto
    with True 1 show ?thesis by (subst show_base.simps) auto
  next
    case False
    obtain j where k: "k = Suc j" using 1 by (cases k) auto
    show ?thesis
    proof (cases "j = 0")
      case True
      have "show_base b (n div b) \<noteq> []" by (subst show_base.simps) simp
      then show ?thesis using False True k 1 by (subst show_base.simps) simp
    next
      case j: False
      have "length (show_base b (n div b)) \<le> j \<longleftrightarrow> n div b < b ^ j" using 1 False j by simp
      moreover have "n div b < b ^ j \<longleftrightarrow> n < b ^ k" using 1 k by (simp add: div_less_iff_less_mult mult.commute)
      ultimately show ?thesis using False 1 k by (subst show_base.simps) simp
    qed
  qed
qed

section \<open>Generated segment names\<close>

definition PORTABLE_SHM_SEGMENT_NAME_MAX_LEN :: nat where
  "PORTABLE_SHM_SEGMENT_NAME_MAX_LEN = 14"

definition PORTABLE_SHM_SEGMENT_SUFFIX_LEN :: nat where
  "PORTABLE_SHM_SEGMENT_SUFFIX_LEN = 8"

definition PORTABLE_SHM_SEGMENT_SUFFIX_MODULUS :: u64 where
  "PORTABLE_SHM_SEGMENT_SUFFIX_MODULUS = 2821109907456"

text \<open>The loop fills the slots from the right.\<close>

fun encode_base36 :: "u64 \<Rightarrow> nat \<Rightarrow> string" where
  "encode_base36 value 0 = []"
| "encode_base36 value (Suc width) =
     encode_base36 (value div 36) width @ [''0123456789abcdefghijklmnopqrstuvwxyz'' ! unat (value mod 36)]"

text \<open>\<open>now\<close> is the clock in nanoseconds since the epoch, \<open>None\<close> when it is set before it;
  \<open>counter\<close> is the value of \<open>NEXT_SEGMENT_SUFFIX\<close>, returned advanced.\<close>

definition portable_shm_segment_name ::
  "nat option \<Rightarrow> u32 \<Rightarrow> u64 \<Rightarrow> string \<Rightarrow> string \<times> u64" where
  "portable_shm_segment_name now pid counter prefix =
     (let prefix_budget = PORTABLE_SHM_SEGMENT_NAME_MAX_LEN - PORTABLE_SHM_SEGMENT_SUFFIX_LEN;
          short_prefix = take prefix_budget (lower_alnum_projection prefix);
          short_prefix = (if short_prefix = [] then ''d'' else short_prefix);
          time_seed = (case now of Some ns \<Rightarrow> of_nat ns | None \<Rightarrow> 0) :: u64;
          pid_seed = (ucast pid :: u64);
          suffix_seed = (time_seed XOR word_rotl 13 pid_seed XOR word_rotl 27 counter)
            mod PORTABLE_SHM_SEGMENT_SUFFIX_MODULUS
      in (short_prefix @ encode_base36 suffix_seed PORTABLE_SHM_SEGMENT_SUFFIX_LEN, counter + 1))"

lemma length_encode_base36 [simp]: "length (encode_base36 v n) = n"
  by (induction n arbitrary: v) simp_all

lemma base36_alphabet:
  assumes "d < 36"
  shows "''0123456789abcdefghijklmnopqrstuvwxyz'' ! d = digit_char d"
proof -
  have "\<forall>d \<in> set [0..<36]. ''0123456789abcdefghijklmnopqrstuvwxyz'' ! d = digit_char d"
    by code_simp
  then show ?thesis using assms by simp
qed

lemma encode_base36_Suc:
  "encode_base36 v (Suc n) = encode_base36 (v div 36) n @ [digit_char (unat v mod 36)]"
  by (simp add: unat_mod base36_alphabet)

declare encode_base36.simps(2) [simp del]

lemma encode_base36_chars: "c \<in> set (encode_base36 v n) \<Longrightarrow> is_lower_alnum c"
  by (induction n arbitrary: v) (auto simp: encode_base36_Suc digit_char_lower_alnum)

lemma read_encode_base36: "read_base 36 (encode_base36 v n) = unat v mod 36 ^ n"
proof (induction n arbitrary: v)
  case (Suc n)
  have "unat v mod 36 ^ Suc n = unat v div 36 mod 36 ^ n * 36 + unat v mod 36"
    by (simp add: mod_mult2_eq)
  with Suc show ?case by (simp add: read_base_def encode_base36_Suc unat_div)
qed (simp add: read_base_def)

text \<open>Generated names. Whatever prefix, clock, process and counter, a generated name has 9 to
  14 characters, only lower-case letters and digits (so \<open>validate_segment_name\<close> accepts it),
  starts with the first six letters and digits of the prefix (or \<open>d\<close>), and reading its last eight characters in
  base 36 gives back the mixed seed modulo \<open>36^8\<close>, so names of the same prefix differ exactly
  when their seeds do.\<close>

theorem portable_name_contract:
  "let name = fst (portable_shm_segment_name now pid counter prefix);
       short = take 6 (lower_alnum_projection prefix);
       seed = (case now of Some ns \<Rightarrow> of_nat ns | None \<Rightarrow> 0) XOR word_rotl 13 (ucast pid) XOR word_rotl 27 counter
   in 9 \<le> length name \<and> length name \<le> 14 \<and> list_all is_lower_alnum name
      \<and> take (length name - 8) name = (if short = [] then ''d'' else short)
      \<and> read_base 36 (drop (length name - 8) name) = unat (seed :: u64) mod 36 ^ 8"
proof -
  let ?short = "take 6 (lower_alnum_projection prefix)"
  let ?p = "if ?short = [] then ''d'' else ?short"
  define seed :: u64 where
    "seed = (case now of Some ns \<Rightarrow> of_nat ns | None \<Rightarrow> 0) XOR word_rotl 13 (ucast pid) XOR word_rotl 27 counter"
  define suffix where "suffix = encode_base36 (seed mod PORTABLE_SHM_SEGMENT_SUFFIX_MODULUS) 8"
  have name: "fst (portable_shm_segment_name now pid counter prefix) = ?p @ suffix"
    by (simp add: portable_shm_segment_name_def PORTABLE_SHM_SEGMENT_NAME_MAX_LEN_def
        PORTABLE_SHM_SEGMENT_SUFFIX_LEN_def suffix_def seed_def)
  have len: "length suffix = 8" by (simp add: suffix_def)
  have p: "1 \<le> length ?p" "length ?p \<le> 6" "list_all is_lower_alnum ?p"
    using digit_char_lower_alnum [of 13] lower_alnum_projection_chars
    by (auto simp: list_all_iff digit_char_def Suc_le_eq is_lower_alnum_def dest!: in_set_takeD)
  have "list_all is_lower_alnum suffix"
    by (auto simp: list_all_iff suffix_def dest: encode_base36_chars)
  moreover have "read_base 36 suffix = unat seed mod 36 ^ 8"
    by (simp add: suffix_def read_encode_base36 unat_mod PORTABLE_SHM_SEGMENT_SUFFIX_MODULUS_def)
  ultimately show ?thesis
    unfolding Let_def name seed_def [symmetric] using p len by simp
qed

section \<open>Names of a transport session\<close>

definition DEFAULT_TRANSPORT_PREFIX :: string where
  "DEFAULT_TRANSPORT_PREFIX = ''vmy''"

definition SEGMENT_NAME_LIMIT_MACOS :: nat where
  "SEGMENT_NAME_LIMIT_MACOS = 14"

definition DEFAULT_MYELON_RPC_DEPTH :: nat where
  "DEFAULT_MYELON_RPC_DEPTH = 1024"

definition DEFAULT_MYELON_RESPONSE_DEPTH :: nat where
  "DEFAULT_MYELON_RESPONSE_DEPTH = 256"

definition DARWIN_SHARED_MEMORY_OBJECT_LIMIT :: nat where
  "DARWIN_SHARED_MEMORY_OBJECT_LIMIT = 31"

definition PRODUCER_SEQUENCE_SUFFIX :: string where
  "PRODUCER_SEQUENCE_SUFFIX = ''_producer_seq''"

datatype transport_error = TransportError string

fun transport_error_display :: "transport_error \<Rightarrow> string" where
  "transport_error_display (TransportError message) = message"

type_synonym 'a transport_result = "transport_error + 'a"

datatype myelon_wait_strategy = MwBusySpin | MwBlock

definition myelon_wait_default :: myelon_wait_strategy where
  "myelon_wait_default = MwBlock"

definition compact_session_tag :: "(string \<Rightarrow> u64) \<Rightarrow> string \<Rightarrow> string" where
  "compact_session_tag hash session_label =
     (let filtered = lower_alnum_projection session_label in
      if 8 \<le> length filtered then drop (length filtered - 8) filtered
      else (let hex = show_base 16 (unat (ucast (hash session_label) :: u32))
            in replicate (8 - length hex) (CHR ''0'') @ hex))"

definition coordination_cursor_name :: "string \<Rightarrow> string" where
  "coordination_cursor_name base_name = base_name @ ''_cr''"

definition validate_segment_name :: "string \<Rightarrow> unit transport_result" where
  "validate_segment_name name =
     (if name = [] then Inl (TransportError ''segment name must not be empty'')
      else if SEGMENT_NAME_LIMIT_MACOS < length name then
        Inl (TransportError (''segment name '' @ quoted name @ '' exceeds conservative macOS limit ''
          @ show_nat SEGMENT_NAME_LIMIT_MACOS))
      else if \<not> list_all is_ascii_alphanumeric name then
        Inl (TransportError (''segment name '' @ quoted name @ '' must be ASCII alphanumeric only''))
      else if DARWIN_SHARED_MEMORY_OBJECT_LIMIT < length (coordination_cursor_name name)
           \<or> DARWIN_SHARED_MEMORY_OBJECT_LIMIT < length (name @ PRODUCER_SEQUENCE_SUFFIX) then
        Inl (TransportError (''segment name '' @ quoted name
          @ '' does not leave enough room for derived shared-memory suffixes on macOS''))
      else Inr ())"

record transport_layout =
  tl_transport_prefix :: string
  tl_session_tag :: string
  tl_rpc_ring_name :: string
  tl_response_ring_names :: "string list"
  tl_rpc_depth :: nat
  tl_response_depth :: nat

text \<open>The loop over the ranks, from \<open>rank\<close> up, \<open>n\<close> of them.\<close>

fun response_names :: "string \<Rightarrow> nat \<Rightarrow> nat \<Rightarrow> string list transport_result" where
  "response_names base rank 0 = Inr []"
| "response_names base rank (Suc n) =
     (let name = base @ ''r'' @ show_base 16 rank in
      bind_result (validate_segment_name name) (\<lambda>_.
      bind_result (response_names base (rank + 1) n) (\<lambda>names. Inr (name # names))))"

definition for_session_with_prefix ::
  "(string \<Rightarrow> u64) \<Rightarrow> string \<Rightarrow> string \<Rightarrow> nat \<Rightarrow> nat \<Rightarrow> nat \<Rightarrow> transport_layout transport_result" where
  "for_session_with_prefix hash transport_prefix session_label runner_count rpc_depth response_depth =
     (if transport_prefix = [] then Inl (TransportError ''transport_prefix must not be empty'')
      else if \<not> list_all is_ascii_alphanumeric transport_prefix then
        Inl (TransportError (''transport_prefix '' @ quoted transport_prefix @ '' must be ASCII alphanumeric only''))
      else if runner_count = 0 then Inl (TransportError ''runner_count must be greater than zero'')
      else if rpc_depth = 0 then Inl (TransportError ''rpc_depth must be greater than zero'')
      else if response_depth = 0 then Inl (TransportError ''response_depth must be greater than zero'')
      else
        (let session_tag = compact_session_tag hash session_label;
             rpc_ring_name = transport_prefix @ session_tag @ ''p'' in
         bind_result (validate_segment_name rpc_ring_name) (\<lambda>_.
         bind_result (response_names (transport_prefix @ session_tag) 0 runner_count) (\<lambda>names.
         Inr \<lparr> tl_transport_prefix = transport_prefix, tl_session_tag = session_tag,
               tl_rpc_ring_name = rpc_ring_name, tl_response_ring_names = names,
               tl_rpc_depth = rpc_depth, tl_response_depth = response_depth \<rparr>))))"

definition for_session ::
  "(string \<Rightarrow> u64) \<Rightarrow> string \<Rightarrow> nat \<Rightarrow> nat \<Rightarrow> nat \<Rightarrow> transport_layout transport_result" where
  "for_session hash session_label runner_count rpc_depth response_depth =
     for_session_with_prefix hash DEFAULT_TRANSPORT_PREFIX session_label runner_count rpc_depth response_depth"

definition runner_count :: "transport_layout \<Rightarrow> nat" where
  "runner_count l = length (tl_response_ring_names l)"

definition response_ring_name :: "transport_layout \<Rightarrow> nat \<Rightarrow> string transport_result" where
  "response_ring_name l rank =
     (if rank < length (tl_response_ring_names l) then Inr (tl_response_ring_names l ! rank)
      else Inl (TransportError (''rank '' @ show_nat rank @ '' is out of range for '' @ show_nat (runner_count l))))"

record runner_transport_config =
  rt_rpc_ring_name :: string
  rt_rpc_depth :: nat
  rt_response_ring_name :: string
  rt_response_depth :: nat
  rt_wait_strategy :: myelon_wait_strategy

record engine_transport_config =
  et_rpc_depth :: nat
  et_response_depth :: nat
  et_wait_strategy :: myelon_wait_strategy

definition for_rank ::
  "transport_layout \<Rightarrow> nat \<Rightarrow> myelon_wait_strategy \<Rightarrow> runner_transport_config transport_result" where
  "for_rank l rank wait_strategy =
     bind_result (response_ring_name l rank) (\<lambda>name.
       Inr \<lparr> rt_rpc_ring_name = tl_rpc_ring_name l, rt_rpc_depth = tl_rpc_depth l,
             rt_response_ring_name = name, rt_response_depth = tl_response_depth l,
             rt_wait_strategy = wait_strategy \<rparr>)"

definition engine_config_new ::
  "nat \<Rightarrow> nat \<Rightarrow> myelon_wait_strategy \<Rightarrow> engine_transport_config transport_result" where
  "engine_config_new rpc_depth response_depth wait_strategy =
     (if rpc_depth = 0 then Inl (TransportError ''myelon_rpc_depth must be greater than zero'')
      else if response_depth = 0 then
        Inl (TransportError ''myelon_response_depth must be greater than zero'')
      else Inr \<lparr> et_rpc_depth = rpc_depth, et_response_depth = response_depth,
                 et_wait_strategy = wait_strategy \<rparr>)"

definition engine_config_resolve ::
  "nat option \<Rightarrow> nat option \<Rightarrow> bool option \<Rightarrow> engine_transport_config transport_result" where
  "engine_config_resolve rpc_depth response_depth busy_spin =
     (let wait_strategy = (if (case busy_spin of Some b \<Rightarrow> b | None \<Rightarrow> False) then MwBusySpin else MwBlock) in
      engine_config_new (case rpc_depth of Some d \<Rightarrow> d | None \<Rightarrow> DEFAULT_MYELON_RPC_DEPTH)
        (case response_depth of Some d \<Rightarrow> d | None \<Rightarrow> DEFAULT_MYELON_RESPONSE_DEPTH) wait_strategy)"

text \<open>The cursor producer-owned startup waits on. \<open>None\<close> is the panic of an empty name, which the
  derived name never is.\<close>

definition ensure_coordination_cursor ::
  "'s shm_os \<Rightarrow> 's \<Rightarrow> string \<Rightarrow> (shared_cursor mp_result \<times> 's) option" where
  "ensure_coordination_cursor os s base_name =
     (let cursor_name = coordination_cursor_name base_name in
      case cursor_new_or_attach os s cursor_name 0 of
        None \<Rightarrow> None
      | Some (Inl error, s1) \<Rightarrow>
          Some (Inl (SharedMemoryError (''failed to create coordination cursor '' @ quoted cursor_name
            @ '': '' @ mp_error_text error)), s1)
      | Some (Inr c, s1) \<Rightarrow> Some (Inr c, s1))"

section \<open>What the names guarantee\<close>

lemma validate_segment_name_ok:
  "validate_segment_name name = Inr () \<longleftrightarrow>
     name \<noteq> [] \<and> length name \<le> 14 \<and> list_all is_ascii_alphanumeric name"
  by (simp add: validate_segment_name_def SEGMENT_NAME_LIMIT_MACOS_def coordination_cursor_name_def
      PRODUCER_SEQUENCE_SUFFIX_def DARWIN_SHARED_MEMORY_OBJECT_LIMIT_def)

lemma tag_shape:
  "length (compact_session_tag hash label) = 8"
  "list_all is_lower_alnum (compact_session_tag hash label)"
proof -
  let ?hex = "show_base 16 (unat (ucast (hash label) :: u32))"
  have "unat (ucast (hash label) :: u32) < 16 ^ 8" using unat_less_exp [of "ucast (hash label) :: u32"] by simp
  then have hex: "length ?hex \<le> 8" by (simp add: length_show_base)
  have "\<forall>c \<in> set ?hex. is_lower_alnum c"
    using show_base_digits [of 16] digit_char_lower_alnum by fastforce
  moreover have "is_lower_alnum (CHR ''0'')" by (simp add: is_lower_alnum_def)
  ultimately show "list_all is_lower_alnum (compact_session_tag hash label)"
    using lower_alnum_projection_chars
    by (auto simp: compact_session_tag_def Let_def list_all_iff dest!: in_set_dropD)
  show "length (compact_session_tag hash label) = 8"
    using hex by (simp add: compact_session_tag_def Let_def)
qed

text \<open>The name of the ring with a role: \<open>None\<close> is the RPC ring, \<open>Some rank\<close> a response ring.\<close>

definition ring_name :: "string \<Rightarrow> nat option \<Rightarrow> string" where
  "ring_name base role = base @ (case role of None \<Rightarrow> ''p'' | Some rank \<Rightarrow> ''r'' @ show_base 16 rank)"

definition session_names :: "transport_layout \<Rightarrow> string list" where
  "session_names l = tl_rpc_ring_name l # tl_response_ring_names l"

lemma hex_chars:
  assumes "c \<in> set (show_base 16 n)"
  shows "is_lower_alnum c" "c \<noteq> CHR ''p''" "c \<noteq> CHR ''r''"
proof -
  obtain d where d: "d < 16" "c = digit_char d" using show_base_digits [OF _ _ assms] by auto
  show "is_lower_alnum c" using d digit_char_lower_alnum [of d] by simp
  have "\<forall>d \<in> set [0..<16]. digit_char d \<noteq> CHR ''p'' \<and> digit_char d \<noteq> CHR ''r''" by code_simp
  then show "c \<noteq> CHR ''p''" "c \<noteq> CHR ''r''" using d by simp_all
qed

lemma show_base_not_Nil [simp]: "show_base b n \<noteq> []"
  by (subst show_base.simps) simp

lemma split_at_last_inject:
  assumes "xs @ x # ys = xs' @ x # ys'" "x \<notin> set ys" "x \<notin> set ys'"
  shows "xs = xs' \<and> ys = ys'"
proof -
  have "takeWhile (\<lambda>y. y \<noteq> x) (rev (us @ x # vs)) = rev vs" if "x \<notin> set vs" for us vs
  proof -
    have "takeWhile (\<lambda>y. y \<noteq> x) (rev vs @ x # rev us) = rev vs @ takeWhile (\<lambda>y. y \<noteq> x) (x # rev us)"
      using that by (intro takeWhile_append2) auto
    then show ?thesis by simp
  qed
  then have "rev ys = rev ys'" using assms by metis
  then show ?thesis using assms(1) by simp
qed

lemma ring_name_inject:
  assumes "length tag = length tag'" "ring_name (prefix @ tag) role = ring_name (prefix' @ tag') role'"
  shows "prefix = prefix' \<and> tag = tag' \<and> role = role'"
proof -
  have not_p: "a @ ''p'' \<noteq> b @ ''r'' @ show_base 16 n" for a b n
  proof
    assume "a @ ''p'' = b @ ''r'' @ show_base 16 n"
    then have "List.last (show_base 16 n) = CHR ''p''" by (metis last_appendR last_snoc show_base_not_Nil append_is_Nil_conv)
    then show False using hex_chars(2) [of "CHR ''p''" n] by (metis last_in_set show_base_not_Nil)
  qed
  have "prefix @ tag = prefix' @ tag' \<and> role = role'"
  proof (cases role; cases role')
    fix r r' assume roles: "role = Some r" "role' = Some r'"
    have "CHR ''r'' \<notin> set (show_base 16 n)" for n using hex_chars(3) by blast
    then have "prefix @ tag = prefix' @ tag' \<and> show_base 16 r = show_base 16 r'"
      using split_at_last_inject [of "prefix @ tag" "CHR ''r''" "show_base 16 r" "prefix' @ tag'"] assms(2) roles
      by (simp add: ring_name_def)
    then show ?thesis using show_base_inject [of 16 r r'] roles by simp
  qed (use assms(2) not_p [of "prefix @ tag" "prefix' @ tag'"] not_p [of "prefix' @ tag'" "prefix @ tag"]
      in \<open>auto simp: ring_name_def dest: sym\<close>)
  then show ?thesis using assms(1) by simp
qed

lemma response_names_ok:
  "response_names base k n = Inr names \<longleftrightarrow>
     names = map (\<lambda>r. ring_name base (Some r)) [k..<k + n]
     \<and> (\<forall>r \<in> {k..<k + n}. validate_segment_name (ring_name base (Some r)) = Inr ())"
proof (induction n arbitrary: k names)
  case (Suc n)
  have range: "{k..<k + Suc n} = insert k {k + 1..<k + 1 + n}" by auto
  have upto: "[k..<k + Suc n] = k # [k + 1..<k + 1 + n]" by (simp add: upt_rec)
  show ?case
    unfolding range upto using Suc [of "k + 1"]
    by (auto simp: Let_def bind_result_eq_Inr ring_name_def)
qed auto

text \<open>The layout a session gets when it gets one.\<close>

definition session_layout :: "(string \<Rightarrow> u64) \<Rightarrow> string \<Rightarrow> string \<Rightarrow> nat \<Rightarrow> nat \<Rightarrow> nat \<Rightarrow> transport_layout" where
  "session_layout hash prefix label n rpc response =
     (let tag = compact_session_tag hash label in
      \<lparr> tl_transport_prefix = prefix, tl_session_tag = tag, tl_rpc_ring_name = ring_name (prefix @ tag) None,
        tl_response_ring_names = map (\<lambda>r. ring_name (prefix @ tag) (Some r)) [0..<n],
        tl_rpc_depth = rpc, tl_response_depth = response \<rparr>)"

lemma for_session_accepts:
  "for_session_with_prefix hash prefix label n rpc response = Inr l \<longleftrightarrow>
     prefix \<noteq> [] \<and> 0 < n \<and> 0 < rpc \<and> 0 < response \<and> list_all is_ascii_alphanumeric prefix
     \<and> (\<forall>role \<in> set (None # map Some [0..<n]).
          validate_segment_name (ring_name (prefix @ compact_session_tag hash label) role) = Inr ())
     \<and> l = session_layout hash prefix label n rpc response"
  unfolding for_session_with_prefix_def Let_def session_layout_def
  using response_names_ok [of "prefix @ compact_session_tag hash label" 0 n]
  by (auto simp: bind_result_eq_Inr ring_name_def [of _ None])

lemma for_session_with_prefix_iff:
  "for_session_with_prefix hash prefix label n rpc response = Inr l \<longleftrightarrow>
     prefix \<noteq> [] \<and> list_all is_ascii_alphanumeric prefix \<and> length prefix \<le> 4
     \<and> 0 < n \<and> n \<le> 16 ^ (5 - length prefix) \<and> 0 < rpc \<and> 0 < response
     \<and> l = session_layout hash prefix label n rpc response"
proof -
  let ?base = "prefix @ compact_session_tag hash label"
  have alnum: "list_all is_ascii_alphanumeric (compact_session_tag hash label)"
    "list_all is_ascii_alphanumeric (show_base 16 r)" for r
    using tag_shape(2) [of hash label] hex_chars(1)
    by (auto simp: list_all_iff intro: lower_alnum_is_alnum)
  have letters: "is_ascii_alphanumeric (CHR ''p'')" "is_ascii_alphanumeric (CHR ''r'')"
    by (simp_all add: is_ascii_alphanumeric_def)
  have rpc: "validate_segment_name (ring_name ?base None) = Inr () \<longleftrightarrow>
      length prefix \<le> 5 \<and> list_all is_ascii_alphanumeric prefix"
    by (auto simp: validate_segment_name_ok ring_name_def alnum letters tag_shape(1))
  have response: "validate_segment_name (ring_name ?base (Some r)) = Inr () \<longleftrightarrow>
      length prefix + length (show_base 16 r) \<le> 5 \<and> list_all is_ascii_alphanumeric prefix" for r
    by (auto simp: validate_segment_name_ok ring_name_def alnum letters tag_shape(1))
  have fits: "length prefix + length (show_base 16 r) \<le> 5 \<longleftrightarrow> length prefix \<le> 4 \<and> r < 16 ^ (5 - length prefix)" for r
  proof (cases "length prefix \<le> 4")
    case True
    then show ?thesis using length_show_base [of 16 "5 - length prefix" r] by (simp add: le_diff_conv2 add.commute)
  next
    case False
    have "0 < length (show_base 16 r)" by simp
    with False show ?thesis by linarith
  qed
  have all: "(\<forall>r \<in> {0..<n}. length prefix + length (show_base 16 r) \<le> 5) \<longleftrightarrow>
      length prefix \<le> 4 \<and> n \<le> 16 ^ (5 - length prefix)" if "0 < n"
  proof -
    have "(\<forall>r \<in> {0..<n}. P \<and> r < m) \<longleftrightarrow> P \<and> n \<le> m" for P m
    proof
      assume "\<forall>r \<in> {0..<n}. P \<and> r < m"
      then have "P \<and> n - 1 < m" using \<open>0 < n\<close> by simp
      then show "P \<and> n \<le> m" using \<open>0 < n\<close> by arith
    qed auto
    then show ?thesis by (simp only: fits)
  qed
  show ?thesis
    unfolding for_session_accepts using all by (auto simp: rpc response)
qed

text \<open>C35. Which sessions have a layout. \<open>for_session_with_prefix\<close> succeeds exactly for a non-empty
  ASCII alphanumeric prefix of at most four characters, positive depths and between 1 and
  \<open>16 ^ (5 - |prefix|)\<close> runners, that is 256 runners for \<open>for_session\<close>; the layout then holds the RPC ring and
  one response ring per rank, named after prefix, tag and rank, and \<open>for_rank\<close> gives each rank its own.\<close>

theorem session_layout_outcome:
  "(for_session_with_prefix hash prefix label n rpc response = Inr l \<longleftrightarrow>
     prefix \<noteq> [] \<and> list_all is_ascii_alphanumeric prefix \<and> length prefix \<le> 4
     \<and> 0 < n \<and> n \<le> 16 ^ (5 - length prefix) \<and> 0 < rpc \<and> 0 < response
     \<and> l = session_layout hash prefix label n rpc response)
   \<and> ((\<exists>l. for_session hash label n rpc response = Inr l) \<longleftrightarrow> 0 < n \<and> n \<le> 256 \<and> 0 < rpc \<and> 0 < response)
   \<and> (case for_rank (session_layout hash prefix label n rpc response) rank w of
        Inl _ \<Rightarrow> n \<le> rank
      | Inr c \<Rightarrow> rank < n \<and> rt_rpc_depth c = rpc \<and> rt_response_depth c = response \<and> rt_wait_strategy c = w
          \<and> rt_rpc_ring_name c = ring_name (prefix @ compact_session_tag hash label) None
          \<and> rt_response_ring_name c = ring_name (prefix @ compact_session_tag hash label) (Some rank))"
proof (intro conjI)
  have "list_all is_ascii_alphanumeric ''vmy''" by code_simp
  then show "(\<exists>l. for_session hash label n rpc response = Inr l) \<longleftrightarrow> 0 < n \<and> n \<le> 256 \<and> 0 < rpc \<and> 0 < response"
    by (simp add: for_session_def for_session_with_prefix_iff DEFAULT_TRANSPORT_PREFIX_def conj_ac)
qed (rule for_session_with_prefix_iff, simp add: for_rank_def response_ring_name_def session_layout_def Let_def not_less)

lemma session_names_layout:
  "session_names (session_layout hash prefix label n rpc response) =
     map (ring_name (prefix @ compact_session_tag hash label)) (None # map Some [0..<n])"
  by (simp add: session_names_def session_layout_def Let_def)

text \<open>C34. Sessions do not collide. The names of a layout are distinct and accepted by
  \<open>validate_segment_name\<close>, and two layouts, of whatever prefixes and labels, share a name only
  if they have the same prefix and the same session tag.\<close>

theorem session_names_distinct:
  assumes "for_session_with_prefix hash prefix label n rpc response = Inr l"
    and "for_session_with_prefix hash' prefix' label' n' rpc' response' = Inr l'"
  shows "distinct (session_names l)
     \<and> (\<forall>name \<in> set (session_names l). validate_segment_name name = Inr ())
     \<and> (set (session_names l) \<inter> set (session_names l') \<noteq> {} \<longrightarrow>
          prefix = prefix' \<and> tl_session_tag l = tl_session_tag l')"
proof (intro conjI impI)
  let ?tag = "compact_session_tag hash label" and ?tag' = "compact_session_tag hash' label'"
  have l: "l = session_layout hash prefix label n rpc response"
    and l': "l' = session_layout hash' prefix' label' n' rpc' response'"
    using assms by (simp_all add: for_session_accepts)
  note names = session_names_layout
  have "inj (ring_name (prefix @ ?tag))" using ring_name_inject by (metis injI)
  then show "distinct (session_names l)"
    unfolding l names by (auto simp: distinct_map inj_on_def)
  show "\<forall>name \<in> set (session_names l). validate_segment_name name = Inr ()"
    using assms(1) unfolding l names
    by (auto simp: for_session_accepts)
  assume "set (session_names l) \<inter> set (session_names l') \<noteq> {}"
  then obtain role role' where "ring_name (prefix @ ?tag) role = ring_name (prefix' @ ?tag') role'"
    unfolding l l' names by (auto dest: sym)
  then have "prefix = prefix' \<and> ?tag = ?tag'"
    using ring_name_inject [of ?tag ?tag'] tag_shape(1) by metis
  then show "prefix = prefix'" "tl_session_tag l = tl_session_tag l'"
    unfolding l l' by (simp_all add: session_layout_def Let_def)
qed

theorem session_names_distinct_witness:
  "\<exists>l l'. for_session_with_prefix (\<lambda>_. 48879) ''vmy'' ''a'' 2 8 8 = Inr l
     \<and> for_session_with_prefix (\<lambda>_. 48879) ''v'' ''run-2024-0001'' 300 8 8 = Inr l'
     \<and> distinct (session_names l) \<and> tl_session_tag l = ''0000beef'' \<and> tl_session_tag l' = ''20240001''"
proof -
  let ?hash = "\<lambda>_. 48879 :: u64"
  have alnum: "list_all is_ascii_alphanumeric ''vmy''" "list_all is_ascii_alphanumeric ''v''" by code_simp+
  have l: "for_session_with_prefix ?hash ''vmy'' ''a'' 2 8 8 = Inr (session_layout ?hash ''vmy'' ''a'' 2 8 8)"
    "for_session_with_prefix ?hash ''v'' ''run-2024-0001'' 300 8 8
       = Inr (session_layout ?hash ''v'' ''run-2024-0001'' 300 8 8)"
    using alnum by (simp_all add: for_session_with_prefix_iff)
  have hex: "char_of (98 :: nat) = CHR ''b''" "char_of (101 :: nat) = CHR ''e''" "char_of (102 :: nat) = CHR ''f''"
    "replicate 4 (CHR ''0'') = ''0000''" by code_simp+
  have "compact_session_tag ?hash ''a'' = ''0000beef''" "compact_session_tag ?hash ''run-2024-0001'' = ''20240001''"
    by (simp_all add: compact_session_tag_def lower_alnum_projection_def is_ascii_alphanumeric_def
        to_ascii_lowercase_def show_base.simps digit_char_def Let_def hex)
  with session_names_distinct [OF l] l show ?thesis
    by (auto simp: session_layout_def Let_def)
qed

section \<open>File layout of the mmap transport\<close>

definition RING_SUFFIX :: string where
  "RING_SUFFIX = ''.ring''"

definition PRODUCER_CURSOR_SUFFIX :: string where
  "PRODUCER_CURSOR_SUFFIX = ''.producer.cursor''"

definition READINESS_CURSOR_SUFFIX :: string where
  "READINESS_CURSOR_SUFFIX = ''.ready.cursor''"

definition CONSUMERS_DIR_SUFFIX :: string where
  "CONSUMERS_DIR_SUFFIX = ''.consumers''"

definition CONSUMER_CURSOR_SUFFIX :: string where
  "CONSUMER_CURSOR_SUFFIX = ''.cursor''"

record mmap_transport_layout =
  ml_root_dir :: path
  ml_segment_name :: string
  ml_ring_path :: path
  ml_producer_cursor_path :: path
  ml_readiness_cursor_path :: path
  ml_consumers_dir :: path

definition validate_component :: "string \<Rightarrow> string \<Rightarrow> unit mp_result" where
  "validate_component label value =
     (if value = [] then Inl (SharedMemoryError (label @ '' must not be empty''))
      else if list_ex (\<lambda>byte. byte = CHR ''/'' \<or> byte = CHR 0x5C \<or> byte = CHR 0x00) value then
        Inl (SharedMemoryError (label @ '' must not contain path separators or NUL bytes''))
      else if list_all (\<lambda>byte. is_ascii_alphanumeric byte \<or> byte = CHR ''_'' \<or> byte = CHR ''-'') value
      then Inr ()
      else Inl (SharedMemoryError (label @ '' must use only ASCII letters, digits, ''
             @ quoted ''_'' @ '' or '' @ quoted ''-'')))"

definition mmap_layout_new :: "path \<Rightarrow> string \<Rightarrow> mmap_transport_layout mp_result" where
  "mmap_layout_new root_dir segment_name =
     (if path_is_empty root_dir then Inl (SharedMemoryError ''mmap root directory must not be empty'')
      else bind_result (validate_component ''segment_name'' segment_name) (\<lambda>_.
        Inr \<lparr> ml_root_dir = root_dir, ml_segment_name = segment_name,
              ml_ring_path = path_join root_dir (segment_name @ RING_SUFFIX),
              ml_producer_cursor_path = path_join root_dir (segment_name @ PRODUCER_CURSOR_SUFFIX),
              ml_readiness_cursor_path = path_join root_dir (segment_name @ READINESS_CURSOR_SUFFIX),
              ml_consumers_dir = path_join root_dir (segment_name @ CONSUMERS_DIR_SUFFIX) \<rparr>))"

definition ensure_directories ::
  "'s mmap_fs \<Rightarrow> 's \<Rightarrow> mmap_transport_layout \<Rightarrow> unit mp_result \<times> 's" where
  "ensure_directories fs s l =
     (case fs_create_dir_all fs s (ml_root_dir l) of
        (Inl error, s1) \<Rightarrow> (Inl (SharedMemoryError error), s1)
      | (Inr _, s1) \<Rightarrow>
          (case fs_create_dir_all fs s1 (ml_consumers_dir l) of
             (Inl error, s2) \<Rightarrow> (Inl (SharedMemoryError error), s2)
           | (Inr _, s2) \<Rightarrow> (Inr (), s2)))"

definition ring_config :: "mmap_transport_layout \<Rightarrow> nat \<Rightarrow> nat \<Rightarrow> bool \<Rightarrow> mmap_file_config" where
  "ring_config l buffer_size element_size create =
     \<lparr> mfc_path = ml_ring_path l, mfc_buffer_size = buffer_size, mfc_element_size = element_size,
       mfc_create = create \<rparr>"

definition producer_cursor_config :: "mmap_transport_layout \<Rightarrow> bool \<Rightarrow> mmap_cursor_config" where
  "producer_cursor_config l create = \<lparr> mcc_path = ml_producer_cursor_path l, mcc_create = create \<rparr>"

definition readiness_cursor_config :: "mmap_transport_layout \<Rightarrow> bool \<Rightarrow> mmap_cursor_config" where
  "readiness_cursor_config l create = \<lparr> mcc_path = ml_readiness_cursor_path l, mcc_create = create \<rparr>"

definition consumer_cursor_path :: "mmap_transport_layout \<Rightarrow> string \<Rightarrow> path mp_result" where
  "consumer_cursor_path l consumer_id =
     bind_result (validate_component ''consumer_id'' consumer_id) (\<lambda>_.
       Inr (path_join (ml_consumers_dir l) (consumer_id @ CONSUMER_CURSOR_SUFFIX)))"

definition consumer_cursor_config ::
  "mmap_transport_layout \<Rightarrow> string \<Rightarrow> bool \<Rightarrow> mmap_cursor_config mp_result" where
  "consumer_cursor_config l consumer_id create =
     bind_result (consumer_cursor_path l consumer_id) (\<lambda>p. Inr \<lparr> mcc_path = p, mcc_create = create \<rparr>)"

definition rpc_mmap_layout :: "transport_layout \<Rightarrow> path \<Rightarrow> mmap_transport_layout mp_result" where
  "rpc_mmap_layout l root_dir = mmap_layout_new root_dir (tl_rpc_ring_name l)"

definition response_mmap_layout ::
  "transport_layout \<Rightarrow> path \<Rightarrow> nat \<Rightarrow> mmap_transport_layout mp_result" where
  "response_mmap_layout l root_dir rank =
     (case response_ring_name l rank of
        Inl error \<Rightarrow> Inl (SharedMemoryError (transport_error_display error))
      | Inr name \<Rightarrow> mmap_layout_new root_dir name)"

lemma validate_component_ok:
  "validate_component label v = Inr () \<longleftrightarrow>
     v \<noteq> [] \<and> list_all (\<lambda>c. is_ascii_alphanumeric c \<or> c = CHR ''_'' \<or> c = CHR ''-'') v"
  by (auto simp: validate_component_def list_all_iff list_ex_iff is_ascii_alphanumeric_def)

lemma component_split:
  assumes "validate_component label a = Inr ()" "validate_component label' b = Inr ()"
    and "a @ CHR ''.'' # xs = b @ CHR ''.'' # ys"
  shows "a = b \<and> xs = ys"
proof -
  have "CHR ''.'' \<notin> set a" "CHR ''.'' \<notin> set b"
    using assms(1,2) by (auto simp: validate_component_ok list_all_iff is_ascii_alphanumeric_def)
  then show ?thesis
    using split_at_last_inject [of "rev xs" "CHR ''.''" "rev a" "rev ys" "rev b"] arg_cong [OF assms(3), of rev]
    by simp
qed

lemma path_join_inject [simp]: "path_join p a = path_join p b \<longleftrightarrow> a = b"
  by (cases p) (simp add: path_join_def)

lemma path_join_twice_inject [simp]:
  "path_join (path_join p a) x = path_join (path_join p b) y \<longleftrightarrow> a = b \<and> x = y"
  by (cases p) (simp add: path_join_def)

text \<open>The files of a layout that do not belong to a consumer.\<close>

definition layout_files :: "mmap_transport_layout \<Rightarrow> path list" where
  "layout_files l = [ml_ring_path l, ml_producer_cursor_path l, ml_readiness_cursor_path l, ml_consumers_dir l]"

lemma mmap_layout_files:
  assumes "mmap_layout_new root a = Inr l"
  shows "validate_component ''segment_name'' a = Inr ()"
    and "ml_consumers_dir l = path_join root (a @ CHR ''.'' # ''consumers'')"
    and "layout_files l = map (\<lambda>suffix. path_join root (a @ CHR ''.'' # suffix))
           [''ring'', ''producer.cursor'', ''ready.cursor'', ''consumers'']"
  using assms
  by (auto simp: mmap_layout_new_def bind_result_eq_Inr layout_files_def RING_SUFFIX_def
      PRODUCER_CURSOR_SUFFIX_def READINESS_CURSOR_SUFFIX_def CONSUMERS_DIR_SUFFIX_def split: if_splits)

text \<open>Files do not collide. Two transports under one root with different segment names share no file, the files
  of one transport are distinct, all lie directly in the root, consumer cursors lie in the
  consumers directory, and different consumer ids or segments give different cursor files.\<close>

theorem mmap_files_distinct:
  assumes "mmap_layout_new root a = Inr l" "mmap_layout_new root b = Inr l'"
    and "consumer_cursor_path l i = Inr p" "consumer_cursor_path l' j = Inr q"
  shows "distinct (layout_files l)
     \<and> (\<forall>f \<in> set (layout_files l). path_parent f = Some root)
     \<and> path_parent p = Some (ml_consumers_dir l)
     \<and> p \<notin> set (layout_files l')
     \<and> (a \<noteq> b \<longrightarrow> set (layout_files l) \<inter> set (layout_files l') = {})
     \<and> (p = q \<longrightarrow> a = b \<and> i = j)"
proof -
  note a = mmap_layout_files [OF assms(1)] and b = mmap_layout_files [OF assms(2)]
  have p: "p = path_join (path_join root (a @ CHR ''.'' # ''consumers'')) (i @ CHR ''.'' # ''cursor'')"
    and i: "validate_component ''consumer_id'' i = Inr ()"
    and q: "q = path_join (path_join root (b @ CHR ''.'' # ''consumers'')) (j @ CHR ''.'' # ''cursor'')"
    and j: "validate_component ''consumer_id'' j = Inr ()"
    using assms(3,4) a(2) b(2)
    by (auto simp: consumer_cursor_path_def bind_result_eq_Inr CONSUMER_CURSOR_SUFFIX_def)
  note same = component_split [OF a(1) b(1)] component_split [OF i j]
  have "a = b \<and> i = j" if "p = q"
  proof -
    have "a @ CHR ''.'' # ''consumers'' = b @ CHR ''.'' # ''consumers''" "i @ CHR ''.'' # ''cursor'' = j @ CHR ''.'' # ''cursor''"
      using that unfolding p q by simp_all
    then show ?thesis using same by blast
  qed
  moreover have "set (layout_files l) \<inter> set (layout_files l') = {}" if "a \<noteq> b"
  proof -
    have "a @ CHR ''.'' # xs \<noteq> b @ CHR ''.'' # ys" for xs ys using same(1) that by blast
    then have "path_join root (a @ CHR ''.'' # xs) \<noteq> path_join root (b @ CHR ''.'' # ys)" for xs ys by simp
    then show ?thesis unfolding a(3) b(3) by auto
  qed
  moreover have "p \<noteq> path_join root (b @ CHR ''.'' # xs)" for xs
    unfolding p by (cases root) (simp add: path_join_def)
  then have "p \<notin> set (layout_files l')" unfolding b(3) by auto
  moreover have "path_parent (path_join r x) = Some r" for r x
    by (simp add: path_join_def path_parent_def)
  then have "(\<forall>f \<in> set (layout_files l). path_parent f = Some root) \<and> path_parent p = Some (ml_consumers_dir l)"
    unfolding a(2,3) p by simp
  moreover have "distinct (layout_files l)" unfolding a(3) by simp
  ultimately show ?thesis by blast
qed

theorem mmap_files_distinct_witness:
  "\<exists>l p q. mmap_layout_new \<lparr> path_absolute = True, path_components = [''tmp''] \<rparr> ''q'' = Inr l
     \<and> consumer_cursor_path l ''c1'' = Inr p \<and> consumer_cursor_path l ''c2'' = Inr q
     \<and> p \<noteq> q \<and> p \<notin> set (layout_files l)"
proof -
  let ?root = "\<lparr> path_absolute = True, path_components = [''tmp''] \<rparr>"
  have ids: "validate_component ''segment_name'' ''q'' = Inr ()" "validate_component ''consumer_id'' ''c1'' = Inr ()"
    "validate_component ''consumer_id'' ''c2'' = Inr ()" by code_simp+
  then obtain l p q where l: "mmap_layout_new ?root ''q'' = Inr l"
    and p: "consumer_cursor_path l ''c1'' = Inr p" and q: "consumer_cursor_path l ''c2'' = Inr q"
    by (simp add: mmap_layout_new_def consumer_cursor_path_def path_is_empty_def)
  from mmap_files_distinct [OF l l p q] l p q show ?thesis by auto
qed

end
