(* ===== verification/Waits.thy ===== *)
theory Waits
  imports Complex_Main Config
begin

text \<open>
  Environment parsing and wait policies: \<open>disruptor-mp/src/env.rs\<close> and
  \<open>disruptor-mp/src/runtime/wait.rs\<close>. The process environment is a map from variable names
  to their values; durations are nanoseconds. The one \<open>f64\<close> of the configuration is a
  rational number, without the rounding of the floating-point format.
\<close>

section \<open>Reading the environment\<close>

type_synonym environment = "string \<Rightarrow> string option"

definition is_digit :: "char \<Rightarrow> bool" where
  "is_digit c \<longleftrightarrow> 48 \<le> (of_char c :: nat) \<and> (of_char c :: nat) \<le> 57"

text \<open>\<open>u64::from_str\<close>: decimal digits after an optional plus sign, within range.\<close>

definition parse_u64 :: "string \<Rightarrow> nat option" where
  "parse_u64 raw =
     (let digits = (case raw of c # cs \<Rightarrow> if c = CHR ''+'' then cs else raw | [] \<Rightarrow> []) in
      if digits = [] \<or> \<not> list_all is_digit digits then None
      else let n = read_base 10 digits in if n \<le> usize_max then Some n else None)"

definition env_required :: "environment \<Rightarrow> string \<Rightarrow> string option" where
  "env_required env key = env key"

definition env_optional :: "environment \<Rightarrow> string \<Rightarrow> string option" where
  "env_optional env key = env key"

definition env_string_or :: "environment \<Rightarrow> string \<Rightarrow> string \<Rightarrow> string" where
  "env_string_or env key fallback = (case env key of None \<Rightarrow> fallback | Some raw \<Rightarrow> raw)"

definition env_parse :: "(string \<Rightarrow> 'a option) \<Rightarrow> environment \<Rightarrow> string \<Rightarrow> 'a option" where
  "env_parse from_str env key = (case env key of None \<Rightarrow> None | Some raw \<Rightarrow> from_str raw)"

definition env_parse_required :: "(string \<Rightarrow> 'a option) \<Rightarrow> environment \<Rightarrow> string \<Rightarrow> 'a option" where
  "env_parse_required from_str env key =
     (case env_required env key of None \<Rightarrow> None | Some raw \<Rightarrow> from_str raw)"

definition env_parse_or :: "(string \<Rightarrow> 'a option) \<Rightarrow> environment \<Rightarrow> string \<Rightarrow> 'a \<Rightarrow> 'a" where
  "env_parse_or from_str env key fallback =
     (case env_parse from_str env key of None \<Rightarrow> fallback | Some x \<Rightarrow> x)"

definition env_flag :: "environment \<Rightarrow> string \<Rightarrow> bool" where
  "env_flag env key =
     (case env key of
        None \<Rightarrow> False
      | Some raw \<Rightarrow> raw \<in> set [''1'', ''true'', ''TRUE'', ''yes'', ''YES'', ''on'', ''ON''])"

section \<open>The sleep configuration\<close>

record sleep_config =
  sl_shutdown_grace_ms :: nat
  sl_block_strategy_ms :: rat
  sl_discovery_poll_ms :: nat
  sl_consume_sleep_us :: nat
  sl_sleep_yield_threshold_us :: nat
  sl_consumer_busy_wait_us :: nat

definition sleep_config_default :: sleep_config where
  "sleep_config_default =
     \<lparr> sl_shutdown_grace_ms = 10, sl_block_strategy_ms = 1 / 100, sl_discovery_poll_ms = 10,
       sl_consume_sleep_us = 1, sl_sleep_yield_threshold_us = 50, sl_consumer_busy_wait_us = 10 \<rparr>"

text \<open>\<open>from_env\<close>, with the parser of \<open>f64\<close> as a parameter.\<close>

definition sleep_config_from_env :: "(string \<Rightarrow> rat option) \<Rightarrow> environment \<Rightarrow> sleep_config" where
  "sleep_config_from_env parse_f64 env =
     (let u64 = (\<lambda>key fallback. env_parse_or parse_u64 env key fallback);
          d = sleep_config_default in
      \<lparr> sl_shutdown_grace_ms = u64 ''MYELON_SHUTDOWN_GRACE_MS'' (sl_shutdown_grace_ms d),
        sl_block_strategy_ms =
          (case env_parse parse_u64 env ''MYELON_BLOCK_STRATEGY_US'' of
             Some us \<Rightarrow> of_nat us / 1000
           | None \<Rightarrow>
               (case env_parse parse_f64 env ''MYELON_BLOCK_STRATEGY_MS'' of
                  Some ms \<Rightarrow> if ms \<ge> 0 then ms else sl_block_strategy_ms d
                | None \<Rightarrow> sl_block_strategy_ms d)),
        sl_discovery_poll_ms = u64 ''MYELON_DISCOVERY_POLL_MS'' (sl_discovery_poll_ms d),
        sl_consume_sleep_us = u64 ''MYELON_CONSUME_SLEEP_US'' (sl_consume_sleep_us d),
        sl_sleep_yield_threshold_us =
          u64 ''MYELON_SLEEP_YIELD_THRESHOLD_US'' (sl_sleep_yield_threshold_us d),
        sl_consumer_busy_wait_us =
          u64 ''MYELON_CONSUMER_BUSY_WAIT_US'' (sl_consumer_busy_wait_us d) \<rparr>)"

definition from_millis :: "nat \<Rightarrow> nat" where
  "from_millis ms = ms * 1000000"

definition from_micros :: "nat \<Rightarrow> nat" where
  "from_micros us = us * 1000"

definition from_secs :: "nat \<Rightarrow> nat" where
  "from_secs s = s * 1000000000"

text \<open>The saturating cast of a non-negative \<open>f64\<close> to \<open>u64\<close>.\<close>

definition rat_as_u64 :: "rat \<Rightarrow> nat" where
  "rat_as_u64 x = min usize_max (nat \<lfloor>x\<rfloor>)"

definition shutdown_grace_duration :: "sleep_config \<Rightarrow> nat" where
  "shutdown_grace_duration c = from_millis (sl_shutdown_grace_ms c)"

definition block_strategy_duration :: "sleep_config \<Rightarrow> nat" where
  "block_strategy_duration c =
     (let millis = rat_as_u64 (sl_block_strategy_ms c * 1000);
          nanos = rat_as_u64 (sl_block_strategy_ms c * 1000000) mod 1000000 in
      from_millis (millis div 1000) + nanos)"

definition discovery_poll_duration :: "sleep_config \<Rightarrow> nat" where
  "discovery_poll_duration c = from_millis (sl_discovery_poll_ms c)"

definition consume_sleep_duration :: "sleep_config \<Rightarrow> nat" where
  "consume_sleep_duration c = from_micros (sl_consume_sleep_us c)"

datatype wait_action = SpinLoopHint | YieldNow | SleepFor nat

definition sleep_or_yield :: "sleep_config \<Rightarrow> nat \<Rightarrow> wait_action" where
  "sleep_or_yield c duration =
     (if duration \<le> from_micros (sl_sleep_yield_threshold_us c) then YieldNow else SleepFor duration)"

definition perform_default_block_wait :: "sleep_config \<Rightarrow> wait_action" where
  "perform_default_block_wait c = sleep_or_yield c (block_strategy_duration c)"

definition perform_default_consume_sleep_wait :: "sleep_config \<Rightarrow> wait_action" where
  "perform_default_consume_sleep_wait c = sleep_or_yield c (consume_sleep_duration c)"

definition perform_default_discovery_poll_wait :: "sleep_config \<Rightarrow> wait_action" where
  "perform_default_discovery_poll_wait c = sleep_or_yield c (discovery_poll_duration c)"

section \<open>Properties\<close>

lemma le_div_iff_mult_le_int: "0 < k \<Longrightarrow> (a :: int) \<le> m div k \<longleftrightarrow> a * k \<le> m"
  using pos_imp_zdiv_nonneg_iff [of k "m - a * k"] div_mult_self1 [of k "m - a * k" a]
  by (simp add: algebra_simps)

lemma div_less_iff_less_mult_int: "0 < k \<Longrightarrow> m div k < (a :: int) \<longleftrightarrow> m < a * k"
  using le_div_iff_mult_le_int [of k a m] by (simp flip: not_le)

lemma floor_scale:
  fixes x :: rat
  assumes "0 < k"
  shows "\<lfloor>x * of_int k\<rfloor> div k = \<lfloor>x\<rfloor>"
proof -
  let ?m = "\<lfloor>x * of_int k\<rfloor>"
  have "of_int ?m \<le> x * of_int k" "x * of_int k < of_int (?m + 1)"
    using floor_correct [of "x * of_int k"] by simp_all
  moreover have "\<lfloor>x\<rfloor> * k \<le> ?m"
    using assms by (subst le_floor_iff) (simp add: mult_right_mono)
  moreover have "?m < (\<lfloor>x\<rfloor> + 1) * k"
  proof -
    have "x < of_int (\<lfloor>x\<rfloor> + 1)" using floor_correct [of x] by simp
    then have "x * of_int k < of_int (\<lfloor>x\<rfloor> + 1) * of_int k"
      using assms by (intro mult_strict_right_mono) simp_all
    then show ?thesis by (subst floor_less_iff) simp
  qed
  ultimately have "\<lfloor>x\<rfloor> \<le> ?m div k" "?m div k < \<lfloor>x\<rfloor> + 1"
    using le_div_iff_mult_le_int [OF assms] div_less_iff_less_mult_int [OF assms] by blast+
  then show ?thesis by linarith
qed

text \<open>The block backoff. The two-part arithmetic of \<open>block_strategy_duration\<close> yields the
  configured milliseconds in nanoseconds, rounded down, for every configuration below the
  saturation of \<open>u64\<close>.\<close>

theorem block_strategy_duration_exact:
  assumes "0 \<le> sl_block_strategy_ms c" "sl_block_strategy_ms c * 1000000 \<le> of_nat usize_max"
  shows "block_strategy_duration c = nat \<lfloor>sl_block_strategy_ms c * 1000000\<rfloor>"
proof -
  let ?x = "sl_block_strategy_ms c"
  have sat: "rat_as_u64 y = nat \<lfloor>y\<rfloor>" if "y \<le> of_nat usize_max" for y
  proof -
    have "\<lfloor>y\<rfloor> \<le> int usize_max" using that by (metis floor_mono floor_of_nat)
    then show ?thesis by (simp add: rat_as_u64_def)
  qed
  have "?x * 1000 \<le> ?x * 1000000" using assms(1) by (intro mult_left_mono) simp_all
  then have "rat_as_u64 (?x * 1000) div 1000 = nat (\<lfloor>?x * 1000\<rfloor> div 1000)"
    using assms sat by (simp add: nat_div_distrib)
  also have "\<dots> = nat (\<lfloor>?x * 1000000\<rfloor> div 1000000)"
    using floor_scale [of 1000 ?x] floor_scale [of 1000000 ?x] by simp
  also have "\<dots> = nat \<lfloor>?x * 1000000\<rfloor> div 1000000"
    using assms(1) by (simp add: nat_div_distrib)
  finally show ?thesis
    using assms sat by (simp add: block_strategy_duration_def from_millis_def Let_def)
qed

theorem block_strategy_duration_exact_witness:
  "block_strategy_duration sleep_config_default = 10000
   \<and> perform_default_block_wait sleep_config_default = YieldNow"
proof -
  have "block_strategy_duration sleep_config_default = 10000"
    using block_strategy_duration_exact [of sleep_config_default]
    by (simp add: sleep_config_default_def usize_max_def)
  then show ?thesis
    by (simp add: perform_default_block_wait_def sleep_or_yield_def from_micros_def
        sleep_config_default_def)
qed

lemma show_nat_digits: "list_all is_digit (show_nat n)"
proof (induction "10::nat" n rule: show_base.induct)
  case (1 n)
  then show ?case
    by (subst show_base.simps) (auto simp: is_digit_def digit_char_def)
qed

lemma show_nat_not_empty: "show_nat n \<noteq> []"
  by (subst show_base.simps) simp

lemma parse_show_nat: "n \<le> usize_max \<Longrightarrow> parse_u64 (show_nat n) = Some n"
proof -
  assume n: "n \<le> usize_max"
  obtain c cs where eq: "show_nat n = c # cs" using show_nat_not_empty by (cases "show_nat n") auto
  then have "is_digit c" using show_nat_digits [of n] by simp
  then have "c \<noteq> CHR ''+''" by (auto simp: is_digit_def)
  moreover have "read_base 10 (c # cs) = n" using read_show_base [of 10 n] eq by simp
  moreover have "list_all is_digit (c # cs)" using show_nat_digits [of n] eq by simp
  ultimately show ?thesis using n eq by (simp add: parse_u64_def Let_def)
qed

end
