(* ===== verification/Barrier.thy ===== *)
theory Barrier
  imports Waits
begin

text \<open>
  The consumer barrier of the shared-memory backend
  (\<open>disruptor-mp/src/lock_free/consumer_barrier.rs\<close>): discovery of consumer cursors by name,
  the minimum of their sequences that gates the producer, and the start-up waits. At this
  level a cursor is a memory cell; which names can be attached is part of the observed world.
\<close>

section \<open>The shared world\<close>

text \<open>The cursors that \<open>SharedCursor::attach\<close> can open, by name, and the values of their cells.
  A handle remembers its name, as the mapping does (\<open>get_os_id\<close>).\<close>

type_synonym handle = "string \<times> nat"

record world =
  w_names :: "string \<Rightarrow> nat option"
  w_cells :: "nat \<Rightarrow> int"
  w_next :: nat

definition attach :: "world \<Rightarrow> string \<Rightarrow> handle option" where
  "attach w name = map_option (Pair name) (w_names w name)"

definition load :: "world \<Rightarrow> handle \<Rightarrow> int" where
  "load w h = w_cells w (snd h)"

definition store :: "world \<Rightarrow> handle \<Rightarrow> int \<Rightarrow> world" where
  "store w h v = w\<lparr>w_cells := (w_cells w)(snd h := v)\<rparr>"

definition fetch_add :: "world \<Rightarrow> handle \<Rightarrow> int \<Rightarrow> int \<times> world" where
  "fetch_add w h n = (load w h, store w h (wrap_i64 (load w h + n)))"

text \<open>Create a cursor under a name that is not taken; \<open>None\<close> is the library's error.\<close>

definition create :: "world \<Rightarrow> string \<Rightarrow> int \<Rightarrow> (handle \<times> world) option" where
  "create w name v =
     (case w_names w name of
        Some _ \<Rightarrow> None
      | None \<Rightarrow> Some ((name, w_next w),
                      w\<lparr>w_names := (w_names w)(name \<mapsto> w_next w),
                        w_cells := (w_cells w)(w_next w := v), w_next := Suc (w_next w)\<rparr>))"

definition new_or_attach :: "world \<Rightarrow> string \<Rightarrow> int \<Rightarrow> handle \<times> world" where
  "new_or_attach w name v =
     (case create w name v of
        Some (h, w') \<Rightarrow> (h, w')
      | None \<Rightarrow> (case attach w name of Some h \<Rightarrow> (h, w) | None \<Rightarrow> ((name, 0), w)))"

lemma load_store [simp]:
  "load (store w h v) h = v"
  "snd h \<noteq> snd k \<Longrightarrow> load (store w h v) k = load w k"
  by (simp_all add: load_def store_def)

lemma attach_store [simp]: "attach (store w h v) name = attach w name"
  by (simp add: attach_def store_def)

lemma new_or_attach_opens:
  "new_or_attach w name v = (h, w') \<Longrightarrow> attach w' name = Some h"
  by (auto simp: new_or_attach_def create_def attach_def split: option.splits)

section \<open>Discovery modes and names\<close>

datatype discovery_mode =
    Disabled
  | Enabled (dm_max_consumers: nat) (dm_consumer_prefix: "string option") (dm_scan_interval: nat)

definition discovery_default :: discovery_mode where
  "discovery_default = Disabled"

text \<open>The constructors of \<open>Enabled\<close>; the default interval is that of the wait configuration.\<close>

definition discovery_enabled :: "sleep_config \<Rightarrow> nat \<Rightarrow> discovery_mode option" where
  "discovery_enabled c max_consumers =
     (if 0 < max_consumers then Some (Enabled max_consumers None (discovery_poll_duration c)) else None)"

definition discovery_with_consumer_prefix :: "sleep_config \<Rightarrow> nat \<Rightarrow> string \<Rightarrow> discovery_mode option" where
  "discovery_with_consumer_prefix c max_consumers prefix =
     (if 0 < max_consumers then Some (Enabled max_consumers (Some prefix) (discovery_poll_duration c))
      else None)"

definition discovery_with_scan_interval :: "nat \<Rightarrow> nat \<Rightarrow> discovery_mode option" where
  "discovery_with_scan_interval max_consumers scan_interval =
     (if scan_interval = 0 then None
      else if \<not> 0 < max_consumers then None
      else Some (Enabled max_consumers None scan_interval))"

definition discovery_with_consumer_prefix_and_interval ::
  "nat \<Rightarrow> string \<Rightarrow> nat \<Rightarrow> discovery_mode option" where
  "discovery_with_consumer_prefix_and_interval max_consumers prefix scan_interval =
     (if scan_interval = 0 then None
      else if \<not> 0 < max_consumers then None
      else Some (Enabled max_consumers (Some prefix) scan_interval))"

definition consumer_readiness_cursor_name :: "string \<Rightarrow> string" where
  "consumer_readiness_cursor_name base = base @ ''_cr''"

definition consumer_registration_cursor_name :: "string \<Rightarrow> string" where
  "consumer_registration_cursor_name base = base @ ''_ci''"

definition auto_consumer_id :: "nat \<Rightarrow> string" where
  "auto_consumer_id slot = ''ad_'' @ show_nat slot"

definition uses_registered_auto_ids :: "discovery_mode \<Rightarrow> bool" where
  "uses_registered_auto_ids mode = (case mode of Enabled _ None _ \<Rightarrow> True | _ \<Rightarrow> False)"

definition sequence_name :: "string \<Rightarrow> string \<Rightarrow> string" where
  "sequence_name base consumer = base @ ''_'' @ consumer @ ''_seq''"

section \<open>The barrier\<close>

text \<open>The hash map of discovered cursors is an association list: the code only inserts
  missing keys, counts them, and folds a minimum over the values.\<close>

record barrier =
  cb_cursors :: "(string \<times> handle) list"
  cb_base_name :: string
  cb_last_scan :: nat
  cb_ready :: "handle option"
  cb_registration :: "handle option"
  cb_mode :: discovery_mode
  cb_completed :: bool
  cb_producer :: "handle option"

definition known :: "barrier \<Rightarrow> string \<Rightarrow> bool" where
  "known b consumer \<longleftrightarrow> map_of (cb_cursors b) consumer \<noteq> None"

text \<open>\<open>discover_consumer_id\<close>, which is also the body of every discovery loop.\<close>

definition discover_consumer_id :: "world \<Rightarrow> string \<Rightarrow> barrier \<Rightarrow> bool \<times> barrier" where
  "discover_consumer_id w consumer b =
     (if known b consumer then (True, b)
      else (case attach w (sequence_name (cb_base_name b) consumer) of
              Some h \<Rightarrow> (True, b\<lparr>cb_cursors := cb_cursors b @ [(consumer, h)]\<rparr>)
            | None \<Rightarrow> (False, b)))"

definition consumer_sequence :: "world \<Rightarrow> string \<Rightarrow> barrier \<Rightarrow> int option \<times> barrier" where
  "consumer_sequence w consumer b =
     (case (if known b consumer then (True, b) else discover_consumer_id w consumer b) of
        (found, b1) \<Rightarrow>
          (if found then map_option (load w) (map_of (cb_cursors b1) consumer) else None, b1))"

definition discover_all :: "world \<Rightarrow> string list \<Rightarrow> barrier \<Rightarrow> barrier" where
  "discover_all w names b = fold (\<lambda>n b. snd (discover_consumer_id w n b)) names b"

definition prefix_names :: "string \<Rightarrow> nat \<Rightarrow> string list" where
  "prefix_names prefix n = map (\<lambda>counter. prefix @ ''_'' @ show_nat counter) [0..<n]"

definition discover_with_consumer_prefix :: "world \<Rightarrow> string \<Rightarrow> barrier \<Rightarrow> barrier" where
  "discover_with_consumer_prefix w prefix b =
     (let max_consumers = (case cb_mode b of Enabled m _ _ \<Rightarrow> m | Disabled \<Rightarrow> 16) in
      discover_all w (prefix_names prefix max_consumers) b)"

definition discover_with_registered_slots :: "world \<Rightarrow> nat \<Rightarrow> barrier \<Rightarrow> nat \<times> barrier" where
  "discover_with_registered_slots w max_consumers b =
     (let b1 = (if cb_registration b = None \<and> uses_registered_auto_ids (cb_mode b)
                then b\<lparr>cb_registration := attach w (consumer_registration_cursor_name (cb_base_name b))\<rparr>
                else b) in
      case cb_registration b1 of
        None \<Rightarrow> (0, b1)
      | Some h \<Rightarrow>
          let registered = nat (min (max 0 (load w h)) (int max_consumers)) in
          (registered, discover_all w (map auto_consumer_id [0..<registered]) b1))"

definition pid_names :: "nat \<Rightarrow> nat \<Rightarrow> string list" where
  "pid_names pid n =
     concat (map (\<lambda>p. map (\<lambda>counter. ''c'' @ show_nat (p mod 10000) @ ''_'' @ show_nat counter) [0..<n])
               [pid - 20..<pid + 21])"

definition discover_with_pid_based_scanning :: "world \<Rightarrow> nat \<Rightarrow> barrier \<Rightarrow> barrier" where
  "discover_with_pid_based_scanning w pid b =
     (let max_consumers = (case cb_mode b of Enabled m _ _ \<Rightarrow> max 32 (min 128 m) | Disabled \<Rightarrow> 8) in
      discover_all w (pid_names pid max_consumers) b)"

definition discovery_scan_plan :: "nat \<Rightarrow> barrier \<Rightarrow> bool \<times> nat \<times> string option" where
  "discovery_scan_plan now b =
     (case cb_mode b of
        Disabled \<Rightarrow> (False, 0, None)
      | Enabled max_consumers prefix scan_interval \<Rightarrow>
          if cb_completed b then (False, max_consumers, None)
          else if max_consumers \<le> length (cb_cursors b) then (False, max_consumers, None)
          else
            let recently_scanned = now - cb_last_scan b < scan_interval;
                has_discovered_consumers = cb_cursors b \<noteq> [] in
            if recently_scanned \<and> has_discovered_consumers then (False, max_consumers, None)
            else (True, max_consumers, prefix))"

text \<open>The scan proper, once the plan has decided for it.\<close>

definition scan :: "world \<Rightarrow> nat \<Rightarrow> nat \<Rightarrow> string option \<Rightarrow> barrier \<Rightarrow> barrier" where
  "scan w pid max_consumers consumer_prefix b0 =
     (case consumer_prefix of
        Some prefix \<Rightarrow> discover_with_consumer_prefix w prefix b0
      | None \<Rightarrow>
          (case discover_with_registered_slots w max_consumers b0 of (registered, b1) \<Rightarrow>
             if registered = 0 \<or> length (cb_cursors b1) < registered
             then discover_with_pid_based_scanning w pid b1 else b1))"

definition discover_consumers :: "world \<Rightarrow> nat \<Rightarrow> nat \<Rightarrow> barrier \<Rightarrow> barrier" where
  "discover_consumers w pid now b =
     (case discovery_scan_plan now b of (should_scan, max_consumers, consumer_prefix) \<Rightarrow>
        if \<not> should_scan then b
        else
          let b1 = scan w pid max_consumers consumer_prefix (b\<lparr>cb_last_scan := now\<rparr>) in
          if max_consumers \<le> length (cb_cursors b1) then b1\<lparr>cb_completed := True\<rparr> else b1)"

section \<open>Construction\<close>

definition barrier_empty :: "string \<Rightarrow> discovery_mode \<Rightarrow> nat \<Rightarrow> handle option \<Rightarrow> barrier" where
  "barrier_empty base mode now ready =
     \<lparr> cb_cursors = [], cb_base_name = base, cb_last_scan = now, cb_ready = ready,
       cb_registration = None, cb_mode = mode, cb_completed = False, cb_producer = None \<rparr>"

definition new_with_discovery :: "world \<Rightarrow> nat \<Rightarrow> nat \<Rightarrow> string \<Rightarrow> discovery_mode \<Rightarrow> barrier option" where
  "new_with_discovery w pid now base mode =
     (if base = [] then None
      else let b = barrier_empty base mode now None in
           Some (if mode \<noteq> Disabled then discover_consumers w pid now b else b))"

definition barrier_new :: "world \<Rightarrow> nat \<Rightarrow> nat \<Rightarrow> string \<Rightarrow> barrier option" where
  "barrier_new w pid now base = new_with_discovery w pid now base discovery_default"

text \<open>With coordination the readiness counter is created first; \<open>Inl ()\<close> is the error of
  an existing name.\<close>

definition new_with_coordination_and_discovery ::
  "world \<Rightarrow> nat \<Rightarrow> nat \<Rightarrow> string \<Rightarrow> discovery_mode \<Rightarrow> (unit + barrier \<times> world) option" where
  "new_with_coordination_and_discovery w pid now base mode =
     (if base = [] then None
      else (case create w (consumer_readiness_cursor_name base) 0 of
              None \<Rightarrow> Some (Inl ())
            | Some (h, w1) \<Rightarrow>
                Some (Inr (discover_consumers w1 pid now (barrier_empty base mode now (Some h)), w1))))"

definition new_with_coordination ::
  "world \<Rightarrow> nat \<Rightarrow> nat \<Rightarrow> string \<Rightarrow> (unit + barrier \<times> world) option" where
  "new_with_coordination w pid now base =
     new_with_coordination_and_discovery w pid now base discovery_default"

definition set_producer_sequence :: "handle \<Rightarrow> barrier \<Rightarrow> barrier" where
  "set_producer_sequence h b = b\<lparr>cb_producer := Some h\<rparr>"

definition set_consumer_registration :: "handle \<Rightarrow> barrier \<Rightarrow> barrier" where
  "set_consumer_registration h b = b\<lparr>cb_registration := Some h\<rparr>"

section \<open>Gating\<close>

definition discovered_min_sequence :: "world \<Rightarrow> barrier \<Rightarrow> int option" where
  "discovered_min_sequence w b =
     (let m = fold (\<lambda>(_, h) m. let sequence = load w h in if -1 \<le> sequence then min m sequence else m)
                (cb_cursors b) i64_max in
      if m = i64_max then None else Some m)"

definition min_sequence_fallback :: "world \<Rightarrow> barrier \<Rightarrow> int" where
  "min_sequence_fallback w b =
     (case cb_mode b of
        Enabled _ _ _ \<Rightarrow> -1
      | Disabled \<Rightarrow> (case cb_producer b of Some h \<Rightarrow> load w h | None \<Rightarrow> -1))"

definition refresh_discovery :: "world \<Rightarrow> nat \<Rightarrow> nat \<Rightarrow> barrier \<Rightarrow> barrier" where
  "refresh_discovery w pid now b =
     (case cb_mode b of
        Disabled \<Rightarrow> b
      | Enabled _ _ _ \<Rightarrow> if \<not> cb_completed b then discover_consumers w pid now b else b)"

definition get_min_consumer_sequence :: "world \<Rightarrow> nat \<Rightarrow> nat \<Rightarrow> barrier \<Rightarrow> int \<times> barrier" where
  "get_min_consumer_sequence w pid now b =
     (let b1 = refresh_discovery w pid now b in
      case discovered_min_sequence w b1 of
        Some m \<Rightarrow> (m, b1)
      | None \<Rightarrow> (min_sequence_fallback w b1, b1))"

definition best_effort_consumer_count :: "world \<Rightarrow> nat \<Rightarrow> nat \<Rightarrow> barrier \<Rightarrow> nat \<times> barrier" where
  "best_effort_consumer_count w pid now b =
     (let b1 = refresh_discovery w pid now b in (length (cb_cursors b1), b1))"

section \<open>Cloning and waiting\<close>

text \<open>A cloned cursor is attached again by name; a failure there is a panic (\<open>None\<close>).\<close>

definition clone_handle :: "world \<Rightarrow> handle \<Rightarrow> handle option" where
  "clone_handle w h = attach w (fst h)"

definition reattach_or_clone :: "world \<Rightarrow> string \<Rightarrow> handle option \<Rightarrow> handle option option" where
  "reattach_or_clone w name cursor =
     (case cursor of
        None \<Rightarrow> Some None
      | Some h \<Rightarrow>
          (case attach w name of
             Some h' \<Rightarrow> Some (Some h')
           | None \<Rightarrow> map_option Some (clone_handle w h)))"

definition barrier_clone :: "world \<Rightarrow> nat \<Rightarrow> barrier \<Rightarrow> barrier option" where
  "barrier_clone w now b =
     (case reattach_or_clone w (consumer_readiness_cursor_name (cb_base_name b)) (cb_ready b) of
        None \<Rightarrow> None
      | Some ready \<Rightarrow>
          (case reattach_or_clone w (consumer_registration_cursor_name (cb_base_name b))
                  (cb_registration b) of
             None \<Rightarrow> None
           | Some registration \<Rightarrow>
               (case (case cb_producer b of
                        None \<Rightarrow> Some None
                      | Some h \<Rightarrow> map_option Some (clone_handle w h)) of
                  None \<Rightarrow> None
                | Some producer \<Rightarrow>
                    Some (b\<lparr>cb_cursors := [], cb_last_scan := now, cb_ready := ready,
                            cb_registration := registration, cb_completed := False,
                            cb_producer := producer\<rparr>))))"

definition coordination_timeout_for :: "int \<Rightarrow> nat" where
  "coordination_timeout_for min_consumers =
     (if min_consumers = 1 then from_millis 200
      else if min_consumers = 2 then from_millis 1200
      else if 3 \<le> min_consumers \<and> min_consumers \<le> 4 then from_millis 800
      else if 5 \<le> min_consumers \<and> min_consumers \<le> 8 then from_millis 400
      else from_millis 100)"

text \<open>One observation of a waiting loop: the clock at its test and the world it then sees.\<close>

type_synonym observation = "nat \<times> world"

fun spin_until_ready_count ::
  "handle \<Rightarrow> int \<Rightarrow> nat \<Rightarrow> nat \<Rightarrow> observation list \<Rightarrow> (bool \<times> observation list) outcome" where
  "spin_until_ready_count h min_consumers start timeout [] = Waiting"
| "spin_until_ready_count h min_consumers start timeout ((now, w) # obs) =
     (if now - start < timeout
      then if min_consumers \<le> load w h then Returns (True, obs)
           else spin_until_ready_count h min_consumers start timeout obs
      else Returns (False, obs))"

definition wait_for_coordination_minimum ::
  "handle \<Rightarrow> int \<Rightarrow> nat \<Rightarrow> nat \<Rightarrow> nat \<Rightarrow> observation list \<Rightarrow> (bool \<times> observation list) outcome" where
  "wait_for_coordination_minimum h min_consumers start timeout coordination_timeout obs =
     (let effective_timeout = min timeout coordination_timeout in
      bind_outcome (spin_until_ready_count h min_consumers start effective_timeout obs) (\<lambda>(ok, obs1).
        if ok then Returns (True, obs1)
        else if effective_timeout < timeout
        then spin_until_ready_count h min_consumers start timeout obs1
        else Returns (False, obs1)))"

fun wait_for_discovery_minimum ::
  "barrier \<Rightarrow> nat \<Rightarrow> nat \<Rightarrow> nat \<Rightarrow> nat \<Rightarrow> observation list \<Rightarrow> (bool \<times> observation list) outcome" where
  "wait_for_discovery_minimum b pid min_consumers start timeout [] = Waiting"
| "wait_for_discovery_minimum b pid min_consumers start timeout ((now, w) # obs) =
     (if now - start < timeout
      then (case barrier_clone w now b of
              None \<Rightarrow> Panics
            | Some probe \<Rightarrow>
                if min_consumers \<le> length (cb_cursors (discover_consumers w pid now probe))
                then Returns (True, obs)
                else wait_for_discovery_minimum b pid min_consumers start timeout obs)
      else Returns (False, obs))"

definition wait_for_consumers_ready ::
  "barrier \<Rightarrow> nat \<Rightarrow> int \<Rightarrow> nat \<Rightarrow> nat \<Rightarrow> observation list \<Rightarrow> (bool \<times> observation list) outcome" where
  "wait_for_consumers_ready b pid min_consumers start timeout obs =
     (if \<not> 0 < timeout then Panics
      else if \<not> 0 < min_consumers then Panics
      else (case cb_ready b of
              Some h \<Rightarrow>
                wait_for_coordination_minimum h min_consumers start timeout
                  (coordination_timeout_for min_consumers) obs
            | None \<Rightarrow> wait_for_discovery_minimum b pid (nat min_consumers) start timeout obs))"

section \<open>Names\<close>

lemma auto_consumer_id_inject [simp]: "auto_consumer_id i = auto_consumer_id j \<longleftrightarrow> i = j"
  by (simp add: auto_consumer_id_def)

lemma sequence_name_inject [simp]: "sequence_name b x = sequence_name b y \<longleftrightarrow> x = y"
  by (simp add: sequence_name_def)

section \<open>What discovery maintains\<close>

text \<open>Every tracked cursor is the one attached under its consumer's sequence name, once.\<close>

definition barrier_ok :: "world \<Rightarrow> barrier \<Rightarrow> bool" where
  "barrier_ok w b \<longleftrightarrow>
     distinct (map fst (cb_cursors b))
     \<and> (\<forall>(id, h) \<in> set (cb_cursors b). attach w (sequence_name (cb_base_name b) id) = Some h)"

named_theorems discovery_defs \<open>definitions of the discovery passes\<close>

declare discover_with_consumer_prefix_def [discovery_defs]
  discover_with_registered_slots_def [discovery_defs]
  discover_with_pid_based_scanning_def [discovery_defs]

text \<open>What a discovery pass may change: it extends the tracked cursors and keeps everything
  else that the scan plan and the fallback read.\<close>

definition extends :: "barrier \<Rightarrow> barrier \<Rightarrow> bool" where
  "extends b b' \<longleftrightarrow>
     (\<exists>new. cb_cursors b' = cb_cursors b @ new) \<and> cb_base_name b' = cb_base_name b
     \<and> cb_mode b' = cb_mode b \<and> cb_ready b' = cb_ready b \<and> cb_producer b' = cb_producer b"

lemma extends_refl [intro, simp]: "extends b b"
  by (simp add: extends_def)

lemma extends_trans [trans]: "extends a b \<Longrightarrow> extends b c \<Longrightarrow> extends a c"
  by (auto simp: extends_def)

lemma discover_consumer_id_ok:
  assumes "barrier_ok w b" "discover_consumer_id w c b = (found, b')"
  shows "barrier_ok w b' \<and> extends b b' \<and> cb_completed b' = cb_completed b
         \<and> cb_registration b' = cb_registration b"
  using assms
  by (auto simp: discover_consumer_id_def barrier_ok_def extends_def known_def map_of_eq_None_iff
      split: if_splits option.splits)

lemma discover_consumer_id_found:
  assumes "discover_consumer_id w c b = (found, b')"
  shows "found \<longleftrightarrow> known b' c"
    and "attach w (sequence_name (cb_base_name b) c) = Some h \<Longrightarrow> known b' c"
    and "known b x \<Longrightarrow> known b' x"
  using assms
  by (auto simp: discover_consumer_id_def known_def map_of_append map_add_def
      split: if_splits option.splits)

lemma discover_all_simps [simp]:
  "discover_all w [] b = b"
  "discover_all w (n # ns) b = discover_all w ns (snd (discover_consumer_id w n b))"
  by (simp_all add: discover_all_def)

lemma discover_all_ok:
  assumes "barrier_ok w b"
  shows "barrier_ok w (discover_all w names b) \<and> extends b (discover_all w names b)
         \<and> cb_completed (discover_all w names b) = cb_completed b
         \<and> cb_registration (discover_all w names b) = cb_registration b"
  using assms
proof (induction names arbitrary: b)
  case (Cons n ns)
  obtain found b1 where b1: "discover_consumer_id w n b = (found, b1)" by fastforce
  from discover_consumer_id_ok [OF Cons.prems b1] Cons.IH [of b1] show ?case
    by (auto simp: b1 intro: extends_trans)
qed simp

lemma discover_all_complete:
  assumes "n \<in> set names" "attach w (sequence_name (cb_base_name b) n) = Some h"
  shows "known (discover_all w names b) n"
  using assms
proof (induction names arbitrary: b)
  case (Cons m ns)
  obtain found b1 where b1: "discover_consumer_id w m b = (found, b1)" by fastforce
  have base: "cb_base_name b1 = cb_base_name b"
    using b1 by (auto simp: discover_consumer_id_def split: if_splits option.splits)
  have keep: "known c n \<Longrightarrow> known (discover_all w ns c) n" for c
    by (induction ns arbitrary: c) (auto intro: discover_consumer_id_found(3) [OF prod.collapse [symmetric]])
  show ?case
  proof (cases "m = n")
    case True
    then have "known b1 n" using discover_consumer_id_found(2) [OF b1] Cons.prems(2) by simp
    then show ?thesis using keep b1 True by simp
  next
    case False
    then show ?thesis using Cons by (simp add: b1 base)
  qed
qed simp

lemma registered_slots_ok:
  assumes "barrier_ok w b" "discover_with_registered_slots w m b = (n, b')"
  shows "barrier_ok w b' \<and> extends b b' \<and> cb_completed b' = cb_completed b \<and> n \<le> m"
proof -
  define b1 where "b1 = (if cb_registration b = None \<and> uses_registered_auto_ids (cb_mode b)
      then b\<lparr>cb_registration := attach w (consumer_registration_cursor_name (cb_base_name b))\<rparr>
      else b)"
  have b1: "barrier_ok w b1" "extends b b1" "cb_completed b1 = cb_completed b"
    using assms(1) by (simp_all add: b1_def barrier_ok_def extends_def)
  have result: "(n, b') = (case cb_registration b1 of None \<Rightarrow> (0, b1)
      | Some h \<Rightarrow> let registered = nat (min (max 0 (load w h)) (int m)) in
          (registered, discover_all w (map auto_consumer_id [0..<registered]) b1))"
    using assms(2) unfolding discover_with_registered_slots_def b1_def [symmetric]
    by (simp add: Let_def)
  show ?thesis
  proof (cases "cb_registration b1")
    case None
    then show ?thesis using result b1 by simp
  next
    case (Some h)
    then show ?thesis
      using result b1 discover_all_ok [OF b1(1)] extends_trans [OF b1(2)] by (simp add: Let_def)
  qed
qed

lemma barrier_ok_fields [simp]:
  "barrier_ok w (b\<lparr>cb_last_scan := t\<rparr>) \<longleftrightarrow> barrier_ok w b"
  "barrier_ok w (b\<lparr>cb_completed := f\<rparr>) \<longleftrightarrow> barrier_ok w b"
  by (simp_all add: barrier_ok_def)

lemma extends_fields [simp]:
  "extends b (c\<lparr>cb_last_scan := t\<rparr>) \<longleftrightarrow> extends b c"
  "extends (b\<lparr>cb_last_scan := t\<rparr>) c \<longleftrightarrow> extends b c"
  "extends b (c\<lparr>cb_completed := f\<rparr>) \<longleftrightarrow> extends b c"
  by (simp_all add: extends_def)

lemma scan_ok:
  assumes "barrier_ok w b"
  shows "barrier_ok w (scan w pid m prefix b) \<and> extends b (scan w pid m prefix b)
         \<and> cb_completed (scan w pid m prefix b) = cb_completed b"
proof (cases prefix)
  case (Some p)
  then show ?thesis
    using discover_all_ok [OF assms] by (simp add: scan_def discover_with_consumer_prefix_def Let_def)
next
  case None
  obtain n b1 where b1: "discover_with_registered_slots w m b = (n, b1)" by fastforce
  note slots = registered_slots_ok [OF assms b1]
  then show ?thesis
    using discover_all_ok [of w b1] extends_trans [of b b1]
    by (simp add: scan_def None b1 discover_with_pid_based_scanning_def Let_def)
qed

lemma discover_consumers_ok:
  assumes "barrier_ok w b"
  shows "barrier_ok w (discover_consumers w pid now b) \<and> extends b (discover_consumers w pid now b)"
proof -
  obtain should m prefix where plan: "discovery_scan_plan now b = (should, m, prefix)"
    using prod_cases3 by blast
  have "barrier_ok w (b\<lparr>cb_last_scan := now\<rparr>)" using assms by simp
  from scan_ok [OF this, of pid m prefix] assms show ?thesis
    by (simp add: discover_consumers_def plan Let_def)
qed

lemma refresh_discovery_ok:
  assumes "barrier_ok w b"
  shows "barrier_ok w (refresh_discovery w pid now b) \<and> extends b (refresh_discovery w pid now b)"
  using discover_consumers_ok [OF assms] assms
  by (simp add: refresh_discovery_def split: discovery_mode.splits)

section \<open>The gating minimum\<close>

lemma fold_min_sequence:
  "fold (\<lambda>(_, h) m. let sequence = load w h in if -1 \<le> sequence then min m sequence else m) xs m
     = Min (insert m {s \<in> load w ` snd ` set xs. -1 \<le> s})"
proof (induction xs arbitrary: m)
  case (Cons x xs)
  obtain c h where x: "x = (c, h)" by (cases x)
  let ?S = "{s \<in> load w ` snd ` set xs. -1 \<le> s}"
  have split: "{s \<in> load w ` snd ` set (x # xs). -1 \<le> s}
      = (if -1 \<le> load w h then insert (load w h) ?S else ?S)"
    by (auto simp: x)
  have "fold (\<lambda>(_, h) m. let sequence = load w h in if -1 \<le> sequence then min m sequence else m) (x # xs) m
      = Min (insert (if -1 \<le> load w h then min m (load w h) else m) ?S)"
    by (simp only: fold.simps x comp_apply prod.case split Let_def Cons.IH [unfolded Let_def])
  moreover have "Min (insert (min m y) S) = Min (insert m (insert y S))" if "finite S" for y S
    using that by (cases "S = {}") (simp_all add: min.assoc)
  moreover have "finite ?S" by simp
  ultimately show ?case unfolding split by presburger
qed simp

text \<open>The valid sequences a barrier sees.\<close>

definition tracked_sequences :: "world \<Rightarrow> barrier \<Rightarrow> int set" where
  "tracked_sequences w b = {s \<in> load w ` snd ` set (cb_cursors b). -1 \<le> s}"

lemma discovered_min_sequence_eq:
  "discovered_min_sequence w b =
     (let m = Min (insert i64_max (tracked_sequences w b)) in if m = i64_max then None else Some m)"
  by (simp add: discovered_min_sequence_def fold_min_sequence tracked_sequences_def)

lemma finite_tracked [simp]: "finite (tracked_sequences w b)"
  by (simp add: tracked_sequences_def)

lemma discovered_min_Some:
  assumes "discovered_min_sequence w b = Some m"
  shows "m \<in> tracked_sequences w b \<and> (\<forall>s \<in> tracked_sequences w b. m \<le> s)"
proof -
  let ?S = "insert i64_max (tracked_sequences w b)"
  have m: "m = Min ?S" "m \<noteq> i64_max"
    using assms by (auto simp: discovered_min_sequence_eq Let_def split: if_splits)
  have "Min ?S \<in> ?S" by (rule Min_in) simp_all
  moreover have "\<forall>s \<in> ?S. Min ?S \<le> s" by simp
  ultimately show ?thesis using m by blast
qed

lemma discovered_min_None:
  assumes "discovered_min_sequence w b = None" "s \<in> tracked_sequences w b" "s \<le> i64_max"
  shows "s = i64_max"
proof -
  let ?S = "insert i64_max (tracked_sequences w b)"
  have "Min ?S = i64_max" using assms(1) by (simp add: discovered_min_sequence_eq Let_def split: if_splits)
  moreover have "Min ?S \<le> s" using assms(2) by (intro Min_le) simp_all
  ultimately show ?thesis using assms(3) by simp
qed

lemma get_min_refresh:
  "get_min_consumer_sequence w pid now b =
     (let b1 = refresh_discovery w pid now b in
      (case discovered_min_sequence w b1 of Some m \<Rightarrow> m | None \<Rightarrow> min_sequence_fallback w b1, b1))"
  by (simp add: get_min_consumer_sequence_def Let_def split: option.splits)

lemma gating_minimum:
  assumes "barrier_ok w b" "cb_mode b \<noteq> Disabled"
    and "get_min_consumer_sequence w pid now b = (m, b')"
  shows "-1 \<le> m \<and> barrier_ok w b' \<and> set (cb_cursors b) \<subseteq> set (cb_cursors b')
         \<and> (\<forall>(consumer, h) \<in> set (cb_cursors b'). -1 \<le> load w h \<longrightarrow> m \<le> load w h)
         \<and> (m = -1 \<or> (\<exists>(consumer, h) \<in> set (cb_cursors b'). m = load w h))"
proof -
  have b': "b' = refresh_discovery w pid now b"
    and m: "m = (case discovered_min_sequence w b' of Some m \<Rightarrow> m | None \<Rightarrow> min_sequence_fallback w b')"
    using assms(3) by (auto simp: get_min_refresh Let_def)
  note ok = refresh_discovery_ok [OF assms(1), of pid now, folded b']
  have mode: "cb_mode b' \<noteq> Disabled" using ok assms(2) by (auto simp: extends_def)
  have sub: "set (cb_cursors b) \<subseteq> set (cb_cursors b')" using ok by (auto simp: extends_def)
  show ?thesis
  proof (cases "discovered_min_sequence w b'")
    case None
    then have "m = -1" using m mode by (simp add: min_sequence_fallback_def split: discovery_mode.splits)
    then show ?thesis using ok sub by auto
  next
    case (Some s)
    then have "m \<in> tracked_sequences w b'" "\<forall>s \<in> tracked_sequences w b'. m \<le> s"
      using m discovered_min_Some [OF Some] by simp_all
    then show ?thesis using ok sub by (fastforce simp: tracked_sequences_def)
  qed
qed

text \<open>C21. The gating sequence. With discovery enabled, the sequence that gates the producer is never
  below -1, never above the sequence of any consumer the barrier tracks, and is either -1 or
  the sequence of a tracked consumer; the query forgets no consumer and keeps every tracked
  handle attached under its consumer's name.\<close>

theorem gating_minimum_bounds:
  assumes "barrier_ok w b" "cb_mode b \<noteq> Disabled"
    and "get_min_consumer_sequence w pid now b = (m, b')"
  shows "-1 \<le> m \<and> barrier_ok w b' \<and> set (cb_cursors b) \<subseteq> set (cb_cursors b')
         \<and> (\<forall>(consumer, h) \<in> set (cb_cursors b'). -1 \<le> load w h \<longrightarrow> m \<le> load w h)
         \<and> (m = -1 \<or> (\<exists>(consumer, h) \<in> set (cb_cursors b'). m = load w h))"
  by (rule gating_minimum [OF assms])

text \<open>Two consumers of a ring named \<open>r\<close>, the first at sequence 7, the second at -1, and a
  barrier that has tracked only the first.\<close>

definition two_consumers :: world where
  "two_consumers =
     \<lparr> w_names = [''r_a_0_seq'' \<mapsto> 0, ''r_a_1_seq'' \<mapsto> 1], w_cells = (\<lambda>i. if i = 0 then 7 else -1),
       w_next = 2 \<rparr>"

definition first_tracked :: "nat \<Rightarrow> barrier" where
  "first_tracked last_scan =
     (barrier_empty ''r'' (Enabled 2 (Some ''a'') 10000000) last_scan None)
       \<lparr>cb_cursors := [(''a_0'', (''r_a_0_seq'', 0))]\<rparr>"

lemma two_consumers_ok: "barrier_ok two_consumers (first_tracked t)"
  by (simp add: barrier_ok_def first_tracked_def barrier_empty_def attach_def two_consumers_def
      sequence_name_def)

lemma prefix_names_two: "prefix_names p 2 = [p @ ''_0'', p @ ''_1'']"
  by (simp add: prefix_names_def numeral_2_eq_2 show_base.simps)

theorem gating_minimum_bounds_witness:
  "fst (get_min_consumer_sequence two_consumers 1 20000000 (first_tracked 0)) = -1"
proof -
  obtain m b' where r: "get_min_consumer_sequence two_consumers 1 20000000 (first_tracked 0) = (m, b')"
    by fastforce
  have "cb_mode (first_tracked 0) \<noteq> Disabled" by (simp add: first_tracked_def barrier_empty_def)
  note bounds = gating_minimum_bounds [OF two_consumers_ok this r]
  have "b' = refresh_discovery two_consumers 1 20000000 (first_tracked 0)"
    using r by (auto simp: get_min_refresh Let_def)
  then have "(''a_1'', (''r_a_1_seq'', 1)) \<in> set (cb_cursors b')"
    by (simp add: refresh_discovery_def first_tracked_def barrier_empty_def discover_consumers_def
        discovery_scan_plan_def scan_def discover_with_consumer_prefix_def
        discover_consumer_id_def known_def attach_def two_consumers_def sequence_name_def
        prefix_names_two)
  then have "m \<le> load two_consumers (''r_a_1_seq'', 1)"
    using bounds by (fastforce simp: load_def two_consumers_def)
  then show ?thesis using bounds r by (simp add: load_def two_consumers_def)
qed

text \<open>C22. A scan with a prefix is complete. When the scan plan decides to scan, every consumer of
  the numbered family whose cursor can be attached is tracked afterwards, and the search is
  closed exactly when the expected number of cursors has been found.\<close>

theorem prefix_scan_complete:
  assumes "barrier_ok w b" "discovery_scan_plan now b = (True, n, Some prefix)"
  shows "\<exists>b'. discover_consumers w pid now b = b' \<and> barrier_ok w b'
           \<and> (\<forall>c < n. attach w (sequence_name (cb_base_name b) (prefix @ ''_'' @ show_nat c)) \<noteq> None
                 \<longrightarrow> known b' (prefix @ ''_'' @ show_nat c))
           \<and> (cb_completed b' \<longleftrightarrow> n \<le> length (cb_cursors b'))"
proof -
  let ?b0 = "b\<lparr>cb_last_scan := now\<rparr>"
  have mode: "\<exists>iv. cb_mode b = Enabled n (Some prefix) iv" and fresh: "\<not> cb_completed b"
    using assms(2) by (auto simp: discovery_scan_plan_def Let_def split: discovery_mode.splits if_splits)
  then have scan: "scan w pid n (Some prefix) ?b0 = discover_all w (prefix_names prefix n) ?b0"
    by (auto simp: scan_def discover_with_consumer_prefix_def)
  let ?b1 = "discover_all w (prefix_names prefix n) ?b0"
  have ok: "barrier_ok w ?b1 \<and> cb_completed ?b1 = cb_completed b"
    using discover_all_ok [of w ?b0 "prefix_names prefix n"] assms(1) by simp
  have "known ?b1 (prefix @ ''_'' @ show_nat c)"
    if "c < n" "attach w (sequence_name (cb_base_name b) (prefix @ ''_'' @ show_nat c)) \<noteq> None" for c
  proof -
    have "prefix @ ''_'' @ show_nat c \<in> set (prefix_names prefix n)"
      using that(1) by (auto simp: prefix_names_def)
    then show ?thesis using that(2) discover_all_complete [of _ _ w ?b0] by auto
  qed
  then show ?thesis
    using ok fresh assms(2) by (auto simp: discover_consumers_def scan Let_def known_def)
qed

theorem prefix_scan_complete_witness:
  "known (discover_consumers two_consumers 1 20000000 (first_tracked 0)) (''a_'' @ show_nat 1)"
proof -
  have "discovery_scan_plan 20000000 (first_tracked 0) = (True, 2, Some ''a'')"
    by (simp add: discovery_scan_plan_def first_tracked_def barrier_empty_def)
  from prefix_scan_complete [OF two_consumers_ok this]
  have "attach two_consumers (sequence_name ''r'' (''a_'' @ show_nat 1)) \<noteq> None
      \<longrightarrow> known (discover_consumers two_consumers 1 20000000 (first_tracked 0)) (''a_'' @ show_nat 1)"
    by (fastforce simp: first_tracked_def barrier_empty_def)
  then show ?thesis
    by (simp add: attach_def two_consumers_def sequence_name_def show_base.simps)
qed

text \<open>The scan throttle opens a gap. As soon as one consumer is tracked, a query within the scan interval does
  not look for the others: a second consumer can be attached at -1 while the sequence that
  gates the producer is that of the first.\<close>

theorem throttled_scan_misses_consumer:
  "cb_mode (first_tracked 0) = Enabled 2 (Some ''a'') 10000000
   \<and> known (discover_consumers two_consumers 1 10000000 (first_tracked 0)) ''a_1''
   \<and> attach two_consumers (sequence_name ''r'' ''a_1'') = Some (''r_a_1_seq'', 1)
   \<and> load two_consumers (''r_a_1_seq'', 1) = -1
   \<and> get_min_consumer_sequence two_consumers 1 9999999 (first_tracked 0) = (7, first_tracked 0)"
proof (intro conjI)
  show "known (discover_consumers two_consumers 1 10000000 (first_tracked 0)) ''a_1''"
    by (simp add: first_tracked_def barrier_empty_def discover_consumers_def
        discovery_scan_plan_def scan_def discover_with_consumer_prefix_def
        discover_consumer_id_def known_def attach_def two_consumers_def sequence_name_def
        prefix_names_two)
  show "get_min_consumer_sequence two_consumers 1 9999999 (first_tracked 0) = (7, first_tracked 0)"
    by (simp add: get_min_refresh refresh_discovery_def first_tracked_def barrier_empty_def
        discover_consumers_def discovery_scan_plan_def discovered_min_sequence_def load_def
        two_consumers_def i64_max_def)
qed (simp_all add: first_tracked_def barrier_empty_def attach_def two_consumers_def sequence_name_def
    load_def)

section \<open>The start-up wait\<close>

lemma spin_True:
  "spin_until_ready_count h n start timeout obs = Returns (True, rest) \<Longrightarrow>
     (\<exists>(now, w) \<in> set obs. now - start < timeout \<and> n \<le> load w h) \<and> set rest \<subseteq> set obs"
  by (induction obs) (auto split: if_splits)

lemma spin_False:
  "spin_until_ready_count h n start timeout obs = Returns (False, rest) \<Longrightarrow>
     (\<exists>(now, w) \<in> set obs. timeout \<le> now - start) \<and> set rest \<subseteq> set obs"
  by (induction obs) (auto split: if_splits)

lemma spin_returns:
  assumes "timeout \<le> now - start"
  shows "\<exists>ok rest. spin_until_ready_count h n start timeout (obs @ (now, w) # late)
            = Returns (ok, rest @ late)"
  using assms
proof (induction obs)
  case (Cons o' obs)
  obtain t v where "o' = (t, v)" by (cases o')
  then show ?case using Cons by auto
qed (auto intro: exI [of _ "[]"])

lemma spin_reaches:
  assumes "n \<le> load w h" "now - start < timeout" "\<forall>(t, v) \<in> set early. t - start < timeout"
  shows "\<exists>rest. spin_until_ready_count h n start timeout (early @ (now, w) # late) = Returns (True, rest @ late)"
  using assms
proof (induction early)
  case (Cons o' early)
  obtain t v where "o' = (t, v)" by (cases o')
  then show ?case using Cons by auto
qed simp

lemma spin_times_out:
  assumes "timeout \<le> now - start" "\<forall>(t, v) \<in> set early. t - start < timeout"
  shows "spin_until_ready_count h n start timeout (early @ (now, w) # late) = Returns (False, late)
       \<or> (\<exists>rest. spin_until_ready_count h n start timeout (early @ (now, w) # late)
                 = Returns (True, rest @ (now, w) # late))"
  using assms
proof (induction early)
  case (Cons o' early)
  obtain t v where "o' = (t, v)" by (cases o')
  then show ?case using Cons by auto
qed simp

lemma coordination_reaches:
  assumes "n \<le> load w h" "now - start < timeout" "\<forall>(t, v) \<in> set early. t - start < timeout"
    and "now - start < min timeout limit \<or> (\<exists>(t, v) \<in> set early. min timeout limit \<le> t - start)"
  shows "\<exists>rest. wait_for_coordination_minimum h n start timeout limit (early @ (now, w) # late)
            = Returns (True, rest @ late)"
proof (cases "\<exists>(t, v) \<in> set early. min timeout limit \<le> t - start")
  case False
  then have "\<exists>rest. spin_until_ready_count h n start (min timeout limit) (early @ (now, w) # late)
      = Returns (True, rest @ late)"
    using assms(1,4) by (intro spin_reaches) auto
  then show ?thesis by (auto simp: wait_for_coordination_minimum_def Let_def)
next
  case True
  then obtain e1 x e2 where split: "early = e1 @ x # e2" "min timeout limit \<le> fst x - start"
      "\<forall>y \<in> set e1. \<not> min timeout limit \<le> fst y - start"
    using split_list_first_prop [of early "\<lambda>x. min timeout limit \<le> fst x - start"] by fastforce
  obtain t v where x: "x = (t, v)" by (cases x)
  have short: "min timeout limit < timeout" using assms(3) split(1,2) x by auto
  have "\<exists>rest. spin_until_ready_count h n start timeout (e2 @ (now, w) # late) = Returns (True, rest @ late)"
    using assms(1-3) split(1) by (intro spin_reaches) auto
  then obtain rest where second:
    "spin_until_ready_count h n start timeout (e2 @ (now, w) # late) = Returns (True, rest @ late)" by blast
  have before: "\<forall>(t, v) \<in> set e1. t - start < min timeout limit"
  proof
    fix y assume "y \<in> set e1"
    then show "case y of (t, v) \<Rightarrow> t - start < min timeout limit" using split(3) by (cases y) auto
  qed
  have obs: "early @ (now, w) # late = e1 @ (t, v) # (e2 @ (now, w) # late)" using split(1) x by simp
  have "min timeout limit \<le> t - start" using split(2) x by simp
  from spin_times_out [OF this before, of h n v "e2 @ (now, w) # late"]
  show ?thesis
    unfolding obs wait_for_coordination_minimum_def Let_def
    by (elim disjE exE) (simp_all add: short second)
qed

text \<open>C33. Waiting for readiness. The wait for coordinated consumers reports success as soon as it reads a
  readiness counter that has reached the wanted count within the timeout (the reading that ends the shorter coordination spin,
  whose counter the code does not load, apart), and only then; it reports failure only
  after the timeout, and does not wait for ever: once two of its clock readings are past the
  timeout it has returned.\<close>

theorem wait_for_consumers_ready_decides:
  assumes "cb_ready b = Some h" "0 < timeout" "0 < n"
  shows "(\<forall>rest. wait_for_consumers_ready b pid n start timeout obs = Returns (True, rest)
            \<longrightarrow> (\<exists>(now, w) \<in> set obs. now - start < timeout \<and> n \<le> load w h))
       \<and> (\<forall>rest. wait_for_consumers_ready b pid n start timeout obs = Returns (False, rest)
            \<longrightarrow> (\<exists>(now, w) \<in> set obs. timeout \<le> now - start))
       \<and> (timeout \<le> t1 - start \<and> timeout \<le> t2 - start \<longrightarrow>
            (\<exists>r. wait_for_consumers_ready b pid n start timeout (obs @ [(t1, w1), (t2, w2)]) = Returns r))
       \<and> (\<forall>early now w late. obs = early @ (now, w) # late \<and> n \<le> load w h \<and> now - start < timeout
            \<and> (\<forall>(t, v) \<in> set early. t - start < timeout)
            \<and> (now - start < min timeout (coordination_timeout_for n)
                 \<or> (\<exists>(t, v) \<in> set early. min timeout (coordination_timeout_for n) \<le> t - start))
            \<longrightarrow> (\<exists>rest. wait_for_consumers_ready b pid n start timeout obs = Returns (True, rest @ late)))"
proof -
  let ?eff = "min timeout (coordination_timeout_for n)"
  let ?spin = "spin_until_ready_count h n start"
  have run: "wait_for_consumers_ready b pid n start timeout xs
      = bind_outcome (?spin ?eff xs) (\<lambda>(ok, obs1). if ok then Returns (True, obs1)
          else if ?eff < timeout then ?spin timeout obs1 else Returns (False, obs1))" for xs
    using assms by (simp add: wait_for_consumers_ready_def wait_for_coordination_minimum_def Let_def)
  have success: "\<exists>(now, w) \<in> set obs. now - start < timeout \<and> n \<le> load w h"
    if r: "wait_for_consumers_ready b pid n start timeout obs = Returns (True, rest)" for rest
  proof (cases "?spin ?eff obs")
    case (Returns p)
    obtain ok obs1 where p: "p = (ok, obs1)" by (cases p)
    show ?thesis
    proof (cases ok)
      case True
      then show ?thesis using spin_True [of h n start ?eff obs obs1] Returns p by fastforce
    next
      case False
      then have "?spin timeout obs1 = Returns (True, rest)" "set obs1 \<subseteq> set obs"
        using r Returns p spin_False [of h n start ?eff obs obs1] by (auto simp: run split: if_splits)
      then show ?thesis using spin_True [of h n start timeout obs1 rest] by blast
    qed
  qed (use r in \<open>simp_all add: run\<close>)
  have failure: "\<exists>(now, w) \<in> set obs. timeout \<le> now - start"
    if r: "wait_for_consumers_ready b pid n start timeout obs = Returns (False, rest)" for rest
  proof (cases "?spin ?eff obs")
    case (Returns p)
    obtain ok obs1 where p: "p = (ok, obs1)" by (cases p)
    have "\<not> ok" using r Returns p by (auto simp: run)
    then have first: "(\<exists>(now, w) \<in> set obs. ?eff \<le> now - start)" "set obs1 \<subseteq> set obs"
      using spin_False [of h n start ?eff obs obs1] Returns p by auto
    show ?thesis
    proof (cases "?eff < timeout")
      case True
      then have "?spin timeout obs1 = Returns (False, rest)"
        using r Returns p \<open>\<not> ok\<close> by (auto simp: run split: if_splits)
      then show ?thesis using spin_False [of h n start timeout obs1 rest] first(2) by blast
    next
      case False
      then show ?thesis using first(1) by auto
    qed
  qed (use r in \<open>simp_all add: run\<close>)
  have returns: "\<exists>r. wait_for_consumers_ready b pid n start timeout (obs @ [(t1, w1), (t2, w2)]) = Returns r"
    if late: "timeout \<le> t1 - start" "timeout \<le> t2 - start"
  proof -
    obtain ok rest where r: "?spin ?eff (obs @ (t1, w1) # [(t2, w2)]) = Returns (ok, rest @ [(t2, w2)])"
      using spin_returns [of ?eff t1 start h n obs w1 "[(t2, w2)]"] late(1) by (auto simp: min_le_iff_disj)
    obtain ok2 rest2 where "?spin timeout (rest @ (t2, w2) # []) = Returns (ok2, rest2 @ [])"
      using spin_returns [of timeout t2 start h n rest w2 "[]"] late(2) by auto
    then show ?thesis using r by (cases ok; cases "?eff < timeout") (auto simp: run)
  qed
  have decided: "\<exists>rest. wait_for_consumers_ready b pid n start timeout obs = Returns (True, rest @ late)"
    if "obs = early @ (now, w) # late" "n \<le> load w h" "now - start < timeout"
      "\<forall>(t, v) \<in> set early. t - start < timeout"
      "now - start < ?eff \<or> (\<exists>(t, v) \<in> set early. ?eff \<le> t - start)" for early now w late
    using coordination_reaches [OF that(2-5)] that(1) assms by (simp add: wait_for_consumers_ready_def)
  show ?thesis using success failure returns decided by blast
qed

theorem wait_for_consumers_ready_decides_witness:
  "wait_for_consumers_ready ((first_tracked 0)\<lparr>cb_ready := Some (''r_cr'', 5)\<rparr>) 1 1 0 100
     [(3, two_consumers), (7, two_consumers\<lparr>w_cells := (\<lambda>_. 1)\<rparr>)] = Returns (True, [])
   \<and> (\<exists>r. wait_for_consumers_ready ((first_tracked 0)\<lparr>cb_ready := Some (''r_cr'', 5)\<rparr>) 1 1 0 100
     ([] @ [(100, two_consumers), (101, two_consumers)]) = Returns r)"
proof -
  let ?b = "(first_tracked 0)\<lparr>cb_ready := Some (''r_cr'', 5)\<rparr>"
  have "cb_ready ?b = Some (''r_cr'', 5)" by simp
  note decides = wait_for_consumers_ready_decides [OF this, of 100 1 1 0 _ 100 101 two_consumers two_consumers]
  have "\<exists>r. wait_for_consumers_ready ?b 1 1 0 100 ([] @ [(100, two_consumers), (101, two_consumers)]) = Returns r"
    using decides [of "[]"] by simp
  then show ?thesis
    by (simp add: wait_for_consumers_ready_def wait_for_coordination_minimum_def
        coordination_timeout_for_def from_millis_def load_def two_consumers_def)
qed

end
