(* ===== verification/Liveness.thy ===== *)
theory Liveness
  imports Waits
begin

text \<open>
  Liveness of required consumers (\<open>disruptor-mp/src/required_consumer.rs\<close>): the policy, the
  producer-side progress records and the check that runs while the producer is blocked. The
  function that observes a consumer's sequence may change the state it reads (the barrier
  discovers cursors on demand), so it is threaded; alerts are returned in order.
\<close>

section \<open>Policy\<close>

datatype failure_action = GracefulShutdown

record alert =
  al_consumer_id :: string
  al_last_sequence :: int
  al_stalled_for :: nat

record liveness_config =
  lv_required_ids :: "string list"
  lv_startup_wait_timeout :: nat
  lv_progress_timeout :: nat
  lv_progress_check_interval :: nat
  lv_shutdown_grace_period :: nat
  lv_failure_action :: failure_action
  lv_alert_hook :: bool

definition liveness_config_new :: "string list \<Rightarrow> liveness_config option" where
  "liveness_config_new ids =
     (if ids = [] then None
      else Some \<lparr> lv_required_ids = ids, lv_startup_wait_timeout = from_secs 5,
                  lv_progress_timeout = from_millis 250, lv_progress_check_interval = from_millis 5,
                  lv_shutdown_grace_period = from_secs 1, lv_failure_action = GracefulShutdown,
                  lv_alert_hook = False \<rparr>)"

definition with_startup_wait_timeout :: "nat \<Rightarrow> liveness_config \<Rightarrow> liveness_config option" where
  "with_startup_wait_timeout d c = (if 0 < d then Some (c\<lparr>lv_startup_wait_timeout := d\<rparr>) else None)"

definition with_progress_timeout :: "nat \<Rightarrow> liveness_config \<Rightarrow> liveness_config option" where
  "with_progress_timeout d c = (if 0 < d then Some (c\<lparr>lv_progress_timeout := d\<rparr>) else None)"

definition with_progress_check_interval :: "nat \<Rightarrow> liveness_config \<Rightarrow> liveness_config option" where
  "with_progress_check_interval d c = (if 0 < d then Some (c\<lparr>lv_progress_check_interval := d\<rparr>) else None)"

definition with_shutdown_grace_period :: "nat \<Rightarrow> liveness_config \<Rightarrow> liveness_config" where
  "with_shutdown_grace_period d c = c\<lparr>lv_shutdown_grace_period := d\<rparr>"

definition with_alert_hook :: "liveness_config \<Rightarrow> liveness_config" where
  "with_alert_hook c = c\<lparr>lv_alert_hook := True\<rparr>"

datatype required_error =
    StartupTimeout "string list"
  | GracefulShutdownTriggered string int nat

section \<open>Progress records\<close>

record progress =
  pr_last_observed :: int
  pr_last_progress_at :: nat
  pr_stall_started_at :: "nat option"
  pr_alert_emitted :: bool

record liveness =
  ls_config :: liveness_config
  ls_consumers :: "string \<Rightarrow> progress option"
  ls_startup_completed :: bool
  ls_last_check_at :: nat
  ls_terminal_error :: "required_error option"

definition fresh_progress :: "int \<Rightarrow> nat \<Rightarrow> progress" where
  "fresh_progress sequence now =
     \<lparr> pr_last_observed = sequence, pr_last_progress_at = now, pr_stall_started_at = None,
       pr_alert_emitted = False \<rparr>"

definition liveness_new :: "nat \<Rightarrow> liveness_config \<Rightarrow> liveness" where
  "liveness_new now c =
     \<lparr> ls_config = c,
       ls_consumers = map_of (map (\<lambda>i. (i, fresh_progress (-1) now)) (lv_required_ids c)),
       ls_startup_completed = False, ls_last_check_at = now, ls_terminal_error = None \<rparr>"

definition mark_startup_completed :: "nat \<Rightarrow> liveness \<Rightarrow> liveness" where
  "mark_startup_completed now st = st\<lparr>ls_startup_completed := True, ls_last_check_at := now\<rparr>"

fun missing_ids :: "('b \<Rightarrow> string \<Rightarrow> bool \<times> 'b) \<Rightarrow> string list \<Rightarrow> 'b \<Rightarrow> string list \<times> 'b" where
  "missing_ids is_present [] b = ([], b)"
| "missing_ids is_present (i # ids) b =
     (case is_present b i of (present, b1) \<Rightarrow>
        case missing_ids is_present ids b1 of (missing, b2) \<Rightarrow>
          (if present then missing else i # missing, b2))"

definition missing_required_consumers ::
  "liveness \<Rightarrow> ('b \<Rightarrow> string \<Rightarrow> bool \<times> 'b) \<Rightarrow> 'b \<Rightarrow> string list \<times> 'b" where
  "missing_required_consumers st is_present b = missing_ids is_present (lv_required_ids (ls_config st)) b"

definition should_check :: "liveness \<Rightarrow> nat \<Rightarrow> bool" where
  "should_check st now \<longleftrightarrow> lv_progress_check_interval (ls_config st) \<le> now - ls_last_check_at st"

text \<open>The body of the loop of \<open>evaluate_blocked\<close> for one consumer: its new record, the alert it
  raised and the error it ends with.\<close>

definition check_consumer ::
  "liveness_config \<Rightarrow> nat \<Rightarrow> int \<Rightarrow> string \<Rightarrow> int option \<Rightarrow> progress
    \<Rightarrow> progress \<times> alert option \<times> required_error option" where
  "check_consumer c now producer_sequence consumer observed p =
     (let advanced = (case observed of Some s \<Rightarrow> pr_last_observed p < s | None \<Rightarrow> False);
          caught_up = (case observed of Some s \<Rightarrow> producer_sequence \<le> s | None \<Rightarrow> False) in
      if advanced then (fresh_progress (the observed) now, None, None)
      else if caught_up then (fresh_progress (pr_last_observed p) now, None, None)
      else
        let stalled_for = now - pr_last_progress_at p in
        if stalled_for < lv_progress_timeout c then (p, None, None)
        else
          let started = (case pr_stall_started_at p of Some t \<Rightarrow> t | None \<Rightarrow> now);
              p1 = p\<lparr>pr_stall_started_at := Some started, pr_alert_emitted := True\<rparr>;
              raised = (if \<not> pr_alert_emitted p
                        then Some \<lparr> al_consumer_id = consumer, al_last_sequence = pr_last_observed p,
                                    al_stalled_for = stalled_for \<rparr>
                        else None) in
          if now - started < lv_shutdown_grace_period c then (p1, raised, None)
          else (case lv_failure_action c of
                  GracefulShutdown \<Rightarrow>
                    (p1, raised,
                     Some (GracefulShutdownTriggered consumer (pr_last_observed p) stalled_for))))"

text \<open>The loop itself; \<open>None\<close> is the failed \<open>expect\<close> on a consumer without a record.\<close>

fun evaluate_consumers ::
  "nat \<Rightarrow> int \<Rightarrow> ('b \<Rightarrow> string \<Rightarrow> int option \<times> 'b) \<Rightarrow> string list \<Rightarrow> liveness \<Rightarrow> 'b
    \<Rightarrow> (required_error option \<times> liveness \<times> 'b \<times> alert list) option" where
  "evaluate_consumers now producer_sequence observe [] st b = Some (None, st, b, [])"
| "evaluate_consumers now producer_sequence observe (i # ids) st b =
     (case observe b i of (observed, b1) \<Rightarrow>
      case ls_consumers st i of
        None \<Rightarrow> None
      | Some p \<Rightarrow>
          (case check_consumer (ls_config st) now producer_sequence i observed p of (p1, raised, failure) \<Rightarrow>
             let st1 = st\<lparr>ls_consumers := (ls_consumers st)(i \<mapsto> p1)\<rparr>;
                 alerts = (case raised of None \<Rightarrow> [] | Some a \<Rightarrow> [a]) in
             case failure of
               Some e \<Rightarrow> Some (Some e, st1\<lparr>ls_terminal_error := Some e\<rparr>, b1, alerts)
             | None \<Rightarrow>
                 (case evaluate_consumers now producer_sequence observe ids st1 b1 of
                    None \<Rightarrow> None
                  | Some (r, st2, b2, later) \<Rightarrow> Some (r, st2, b2, alerts @ later))))"

definition evaluate_blocked ::
  "nat \<Rightarrow> int \<Rightarrow> ('b \<Rightarrow> string \<Rightarrow> int option \<times> 'b) \<Rightarrow> liveness \<Rightarrow> 'b
    \<Rightarrow> (required_error option \<times> liveness \<times> 'b \<times> alert list) option" where
  "evaluate_blocked now producer_sequence observe st b =
     (case ls_terminal_error st of
        Some e \<Rightarrow> Some (Some e, st, b, [])
      | None \<Rightarrow>
          if \<not> should_check st now then Some (None, st, b, [])
          else evaluate_consumers now producer_sequence observe (lv_required_ids (ls_config st))
                 (st\<lparr>ls_last_check_at := now\<rparr>) b)"

fun seed_consumers ::
  "nat \<Rightarrow> ('b \<Rightarrow> string \<Rightarrow> int option \<times> 'b) \<Rightarrow> string list \<Rightarrow> liveness \<Rightarrow> 'b \<Rightarrow> (liveness \<times> 'b) option" where
  "seed_consumers now observe [] st b = Some (st, b)"
| "seed_consumers now observe (i # ids) st b =
     (case observe b i of (observed, b1) \<Rightarrow>
      case ls_consumers st i of
        None \<Rightarrow> None
      | Some p \<Rightarrow>
          let s = (case observed of Some s \<Rightarrow> s | None \<Rightarrow> -1) in
          seed_consumers now observe ids
            (st\<lparr>ls_consumers := (ls_consumers st)(i \<mapsto> fresh_progress s now)\<rparr>) b1)"

definition seed_progress ::
  "nat \<Rightarrow> ('b \<Rightarrow> string \<Rightarrow> int option \<times> 'b) \<Rightarrow> liveness \<Rightarrow> 'b \<Rightarrow> (liveness \<times> 'b) option" where
  "seed_progress now observe st b = seed_consumers now observe (lv_required_ids (ls_config st)) st b"

section \<open>One consumer over time\<close>

text \<open>The checks of one consumer over a sequence of samples (clock, producer sequence, observed
  sequence), up to the first error.\<close>

type_synonym sample = "nat \<times> int \<times> int option"

fun run_checks ::
  "liveness_config \<Rightarrow> string \<Rightarrow> sample list \<Rightarrow> progress \<Rightarrow> progress \<times> alert list \<times> required_error option" where
  "run_checks c i [] p = (p, [], None)"
| "run_checks c i ((now, ps, observed) # xs) p =
     (case check_consumer c now ps i observed p of (p1, raised, failure) \<Rightarrow>
        let alerts = (case raised of None \<Rightarrow> [] | Some a \<Rightarrow> [a]) in
        case failure of
          Some e \<Rightarrow> (p1, alerts, Some e)
        | None \<Rightarrow> (case run_checks c i xs p1 of (p2, later, r) \<Rightarrow> (p2, alerts @ later, r)))"

text \<open>A sample shows no progress beyond \<open>s\<close> and a consumer that still gates the producer.\<close>

definition quiet :: "int \<Rightarrow> sample \<Rightarrow> bool" where
  "quiet s x = (case x of (now, ps, observed) \<Rightarrow>
     (case observed of None \<Rightarrow> True | Some q \<Rightarrow> q \<le> s \<and> q < ps))"

lemma check_not_quiet:
  assumes "\<not> quiet (pr_last_observed p) (now, ps, observed)"
  shows "\<exists>s. check_consumer c now ps i observed p = (fresh_progress s now, None, None)"
  using assms by (auto simp: quiet_def check_consumer_def Let_def split: option.splits)

lemma check_quiet:
  assumes "quiet (pr_last_observed p) (now, ps, observed)"
  shows "check_consumer c now ps i observed p =
     (let d = now - pr_last_progress_at p;
          started = (case pr_stall_started_at p of Some t \<Rightarrow> t | None \<Rightarrow> now);
          p1 = p\<lparr>pr_stall_started_at := Some started, pr_alert_emitted := True\<rparr>;
          raised = (if pr_alert_emitted p then None
                    else Some \<lparr> al_consumer_id = i, al_last_sequence = pr_last_observed p,
                                al_stalled_for = d \<rparr>) in
      if d < lv_progress_timeout c then (p, None, None)
      else if now - started < lv_shutdown_grace_period c then (p1, raised, None)
      else (p1, raised, Some (GracefulShutdownTriggered i (pr_last_observed p) d)))"
  using assms
  by (cases "lv_failure_action c")
    (auto simp: quiet_def check_consumer_def Let_def split: option.splits)

text \<open>A stall, seen by the checks of one consumer: its record keeps the last progress, and the one
  alert is raised by the first check at least the progress timeout after it.\<close>

definition stall_alerts :: "liveness_config \<Rightarrow> string \<Rightarrow> progress \<Rightarrow> sample list \<Rightarrow> alert list" where
  "stall_alerts c i p xs =
     (if pr_alert_emitted p then []
      else case find (\<lambda>x. lv_progress_timeout c \<le> fst x - pr_last_progress_at p) xs of
             None \<Rightarrow> []
           | Some x \<Rightarrow> [\<lparr> al_consumer_id = i, al_last_sequence = pr_last_observed p,
                          al_stalled_for = fst x - pr_last_progress_at p \<rparr>])"

lemma run_checks_quiet_Cons:
  assumes "quiet (pr_last_observed p) (now, ps, observed)" "run_checks c i ((now, ps, observed) # xs) p = (p', alerts, r)"
    and "ts = (case pr_stall_started_at p of Some t \<Rightarrow> t | None \<Rightarrow> now)"
    and "p1 = p\<lparr>pr_stall_started_at := Some ts, pr_alert_emitted := True\<rparr>"
    and "d = now - pr_last_progress_at p"
    and "raised = (if pr_alert_emitted p then []
           else [\<lparr> al_consumer_id = i, al_last_sequence = pr_last_observed p, al_stalled_for = d \<rparr>])"
  obtains (early) "d < lv_progress_timeout c" "run_checks c i xs p = (p', alerts, r)"
    | (grace) later where "lv_progress_timeout c \<le> d" "now - ts < lv_shutdown_grace_period c"
        "run_checks c i xs p1 = (p', later, r)" "alerts = raised @ later"
    | (fail) "lv_progress_timeout c \<le> d" "lv_shutdown_grace_period c \<le> now - ts" "p' = p1" "alerts = raised"
        "r = Some (GracefulShutdownTriggered i (pr_last_observed p) d)"
  using assms(2)
  by (auto simp: check_quiet [OF assms(1)] assms(3-6) Let_def not_less split: prod.splits if_splits)

lemma quiet_run:
  assumes "\<forall>x \<in> set xs. quiet (pr_last_observed p) x" "run_checks c i xs p = (p', alerts, r)"
  shows "alerts = stall_alerts c i p xs
         \<and> pr_last_observed p' = pr_last_observed p \<and> pr_last_progress_at p' = pr_last_progress_at p
         \<and> pr_alert_emitted p' = (pr_alert_emitted p \<or> alerts \<noteq> [])"
  using assms
proof (induction xs arbitrary: p alerts)
  case (Cons x xs)
  obtain now ps observed where x: "x = (now, ps, observed)" by (cases x)
  have q: "quiet (pr_last_observed p) (now, ps, observed)" using Cons.prems(1) x by simp
  from q Cons.prems(2) [unfolded x] HOL.refl HOL.refl HOL.refl HOL.refl show ?case
  proof (cases rule: run_checks_quiet_Cons)
    case early
    then show ?thesis using Cons.IH [OF _ early(2)] Cons.prems(1)
      by (simp add: stall_alerts_def x)
  next
    case (grace later)
    then show ?thesis using Cons.IH [OF _ grace(3)] Cons.prems(1)
      by (simp add: stall_alerts_def x)
  next
    case fail
    then show ?thesis by (simp add: stall_alerts_def x)
  qed
qed (simp add: stall_alerts_def)

text \<open>Once a stall has started, a check after the progress timeout and the grace period ends the
  checks; a first check after the progress timeout starts it.\<close>

lemma started_stall_ends:
  assumes "\<forall>x \<in> set xs. quiet (pr_last_observed p) x" "run_checks c i xs p = (p', alerts, r)"
    and "pr_stall_started_at p = Some t" "y \<in> set xs"
    and "lv_progress_timeout c \<le> fst y - pr_last_progress_at p" "lv_shutdown_grace_period c \<le> fst y - t"
  shows "r \<noteq> None"
  using assms
proof (induction xs arbitrary: p alerts)
  case (Cons x xs)
  obtain now ps observed where x: "x = (now, ps, observed)" by (cases x)
  have q: "quiet (pr_last_observed p) (now, ps, observed)" using Cons.prems(1) x by simp
  from q Cons.prems(2) [unfolded x] HOL.refl HOL.refl HOL.refl HOL.refl show ?case
  proof (cases rule: run_checks_quiet_Cons)
    case early
    then show ?thesis using Cons.IH [OF _ early(2)] Cons.prems by (auto simp: x)
  next
    case (grace later)
    then show ?thesis using Cons.IH [OF _ grace(3)] Cons.prems by (auto simp: x)
  qed simp
qed simp

lemma stall_ends:
  assumes "\<forall>x \<in> set (us @ x1 # vs). quiet (pr_last_observed p) x"
    and "run_checks c i (us @ x1 # vs) p = (p', alerts, r)"
    and "\<forall>t. pr_stall_started_at p = Some t \<longrightarrow> t \<le> fst x1" "\<forall>u \<in> set us. fst u \<le> fst x1" "x2 \<in> set vs"
    and "lv_progress_timeout c \<le> fst x1 - pr_last_progress_at p" "fst x1 \<le> fst x2"
        "lv_shutdown_grace_period c \<le> fst x2 - fst x1"
  shows "r \<noteq> None"
  using assms
proof (induction us arbitrary: p alerts)
  case Nil
  obtain now ps observed where x: "x1 = (now, ps, observed)" by (cases x1)
  have q: "quiet (pr_last_observed p) (now, ps, observed)" using Nil.prems(1) x by simp
  have run: "run_checks c i ((now, ps, observed) # vs) p = (p', alerts, r)" using Nil.prems(2) x by simp
  from q run HOL.refl HOL.refl HOL.refl HOL.refl show ?case
  proof (cases rule: run_checks_quiet_Cons)
    case early
    then show ?thesis using Nil.prems(6) by (simp add: x)
  next
    case (grace later)
    have "lv_shutdown_grace_period c
        \<le> fst x2 - (case pr_stall_started_at p of None \<Rightarrow> now | Some t \<Rightarrow> t)"
      using Nil.prems(3,7,8) by (auto simp: x split: option.splits)
    then show ?thesis using started_stall_ends [OF _ grace(3)] Nil.prems x by auto
  qed simp
next
  case (Cons u us)
  obtain now ps observed where x: "u = (now, ps, observed)" by (cases u)
  have q: "quiet (pr_last_observed p) (now, ps, observed)" using Cons.prems(1) x by simp
  have run: "run_checks c i ((now, ps, observed) # us @ x1 # vs) p = (p', alerts, r)"
    using Cons.prems(2) x by simp
  from q run HOL.refl HOL.refl HOL.refl HOL.refl show ?case
  proof (cases rule: run_checks_quiet_Cons)
    case early
    then show ?thesis using Cons.IH [OF _ early(2)] Cons.prems by auto
  next
    case (grace later)
    then show ?thesis
      using Cons.IH [OF _ grace(3)] Cons.prems by (auto simp: x split: option.splits)
  qed simp
qed

text \<open>What a record says of the samples seen since it was seeded with sequence \<open>s0\<close> at time \<open>t0\<close>:
  its last progress is the seed or a sample that advanced or caught up, all later samples are
  quiet, and a started stall starts at a sample at least the progress timeout after it.\<close>

definition progress_origin :: "int \<Rightarrow> nat \<Rightarrow> sample list \<Rightarrow> int \<Rightarrow> nat \<Rightarrow> bool" where
  "progress_origin s0 t0 before s t \<longleftrightarrow>
     (if before = [] then s = s0 \<and> t = t0
      else \<exists>ps q. last before = (t, ps, Some q) \<and> (q = s \<or> ps \<le> q \<and> q \<le> s))"

definition seen_up_to :: "int \<Rightarrow> sample list \<Rightarrow> bool" where
  "seen_up_to s xs \<longleftrightarrow> (\<forall>x \<in> set xs. \<forall>q. snd (snd x) = Some q \<longrightarrow> q \<le> s)"

definition record_explained :: "liveness_config \<Rightarrow> int \<Rightarrow> nat \<Rightarrow> sample list \<Rightarrow> progress \<Rightarrow> bool" where
  "record_explained c s0 t0 past p \<longleftrightarrow>
     (\<exists>before stall. past = before @ stall
        \<and> progress_origin s0 t0 before (pr_last_observed p) (pr_last_progress_at p)
        \<and> s0 \<le> pr_last_observed p \<and> seen_up_to (pr_last_observed p) past
        \<and> (\<forall>x \<in> set stall. quiet (pr_last_observed p) x)
        \<and> (\<forall>t. pr_stall_started_at p = Some t \<longrightarrow>
             (\<exists>us vs. stall = us @ vs \<and> vs \<noteq> [] \<and> fst (hd vs) = t
                \<and> lv_progress_timeout c \<le> t - pr_last_progress_at p)))"

lemma seen_up_to_append [simp]: "seen_up_to s (xs @ ys) \<longleftrightarrow> seen_up_to s xs \<and> seen_up_to s ys"
  by (auto simp: seen_up_to_def)

lemma seen_up_to_mono: "seen_up_to s xs \<Longrightarrow> s \<le> s' \<Longrightarrow> seen_up_to s' xs"
  by (fastforce simp: seen_up_to_def split: option.splits)

lemma record_explained_progress:
  assumes "record_explained c s0 t0 past p" "\<not> quiet (pr_last_observed p) (now, ps, observed)"
    and "check_consumer c now ps i observed p = (p1, raised, failure)"
  shows "record_explained c s0 t0 (past @ [(now, ps, observed)]) p1 \<and> raised = None \<and> failure = None"
proof -
  obtain q where o: "observed = Some q" "pr_last_observed p < q \<or> ps \<le> q"
    using assms(2) by (auto simp: quiet_def split: option.splits)
  define s where "s = max (pr_last_observed p) q"
  have "check_consumer c now ps i observed p = (fresh_progress s now, None, None)"
    using o by (auto simp: check_consumer_def s_def max_def)
  then have p1: "p1 = fresh_progress s now" "raised = None" "failure = None" using assms(3) by auto
  have "pr_last_observed p \<le> s" "q \<le> s" "s = q \<or> ps \<le> q" using o(2) by (auto simp: s_def max_def)
  moreover have "s0 \<le> pr_last_observed p" "seen_up_to (pr_last_observed p) past"
    using assms(1) by (auto simp: record_explained_def)
  ultimately have "progress_origin s0 t0 (past @ [(now, ps, observed)]) s now"
      "s0 \<le> s" "seen_up_to s (past @ [(now, ps, observed)])"
    by (auto simp: progress_origin_def o(1) seen_up_to_def)
  then show ?thesis
    unfolding record_explained_def p1
    by (intro conjI exI [of _ "past @ [(now, ps, observed)]"] exI [of _ "[]"])
      (simp_all add: fresh_progress_def)
qed

lemma record_explained_quiet:
  assumes "record_explained c s0 t0 past p" "quiet (pr_last_observed p) (now, ps, observed)"
  shows "record_explained c s0 t0 (past @ [(now, ps, observed)]) p"
    and "lv_progress_timeout c \<le> now - pr_last_progress_at p \<Longrightarrow>
      record_explained c s0 t0 (past @ [(now, ps, observed)])
        (p\<lparr>pr_stall_started_at := Some (case pr_stall_started_at p of Some t \<Rightarrow> t | None \<Rightarrow> now),
           pr_alert_emitted := True\<rparr>)"
proof -
  let ?x = "(now, ps, observed)"
  obtain before stall where past: "past = before @ stall"
      and origin: "progress_origin s0 t0 before (pr_last_observed p) (pr_last_progress_at p)"
      and seen: "s0 \<le> pr_last_observed p" "seen_up_to (pr_last_observed p) past"
      and quiet: "\<forall>x \<in> set stall. quiet (pr_last_observed p) x"
      and started: "\<forall>t. pr_stall_started_at p = Some t \<longrightarrow>
             (\<exists>us vs. stall = us @ vs \<and> vs \<noteq> [] \<and> fst (hd vs) = t
                \<and> lv_progress_timeout c \<le> t - pr_last_progress_at p)"
    using assms(1) unfolding record_explained_def by blast
  have seen': "seen_up_to (pr_last_observed p) [?x]"
    using assms(2) by (auto simp: quiet_def seen_up_to_def split: option.splits)
  have quiet': "\<forall>x \<in> set (stall @ [?x]). quiet (pr_last_observed p) x" using quiet assms(2) by simp
  have started': "\<exists>us vs. stall @ [?x] = us @ vs \<and> vs \<noteq> [] \<and> fst (hd vs) = t
                \<and> lv_progress_timeout c \<le> t - pr_last_progress_at p"
    if "pr_stall_started_at p = Some t" for t
  proof -
    obtain us vs where "stall = us @ vs" "vs \<noteq> []" "fst (hd vs) = t"
      "lv_progress_timeout c \<le> t - pr_last_progress_at p" using started \<open>pr_stall_started_at p = Some t\<close> by blast
    then show ?thesis by (intro exI [of _ us] exI [of _ "vs @ [?x]"]) simp
  qed
  show "record_explained c s0 t0 (past @ [?x]) p"
    unfolding record_explained_def
    using past origin seen seen' quiet' started'
    by (intro exI [of _ before] exI [of _ "stall @ [?x]"]) simp
  assume late: "lv_progress_timeout c \<le> now - pr_last_progress_at p"
  have "\<exists>us vs. stall @ [?x] = us @ vs \<and> vs \<noteq> []
          \<and> fst (hd vs) = (case pr_stall_started_at p of Some t \<Rightarrow> t | None \<Rightarrow> now)
          \<and> lv_progress_timeout c \<le> (case pr_stall_started_at p of Some t \<Rightarrow> t | None \<Rightarrow> now) - pr_last_progress_at p"
  proof (cases "pr_stall_started_at p")
    case None
    then show ?thesis using late by (intro exI [of _ stall] exI [of _ "[?x]"]) simp
  qed (use started' in simp)
  then show "record_explained c s0 t0 (past @ [?x]) (p\<lparr>pr_stall_started_at := Some (case pr_stall_started_at p of Some t \<Rightarrow> t | None \<Rightarrow> now),
           pr_alert_emitted := True\<rparr>)"
    unfolding record_explained_def
    using past origin seen seen' quiet'
    by (intro exI [of _ before] exI [of _ "stall @ [?x]"]) simp
qed

lemma record_explained_stalled:
  assumes "record_explained c s0 t0 past p" "pr_stall_started_at p = Some t"
  obtains before us vs where "past = before @ us @ vs" "vs \<noteq> []" "fst (hd vs) = t"
    "progress_origin s0 t0 before (pr_last_observed p) (pr_last_progress_at p)"
    "s0 \<le> pr_last_observed p" "seen_up_to (pr_last_observed p) past"
    "\<forall>x \<in> set (us @ vs). quiet (pr_last_observed p) x"
    "lv_progress_timeout c \<le> t - pr_last_progress_at p"
  using assms unfolding record_explained_def by blast

text \<open>What a graceful shutdown says of the samples.\<close>

definition shutdown_explained ::
  "liveness_config \<Rightarrow> int \<Rightarrow> nat \<Rightarrow> sample list \<Rightarrow> int \<Rightarrow> nat \<Rightarrow> bool" where
  "shutdown_explained c s0 t0 xs s d \<longleftrightarrow>
     (\<exists>before us vs t. xs = before @ us @ vs \<and> vs \<noteq> []
        \<and> progress_origin s0 t0 before s t
        \<and> s0 \<le> s \<and> seen_up_to s xs \<and> (\<forall>x \<in> set (us @ vs). quiet s x)
        \<and> d = fst (last vs) - t \<and> lv_progress_timeout c \<le> d
        \<and> lv_progress_timeout c \<le> fst (hd vs) - t
        \<and> lv_shutdown_grace_period c \<le> fst (last vs) - fst (hd vs))"

lemma run_checks_error:
  assumes "record_explained c s0 t0 past p" "run_checks c i xs p = (p', alerts, Some e)"
  shows "\<exists>s d n. e = GracefulShutdownTriggered i s d \<and> shutdown_explained c s0 t0 (past @ take n xs) s d"
  using assms
proof (induction xs arbitrary: p past alerts)
  case (Cons x xs)
  obtain now ps observed where x: "x = (now, ps, observed)" by (cases x)
  have recurse: ?case
    if "run_checks c i xs q = (p', later, Some e)" "record_explained c s0 t0 (past @ [x]) q" for q later
    using Cons.IH [OF that(2,1)] by (metis append_assoc append_Cons append_Nil take_Suc_Cons)
  show ?case
  proof (cases "quiet (pr_last_observed p) (now, ps, observed)")
    case False
    obtain p1 raised failure where check: "check_consumer c now ps i observed p = (p1, raised, failure)"
      by (rule prod_cases3)
    from record_explained_progress [OF Cons.prems(1) False this]
    have "record_explained c s0 t0 (past @ [x]) p1" "raised = None" "failure = None" by (simp_all add: x)
    then show ?thesis using recurse Cons.prems(2) check by (auto simp: x split: prod.splits)
  next
    case q: True
    let ?t = "case pr_stall_started_at p of Some t \<Rightarrow> t | None \<Rightarrow> now"
    from q Cons.prems(2) [unfolded x] HOL.refl HOL.refl HOL.refl HOL.refl show ?thesis
    proof (cases rule: run_checks_quiet_Cons)
      case early
      then show ?thesis using recurse record_explained_quiet(1) [OF Cons.prems(1) q] x by blast
    next
      case (grace later)
      then show ?thesis using recurse record_explained_quiet(2) [OF Cons.prems(1) q] x by blast
    next
      case fail
      obtain before us vs where split: "past @ [x] = before @ us @ vs" "vs \<noteq> []" "fst (hd vs) = ?t"
        and rest: "progress_origin s0 t0 before (pr_last_observed p) (pr_last_progress_at p)"
          "s0 \<le> pr_last_observed p" "seen_up_to (pr_last_observed p) (past @ [x])"
          "\<forall>x \<in> set (us @ vs). quiet (pr_last_observed p) x"
          "lv_progress_timeout c \<le> ?t - pr_last_progress_at p"
        using record_explained_stalled [OF record_explained_quiet(2) [OF Cons.prems(1) q fail(1)]]
        by (simp add: x) blast
      have "last vs = x" using split(1,2) by (metis append_is_Nil_conv last_append last_snoc)
      then have "shutdown_explained c s0 t0 (past @ take 1 (x # xs)) (pr_last_observed p) (now - pr_last_progress_at p)"
        unfolding shutdown_explained_def
        using split rest fail(1,2) x
        by (intro exI [of _ before] exI [of _ us] exI [of _ vs] exI [of _ "pr_last_progress_at p"]) simp
      then show ?thesis using fail(5) by blast
    qed
  qed
qed simp

lemma fresh_record_explained: "record_explained c s0 t0 [] (fresh_progress s0 t0)"
  by (simp add: record_explained_def progress_origin_def seen_up_to_def fresh_progress_def)

text \<open>The policy with the default timeouts.\<close>

definition default_policy :: liveness_config where
  "default_policy = \<lparr> lv_required_ids = [''c''], lv_startup_wait_timeout = 5000000000,
     lv_progress_timeout = 250000000, lv_progress_check_interval = 5000000,
     lv_shutdown_grace_period = 1000000000, lv_failure_action = GracefulShutdown,
     lv_alert_hook = False \<rparr>"

section \<open>The check of the producer\<close>

text \<open>Every required consumer has a progress record.\<close>

definition liveness_wf :: "liveness \<Rightarrow> bool" where
  "liveness_wf st \<longleftrightarrow> (\<forall>i \<in> set (lv_required_ids (ls_config st)). ls_consumers st i \<noteq> None)"

lemma liveness_new_wf: "liveness_wf (liveness_new now c)"
  by (auto simp: liveness_wf_def liveness_new_def map_of_eq_None_iff image_image)

lemma evaluate_consumers_total:
  assumes "\<forall>i \<in> set ids. ls_consumers st i \<noteq> None"
  shows "\<exists>r st' b' alerts. evaluate_consumers now ps observe ids st b = Some (r, st', b', alerts)
           \<and> ls_config st' = ls_config st
           \<and> (\<forall>i. ls_consumers st i \<noteq> None \<longrightarrow> ls_consumers st' i \<noteq> None)
           \<and> ls_terminal_error st' = (if r = None then ls_terminal_error st else r)
           \<and> ls_last_check_at st' = ls_last_check_at st"
  using assms
proof (induction ids arbitrary: st b)
  case (Cons i ids)
  obtain observed b1 where o: "observe b i = (observed, b1)" by fastforce
  obtain p where p: "ls_consumers st i = Some p" using Cons.prems by auto
  obtain p1 raised failure where check: "check_consumer (ls_config st) now ps i observed p = (p1, raised, failure)"
    by (rule prod_cases3)
  let ?st1 = "st\<lparr>ls_consumers := (ls_consumers st)(i \<mapsto> p1)\<rparr>"
  have "\<forall>i \<in> set ids. ls_consumers ?st1 i \<noteq> None" using Cons.prems by simp
  from Cons.IH [OF this, of b1] show ?case
    by (cases failure) (fastforce simp: o p check Let_def split: if_splits)+
qed simp

lemma seed_consumers_total:
  assumes "\<forall>i \<in> set ids. ls_consumers st i \<noteq> None"
  shows "\<exists>st' b'. seed_consumers now observe ids st b = Some (st', b') \<and> ls_config st' = ls_config st
           \<and> (\<forall>i. ls_consumers st i \<noteq> None \<longrightarrow> ls_consumers st' i \<noteq> None)"
  using assms
proof (induction ids arbitrary: st b)
  case (Cons i ids)
  obtain observed b1 where o: "observe b i = (observed, b1)" by fastforce
  obtain p where p: "ls_consumers st i = Some p" using Cons.prems by auto
  let ?st1 = "st\<lparr>ls_consumers := (ls_consumers st)(i \<mapsto>
      fresh_progress (case observed of Some s \<Rightarrow> s | None \<Rightarrow> -1) now)\<rparr>"
  have "\<forall>i \<in> set ids. ls_consumers ?st1 i \<noteq> None" using Cons.prems by simp
  from Cons.IH [OF this, of b1] show ?case by (auto simp: o p Let_def split: if_splits)
qed simp

text \<open>The blocked-producer check. With a record for every required consumer the check never panics and
  keeps the records; a terminal error is sticky, is exactly what a failing check returns, and
  a check inside the check interval changes nothing.\<close>

lemma evaluate_blocked_total:
  assumes "liveness_wf st"
  shows "\<exists>r st' b' alerts. evaluate_blocked now ps observe st b = Some (r, st', b', alerts)
           \<and> liveness_wf st' \<and> ls_terminal_error st' = r
           \<and> (ls_terminal_error st \<noteq> None \<longrightarrow> r = ls_terminal_error st \<and> st' = st \<and> alerts = [])
           \<and> (ls_terminal_error st = None \<and> \<not> should_check st now \<longrightarrow>
                r = None \<and> st' = st \<and> b' = b \<and> alerts = [])"
proof (cases "ls_terminal_error st")
  case None
  let ?st = "st\<lparr>ls_last_check_at := now\<rparr>"
  have "\<forall>i \<in> set (lv_required_ids (ls_config st)). ls_consumers ?st i \<noteq> None"
    using assms by (simp add: liveness_wf_def)
  from evaluate_consumers_total [OF this, of now ps observe b] show ?thesis
    using assms None by (fastforce simp: evaluate_blocked_def liveness_wf_def split: if_splits)
qed (simp add: assms evaluate_blocked_def)

section \<open>The blocked producer over time\<close>

text \<open>A call of the check: the clock, the producer's sequence and what the barrier shows of every
  consumer. \<open>run_blocked\<close> is the sequence of calls a waiting producer makes, up to the first
  error; \<open>checked\<close> picks the calls that pass the check interval.\<close>

type_synonym blocked_call = "nat \<times> int \<times> (string \<Rightarrow> int option)"

fun run_blocked :: "blocked_call list \<Rightarrow> liveness \<Rightarrow> (required_error option \<times> liveness \<times> alert list) option" where
  "run_blocked [] st = Some (None, st, [])"
| "run_blocked ((now, ps, obs) # calls) st =
     (case evaluate_blocked now ps (\<lambda>b i. (obs i, b)) st () of
        None \<Rightarrow> None
      | Some (Some e, st1, b, alerts) \<Rightarrow> Some (Some e, st1, alerts)
      | Some (None, st1, b, alerts) \<Rightarrow>
          (case run_blocked calls st1 of
             None \<Rightarrow> None
           | Some (r, st2, later) \<Rightarrow> Some (r, st2, alerts @ later)))"

fun checked :: "nat \<Rightarrow> nat \<Rightarrow> blocked_call list \<Rightarrow> blocked_call list" where
  "checked interval previous [] = []"
| "checked interval previous (call # calls) =
     (if interval \<le> fst call - previous then call # checked interval (fst call) calls
      else checked interval previous calls)"

definition samples_of :: "liveness \<Rightarrow> string \<Rightarrow> blocked_call list \<Rightarrow> sample list" where
  "samples_of st i calls =
     map (\<lambda>(now, ps, obs). (now, ps, obs i))
       (checked (lv_progress_check_interval (ls_config st)) (ls_last_check_at st) calls)"

definition alerts_on :: "string \<Rightarrow> alert list \<Rightarrow> alert list" where
  "alerts_on i alerts = filter (\<lambda>a. al_consumer_id a = i) alerts"

definition blames :: "required_error \<Rightarrow> string \<Rightarrow> bool" where
  "blames e i \<longleftrightarrow> (case e of StartupTimeout missing \<Rightarrow> False | GracefulShutdownTriggered j s d \<Rightarrow> j = i)"

text \<open>A state the checks can start from.\<close>

definition monitoring :: "liveness \<Rightarrow> bool" where
  "monitoring st \<longleftrightarrow> liveness_wf st \<and> distinct (lv_required_ids (ls_config st)) \<and> ls_terminal_error st = None"

lemma alerts_on_simps [simp]:
  "alerts_on i [] = []" "alerts_on i (a # xs) = (if al_consumer_id a = i then a # alerts_on i xs else alerts_on i xs)" "alerts_on i (xs @ ys) = alerts_on i xs @ alerts_on i ys"
  "alerts_on i (case raised of None \<Rightarrow> [] | Some a \<Rightarrow> [a])
     = (case raised of None \<Rightarrow> [] | Some a \<Rightarrow> if al_consumer_id a = i then [a] else [])"
  by (auto simp: alerts_on_def split: option.splits)

lemma check_consumer_names:
  assumes "check_consumer c now ps i observed p = (p1, raised, failure)"
  shows "raised = Some a \<Longrightarrow> al_consumer_id a = i" "failure = Some e \<Longrightarrow> blames e i"
  using assms
  by (auto simp: check_consumer_def blames_def Let_def split: if_splits option.splits failure_action.splits)

lemma blames_unique: "blames e i \<Longrightarrow> blames e j \<Longrightarrow> i = j"
  by (auto simp: blames_def split: required_error.splits)

text \<open>One loop of the checks, seen from consumer \<open>i\<close>.\<close>

lemma evaluate_consumers_other:
  assumes "evaluate_consumers now ps (\<lambda>b j. (obs j, b)) ids st b = Some (r, st', b', alerts)" "i \<notin> set ids"
  shows "ls_consumers st' i = ls_consumers st i \<and> alerts_on i alerts = []
         \<and> (\<forall>e. r = Some e \<longrightarrow> \<not> blames e i)"
  using assms
proof (induction ids arbitrary: st alerts)
  case (Cons j ids)
  obtain p where p: "ls_consumers st j = Some p" using Cons.prems(1) by (auto split: option.splits)
  obtain p1 raised failure where check: "check_consumer (ls_config st) now ps j (obs j) p = (p1, raised, failure)"
    by (rule prod_cases3)
  have names: "\<And>a. raised = Some a \<Longrightarrow> al_consumer_id a \<noteq> i" "\<And>e. failure = Some e \<Longrightarrow> \<not> blames e i"
    using check_consumer_names [OF check] Cons.prems(2) by (auto dest: blames_unique)
  show ?case
  proof (cases failure)
    case None
    then obtain later where
      "evaluate_consumers now ps (\<lambda>b j. (obs j, b)) ids (st\<lparr>ls_consumers := (ls_consumers st)(j \<mapsto> p1)\<rparr>) b
        = Some (r, st', b', later)" "alerts = (case raised of None \<Rightarrow> [] | Some a \<Rightarrow> [a]) @ later"
      using Cons.prems(1) by (auto simp: p check Let_def split: option.splits)
    with Cons.IH [OF this(1)] Cons.prems(2) names(1) show ?thesis by (auto split: option.splits)
  next
    case (Some e)
    then show ?thesis using Cons.prems names by (auto simp: p check Let_def split: option.splits)
  qed
qed simp

lemma evaluate_consumers_blames:
  assumes "evaluate_consumers now ps observe ids st b = Some (Some e, st', b', alerts)"
  shows "\<exists>j \<in> set ids. blames e j"
  using assms
proof (induction ids arbitrary: st b alerts)
  case (Cons j ids)
  obtain o1 b1 where o: "observe b j = (o1, b1)" by fastforce
  obtain p where p: "ls_consumers st j = Some p" using Cons.prems by (auto simp: o split: option.splits)
  obtain p1 raised failure where check: "check_consumer (ls_config st) now ps j o1 p = (p1, raised, failure)"
    by (rule prod_cases3)
  show ?case
  proof (cases failure)
    case None
    then show ?thesis using Cons.IH [of _ b1] Cons.prems
      by (fastforce simp: o p check Let_def split: option.splits prod.splits)
  next
    case (Some e')
    then show ?thesis using Cons.prems check_consumer_names(2) [OF check] by (auto simp: o p check Let_def)
  qed
qed simp

lemma evaluate_consumers_project:
  assumes "evaluate_consumers now ps (\<lambda>b j. (obs j, b)) ids st b = Some (r, st', b', alerts)"
    and "i \<in> set ids" "distinct ids" "ls_consumers st i = Some p"
    and "check_consumer (ls_config st) now ps i (obs i) p = (p1, raised, failure)"
  shows "ls_consumers st' i = Some p1 \<and> alerts_on i alerts = (case raised of None \<Rightarrow> [] | Some a \<Rightarrow> [a])
           \<and> (case failure of None \<Rightarrow> \<forall>e. r = Some e \<longrightarrow> \<not> blames e i | Some e \<Rightarrow> r = Some e)
       \<or> ls_consumers st' i = Some p \<and> alerts_on i alerts = [] \<and> (\<exists>e. r = Some e \<and> \<not> blames e i)"
  using assms
proof (induction ids arbitrary: st alerts)
  case (Cons j ids)
  show ?case
  proof (cases "j = i")
    case True
    have i: "i \<notin> set ids" using Cons.prems(3) True by simp
    show ?thesis
    proof (cases failure)
      case None
      then obtain later where run:
        "evaluate_consumers now ps (\<lambda>b j. (obs j, b)) ids (st\<lparr>ls_consumers := (ls_consumers st)(i \<mapsto> p1)\<rparr>) b
          = Some (r, st', b', later)" "alerts = (case raised of None \<Rightarrow> [] | Some a \<Rightarrow> [a]) @ later"
        using Cons.prems(1,4,5) True by (auto simp: Let_def split: option.splits)
      from evaluate_consumers_other [OF run(1) i] check_consumer_names(1) [OF Cons.prems(5)] run(2) i None
      show ?thesis by (auto dest: blames_unique split: option.splits)
    next
      case (Some e)
      then show ?thesis
        using Cons.prems(1,4,5) True check_consumer_names(1) [OF Cons.prems(5)]
        by (auto simp: Let_def split: option.splits)
    qed
  next
    case False
    obtain q where q: "ls_consumers st j = Some q" using Cons.prems(1) by (auto split: option.splits)
    obtain q1 raised' failure' where check: "check_consumer (ls_config st) now ps j (obs j) q = (q1, raised', failure')"
      by (rule prod_cases3)
    have names: "\<And>a. raised' = Some a \<Longrightarrow> al_consumer_id a \<noteq> i" "\<And>e. failure' = Some e \<Longrightarrow> \<not> blames e i"
      using check_consumer_names [OF check] False by (auto dest: blames_unique)
    show ?thesis
    proof (cases failure')
      case None
      let ?st = "st\<lparr>ls_consumers := (ls_consumers st)(j \<mapsto> q1)\<rparr>"
      obtain later where run: "evaluate_consumers now ps (\<lambda>b j. (obs j, b)) ids ?st b = Some (r, st', b', later)"
        "alerts = (case raised' of None \<Rightarrow> [] | Some a \<Rightarrow> [a]) @ later"
        using Cons.prems(1) None by (auto simp: q check Let_def split: option.splits)
      have "alerts_on i alerts = alerts_on i later" using run(2) names(1) by (auto split: option.splits)
      then show ?thesis using Cons.IH [OF run(1)] Cons.prems False by simp
    next
      case (Some e)
      then show ?thesis using Cons.prems(1,4) False names
        by (auto simp: q check Let_def split: option.splits)
    qed
  qed
qed simp

text \<open>A run, seen from consumer \<open>i\<close>: the checks of its record over its samples. An error of another
  consumer cuts the samples short.\<close>

lemma evaluate_blocked_checks:
  assumes "monitoring st" "evaluate_blocked now ps (\<lambda>b j. (obs j, b)) st () = Some (r, st1, b, alerts)"
    and "i \<in> set (lv_required_ids (ls_config st))" "ls_consumers st i = Some p" "should_check st now"
    and "check_consumer (ls_config st) now ps i (obs i) p = (p1, raised, failure)"
  shows "ls_config st1 = ls_config st" "ls_last_check_at st1 = now" "r = None \<Longrightarrow> monitoring st1"
    and "ls_consumers st1 i = Some p1 \<and> alerts_on i alerts = (case raised of None \<Rightarrow> [] | Some a \<Rightarrow> [a])
           \<and> (case failure of None \<Rightarrow> \<forall>e. r = Some e \<longrightarrow> \<not> blames e i | Some e \<Rightarrow> r = Some e)
       \<or> ls_consumers st1 i = Some p \<and> alerts_on i alerts = [] \<and> (\<exists>e. r = Some e \<and> \<not> blames e i)"
proof -
  let ?st = "st\<lparr>ls_last_check_at := now\<rparr>" and ?ids = "lv_required_ids (ls_config st)"
  have run: "evaluate_consumers now ps (\<lambda>b j. (obs j, b)) ?ids ?st () = Some (r, st1, b, alerts)"
    using assms(1,2,5) by (simp add: evaluate_blocked_def monitoring_def)
  have wf: "\<forall>i \<in> set ?ids. ls_consumers ?st i \<noteq> None"
    using assms(1) by (simp add: monitoring_def liveness_wf_def)
  from evaluate_consumers_total [OF wf, of now ps "\<lambda>b j. (obs j, b)" "()"] run wf
  show "ls_config st1 = ls_config st" "ls_last_check_at st1 = now" "r = None \<Longrightarrow> monitoring st1"
    using assms(1) by (auto simp: monitoring_def liveness_wf_def)
  show "ls_consumers st1 i = Some p1 \<and> alerts_on i alerts = (case raised of None \<Rightarrow> [] | Some a \<Rightarrow> [a])
           \<and> (case failure of None \<Rightarrow> \<forall>e. r = Some e \<longrightarrow> \<not> blames e i | Some e \<Rightarrow> r = Some e)
       \<or> ls_consumers st1 i = Some p \<and> alerts_on i alerts = [] \<and> (\<exists>e. r = Some e \<and> \<not> blames e i)"
    by (rule evaluate_consumers_project [OF run assms(3)]) (use assms in \<open>simp_all add: monitoring_def\<close>)
qed

definition own_error :: "string \<Rightarrow> required_error option \<Rightarrow> required_error option" where
  "own_error i r = (case r of None \<Rightarrow> None | Some e \<Rightarrow> if blames e i then Some e else None)"

lemma run_blocked_project:
  assumes "monitoring st" "run_blocked calls st = Some (r, st', alerts)"
    and "i \<in> set (lv_required_ids (ls_config st))" "ls_consumers st i = Some p"
  shows "\<exists>n p'. ls_consumers st' i = Some p'
           \<and> run_checks (ls_config st) i (take n (samples_of st i calls)) p = (p', alerts_on i alerts, own_error i r)
           \<and> (r = None \<longrightarrow> length (samples_of st i calls) \<le> n)"
  using assms
proof (induction calls arbitrary: st p alerts)
  case Nil
  then show ?case by (intro exI [of _ 0] exI [of _ p]) (simp add: own_error_def samples_of_def)
next
  case (Cons call calls)
  obtain now ps obs where call: "call = (now, ps, obs)" by (cases call)
  obtain r1 st1 b a1 where step: "evaluate_blocked now ps (\<lambda>b j. (obs j, b)) st () = Some (r1, st1, b, a1)"
    using Cons.prems(2) by (auto simp: call split: option.splits prod.splits)
  obtain p1 raised failure where check: "check_consumer (ls_config st) now ps i (obs i) p = (p1, raised, failure)"
    by (rule prod_cases3)
  show ?case
  proof (cases "should_check st now")
    case False
    then have "r1 = None" "st1 = st" "a1 = []"
      using step Cons.prems(1) by (simp_all add: evaluate_blocked_def monitoring_def)
    moreover have "samples_of st i (call # calls) = samples_of st i calls"
      using False by (simp add: samples_of_def should_check_def call)
    ultimately show ?thesis using Cons.IH [of st alerts p] Cons.prems step
      by (auto simp: call split: option.splits prod.splits)
  next
    case True
    note checks = evaluate_blocked_checks [OF Cons.prems(1) step Cons.prems(3,4) True check]
    have samples: "samples_of st i (call # calls) = (now, ps, obs i) # samples_of st1 i calls"
      using True checks(1,2) by (simp add: samples_of_def should_check_def call)
    show ?thesis
    proof (cases r1)
      case None
      then obtain later where rest: "run_blocked calls st1 = Some (r, st', later)" "alerts = a1 @ later"
        using Cons.prems(2) step by (auto simp: call split: option.splits prod.splits)
      from None checks(4) have one: "ls_consumers st1 i = Some p1" "failure = None"
          "alerts_on i a1 = (case raised of None \<Rightarrow> [] | Some a \<Rightarrow> [a])"
        by (auto split: option.splits)
      from Cons.IH [OF checks(3) [OF None] rest(1) _ one(1)] checks(1) Cons.prems(3)
      obtain n p' where "ls_consumers st' i = Some p'"
        "run_checks (ls_config st) i (take n (samples_of st1 i calls)) p1 = (p', alerts_on i later, own_error i r)"
        "r = None \<longrightarrow> length (samples_of st1 i calls) \<le> n" by auto
      then show ?thesis
        using rest(2) one check samples by (intro exI [of _ "Suc n"] exI [of _ p']) simp
    next
      case (Some e)
      then have r: "r = Some e" "st' = st1" "alerts = a1"
        using Cons.prems(2) step by (simp_all add: call)
      from checks(4) show ?thesis
      proof (elim disjE conjE)
        assume "ls_consumers st1 i = Some p1" "alerts_on i a1 = (case raised of None \<Rightarrow> [] | Some a \<Rightarrow> [a])"
          and f: "case failure of None \<Rightarrow> \<forall>e. r1 = Some e \<longrightarrow> \<not> blames e i | Some e \<Rightarrow> r1 = Some e"
        moreover have "failure = own_error i r"
          using f Some r(1) check_consumer_names(2) [OF check] by (auto simp: own_error_def split: option.splits)
        ultimately show ?thesis
          using r check samples by (intro exI [of _ 1] exI [of _ p1]) (simp split: option.splits)
      next
        assume "ls_consumers st1 i = Some p" "alerts_on i a1 = []" "\<exists>e. r1 = Some e \<and> \<not> blames e i"
        then show ?thesis
          using r Some by (intro exI [of _ 0] exI [of _ p]) (auto simp: own_error_def)
      qed
    qed
  qed
qed

lemma evaluate_blocked_outcome:
  assumes "monitoring st"
  shows "\<exists>r st1 b1 a. evaluate_blocked now ps observe st b = Some (r, st1, b1, a)
           \<and> ls_config st1 = ls_config st \<and> ls_terminal_error st1 = r \<and> (r = None \<longrightarrow> monitoring st1)
           \<and> (\<forall>e. r = Some e \<longrightarrow> (\<exists>j \<in> set (lv_required_ids (ls_config st)). blames e j))"
proof (cases "should_check st now")
  case False
  then show ?thesis using assms by (simp add: evaluate_blocked_def monitoring_def)
next
  case True
  let ?st = "st\<lparr>ls_last_check_at := now\<rparr>" and ?ids = "lv_required_ids (ls_config st)"
  have wf: "\<forall>i \<in> set ?ids. ls_consumers ?st i \<noteq> None"
    using assms by (simp add: monitoring_def liveness_wf_def)
  obtain r st1 b1 a where run: "evaluate_consumers now ps observe ?ids ?st b = Some (r, st1, b1, a)"
    and keeps: "ls_config st1 = ls_config ?st" "\<forall>i. ls_consumers ?st i \<noteq> None \<longrightarrow> ls_consumers st1 i \<noteq> None"
      "ls_terminal_error st1 = (if r = None then ls_terminal_error ?st else r)"
    using evaluate_consumers_total [OF wf, of now ps observe b] by blast
  have "evaluate_blocked now ps observe st b = Some (r, st1, b1, a)"
    using run True assms by (simp add: evaluate_blocked_def monitoring_def)
  moreover have "ls_terminal_error st1 = r" using keeps(3) assms by (simp add: monitoring_def)
  moreover have "r = None \<longrightarrow> monitoring st1"
    using keeps assms wf by (simp add: monitoring_def liveness_wf_def)
  moreover have "\<forall>e. r = Some e \<longrightarrow> (\<exists>j \<in> set ?ids. blames e j)"
    using run by (auto dest: evaluate_consumers_blames)
  ultimately show ?thesis using keeps(1) by simp
qed

lemma run_blocked_outcome:
  assumes "monitoring st"
  shows "\<exists>r st' alerts. run_blocked calls st = Some (r, st', alerts) \<and> ls_terminal_error st' = r
           \<and> (\<forall>e. r = Some e \<longrightarrow> (\<exists>j \<in> set (lv_required_ids (ls_config st)). blames e j))"
  using assms
proof (induction calls arbitrary: st)
  case Nil
  then show ?case by (simp add: monitoring_def)
next
  case (Cons call calls)
  obtain now ps obs where call: "call = (now, ps, obs)" by (cases call)
  obtain r1 st1 b a1 where step: "evaluate_blocked now ps (\<lambda>b j. (obs j, b)) st () = Some (r1, st1, b, a1)"
    and keeps: "ls_config st1 = ls_config st" "ls_terminal_error st1 = r1" "r1 = None \<longrightarrow> monitoring st1"
    and blame: "\<forall>e. r1 = Some e \<longrightarrow> (\<exists>j \<in> set (lv_required_ids (ls_config st)). blames e j)"
    using evaluate_blocked_outcome [OF Cons.prems, of now ps "\<lambda>b j. (obs j, b)" "()"]
    by (elim exE conjE) (rule that)
  show ?case
  proof (cases r1)
    case None
    then obtain r st' later where "run_blocked calls st1 = Some (r, st', later)" "ls_terminal_error st' = r"
      "\<forall>e. r = Some e \<longrightarrow> (\<exists>j \<in> set (lv_required_ids (ls_config st)). blames e j)"
      using Cons.IH [of st1] keeps by auto
    then show ?thesis using step None by (simp add: call)
  next
    case (Some e)
    then show ?thesis using step blame keeps(2) by (simp add: call)
  qed
qed

lemma run_blocked_monitoring:
  assumes "monitoring st" "run_blocked calls st = Some (r, st', alerts)" "r = None"
  shows "monitoring st' \<and> ls_config st' = ls_config st"
  using assms
proof (induction calls arbitrary: st alerts)
  case (Cons call calls)
  obtain now ps obs where call: "call = (now, ps, obs)" by (cases call)
  obtain r1 st1 b a1 where step: "evaluate_blocked now ps (\<lambda>b j. (obs j, b)) st () = Some (r1, st1, b, a1)"
    and keeps: "ls_config st1 = ls_config st" "r1 = None \<longrightarrow> monitoring st1"
    using evaluate_blocked_outcome [OF Cons.prems(1), of now ps "\<lambda>b j. (obs j, b)" "()"]
    by (elim exE conjE) (rule that)
  show ?case
  proof (cases r1)
    case None
    then obtain later where "run_blocked calls st1 = Some (r, st', later)"
      using Cons.prems(2) step by (auto simp: call split: option.splits prod.splits)
    from Cons.IH [OF _ this Cons.prems(3)] keeps None show ?thesis by simp
  next
    case (Some e)
    then show ?thesis using Cons.prems(2,3) step by (simp add: call)
  qed
qed simp

lemma run_checks_split:
  "run_checks c i (xs @ ys) p =
     (case run_checks c i xs p of
        (p1, a, Some e) \<Rightarrow> (p1, a, Some e)
      | (p1, a, None) \<Rightarrow> (case run_checks c i ys p1 of (p2, b, r) \<Rightarrow> (p2, a @ b, r)))"
  by (induction xs arbitrary: p) (auto split: prod.splits option.splits)

lemma run_checks_take:
  assumes "run_checks c i (take n xs) p = (p', alerts, r)" "r \<noteq> None \<or> length xs \<le> n"
  shows "run_checks c i xs p = (p', alerts, r)"
  using assms run_checks_split [of c i "take n xs" "drop n xs" p] by (cases r) auto

lemma checked_subset: "set (checked interval previous calls) \<subseteq> set calls"
  by (induction calls arbitrary: previous) (auto split: if_splits)

lemma samples_of_all:
  assumes "\<And>now ps obs. (now, ps, obs) \<in> set calls \<Longrightarrow> P (now, ps, obs i)" "x \<in> set (samples_of st i calls)"
  shows "P x"
proof -
  obtain now ps obs where "x = (now, ps, obs i)" "(now, ps, obs) \<in> set calls"
    using assms(2) checked_subset [of "lv_progress_check_interval (ls_config st)" "ls_last_check_at st" calls]
    by (auto simp: samples_of_def)
  then show ?thesis using assms(1) by simp
qed

lemma samples_quiet:
  assumes "\<forall>(now, ps, obs) \<in> set calls. quiet s (now, ps, obs i)"
  shows "\<forall>x \<in> set (samples_of st i calls). quiet s x"
proof
  fix x assume "x \<in> set (samples_of st i calls)"
  then show "quiet s x" by (rule samples_of_all [rotated]) (use assms in auto)
qed

text \<open>CX. One alert for each stall. While a required consumer makes no progress and gates the producer, the
  sequence of blocked checks raises exactly one alert on it: at the first check at least the progress timeout
  after its last progress, with that time and its last sequence, or none when the stall had
  been alerted on before or no check comes that late. The record remembers the alert, so further checks
  of the stall raise none, and a check that sees progress forgets it and raises none, so that
  the next stall is alerted on again. The calls are those of a run that no other consumer ends.\<close>

theorem one_alert_per_stall:
  assumes "monitoring st" "i \<in> set (lv_required_ids (ls_config st))" "ls_consumers st i = Some p"
    and "\<forall>(now, ps, obs) \<in> set calls. quiet (pr_last_observed p) (now, ps, obs i)"
    and "run_blocked calls st = Some (r, st', alerts)" "\<forall>e. r = Some e \<longrightarrow> blames e i"
  shows "alerts_on i alerts = stall_alerts (ls_config st) i p (samples_of st i calls)
      \<and> (\<exists>p'. ls_consumers st' i = Some p' \<and> pr_last_observed p' = pr_last_observed p
           \<and> pr_last_progress_at p' = pr_last_progress_at p
           \<and> pr_alert_emitted p' = (pr_alert_emitted p \<or> alerts_on i alerts \<noteq> []))
      \<and> (\<forall>now ps obs q st2 b alerts2.
           r = None \<and> should_check st' now \<and> obs i = Some q \<and> pr_last_observed p < q
           \<and> evaluate_blocked now ps (\<lambda>b j. (obs j, b)) st' () = Some (None, st2, b, alerts2)
           \<longrightarrow> alerts_on i alerts2 = [] \<and> ls_consumers st2 i = Some (fresh_progress q now))"
proof -
  obtain n p' where p': "ls_consumers st' i = Some p'"
    and run: "run_checks (ls_config st) i (take n (samples_of st i calls)) p = (p', alerts_on i alerts, own_error i r)"
    and n: "r = None \<longrightarrow> length (samples_of st i calls) \<le> n"
    using run_blocked_project [OF assms(1,5,2,3)] by blast
  have "own_error i r = r" using assms(6) by (auto simp: own_error_def split: option.splits)
  with run_checks_take [OF run] n
  have "run_checks (ls_config st) i (samples_of st i calls) p = (p', alerts_on i alerts, r)" by auto
  from quiet_run [OF samples_quiet [OF assms(4)] this]
  have stall: "alerts_on i alerts = stall_alerts (ls_config st) i p (samples_of st i calls)"
    "pr_last_observed p' = pr_last_observed p" "pr_last_progress_at p' = pr_last_progress_at p"
    "pr_alert_emitted p' = (pr_alert_emitted p \<or> alerts_on i alerts \<noteq> [])" by simp_all
  have "alerts_on i alerts2 = [] \<and> ls_consumers st2 i = Some (fresh_progress q now)"
    if "r = None" "should_check st' now" "obs i = Some q" "pr_last_observed p < q"
      "evaluate_blocked now ps (\<lambda>b j. (obs j, b)) st' () = Some (None, st2, b, alerts2)"
    for now ps obs q st2 b alerts2
  proof -
    have "monitoring st'" "i \<in> set (lv_required_ids (ls_config st'))"
      using run_blocked_monitoring [OF assms(1,5) \<open>r = None\<close>] assms(2) by simp_all
    moreover have "check_consumer (ls_config st') now ps i (obs i) p' = (fresh_progress q now, None, None)"
      using that(3,4) stall(2) by (simp add: check_consumer_def)
    ultimately show ?thesis using evaluate_blocked_checks(4) [OF _ that(5) _ p' that(2)] by fastforce
  qed
  with stall p' show ?thesis by blast
qed

theorem one_alert_per_stall_witness:
  "\<exists>r st' alerts. run_blocked
       [(300000000, 9, \<lambda>i. Some 4), (301000000, 9, \<lambda>i. Some 4), (600000000, 9, \<lambda>i. Some 4), (900000000, 9, \<lambda>i. None)]
       (liveness_new 0 default_policy\<lparr>ls_consumers := [''c'' \<mapsto> fresh_progress 4 0]\<rparr>) = Some (r, st', alerts)
     \<and> alerts_on ''c'' alerts
         = [\<lparr>al_consumer_id = ''c'', al_last_sequence = 4, al_stalled_for = 300000000\<rparr>]"
proof -
  let ?st = "liveness_new 0 default_policy\<lparr>ls_consumers := [''c'' \<mapsto> fresh_progress 4 0]\<rparr>"
  let ?calls = "[(300000000, 9, \<lambda>i. Some 4), (301000000, 9, \<lambda>i. Some 4), (600000000, 9, \<lambda>i. Some 4), (900000000, 9, \<lambda>i. None)]
    :: blocked_call list"
  have st: "monitoring ?st"
    by (simp add: monitoring_def liveness_wf_def liveness_new_def default_policy_def)
  obtain r st' alerts where run: "run_blocked ?calls ?st = Some (r, st', alerts)"
    and blame: "\<forall>e. r = Some e \<longrightarrow> (\<exists>j \<in> set (lv_required_ids (ls_config ?st)). blames e j)"
    using run_blocked_outcome [OF st] by blast
  have "alerts_on ''c'' alerts = stall_alerts (ls_config ?st) ''c'' (fresh_progress 4 0) (samples_of ?st ''c'' ?calls)"
    by (rule conjunct1 [OF one_alert_per_stall [OF st _ _ _ run]])
      (use blame in \<open>auto simp: quiet_def fresh_progress_def liveness_new_def default_policy_def\<close>)
  also have "\<dots> = [\<lparr>al_consumer_id = ''c'', al_last_sequence = 4, al_stalled_for = 300000000\<rparr>]"
    by (simp add: stall_alerts_def samples_of_def fresh_progress_def liveness_new_def default_policy_def)
  finally show ?thesis using run by blast
qed

text \<open>CX. A shutdown is justified. When a run of blocked checks, started with freshly seeded records,
  ends with an error, it is a graceful shutdown that names a required consumer, the sequence it last showed and the time
  since its last progress, and it is the terminal error of the new state. Among the samples of that consumer the one of the
  last progress (or the seed) is the last that advanced or caught up, no later sample shows
  progress, the reported time is exactly the time since then and at least the progress timeout,
  and the stall starts at a check at least the progress timeout after it and lasts the grace period.\<close>

theorem shutdown_justified:
  assumes "monitoring st"
    and "\<forall>i \<in> set (lv_required_ids (ls_config st)). ls_consumers st i = Some (fresh_progress (s0 i) (t0 i))"
    and "run_blocked calls st = Some (Some e, st', alerts)"
  shows "ls_terminal_error st' = Some e
     \<and> (\<exists>i \<in> set (lv_required_ids (ls_config st)). \<exists>s d n. e = GracefulShutdownTriggered i s d
          \<and> shutdown_explained (ls_config st) (s0 i) (t0 i) (take n (samples_of st i calls)) s d)"
proof -
  obtain i where i: "i \<in> set (lv_required_ids (ls_config st))" "blames e i"
    and terminal: "ls_terminal_error st' = Some e"
    using run_blocked_outcome [OF assms(1), of calls] assms(3) by auto
  obtain n p' where "run_checks (ls_config st) i (take n (samples_of st i calls)) (fresh_progress (s0 i) (t0 i))
      = (p', alerts_on i alerts, Some e)"
    using run_blocked_project [OF assms(1,3) i(1)] assms(2) i by (auto simp: own_error_def)
  from run_checks_error [OF fresh_record_explained this]
  obtain s d m where "e = GracefulShutdownTriggered i s d"
    "shutdown_explained (ls_config st) (s0 i) (t0 i) (take m (take n (samples_of st i calls))) s d"
    by auto
  then show ?thesis using terminal i(1) by (auto simp: take_take)
qed

theorem shutdown_justified_witness:
  "\<exists>st' alerts s d n. run_blocked
       [(100000000, 9, \<lambda>i. Some 5), (400000000, 9, \<lambda>i. Some 5), (1500000000, 9, \<lambda>i. None)]
       (liveness_new 0 default_policy) = Some (Some (GracefulShutdownTriggered ''c'' 5 1400000000), st', alerts)
     \<and> GracefulShutdownTriggered ''c'' 5 1400000000 = GracefulShutdownTriggered ''c'' s d
     \<and> shutdown_explained default_policy (-1) 0
         (take n [(100000000, 9, Some 5), (400000000, 9, Some 5), (1500000000, 9, None)]) s d"
proof -
  let ?st = "liveness_new 0 default_policy"
  let ?calls = "[(100000000, 9, \<lambda>i. Some 5), (400000000, 9, \<lambda>i. Some 5), (1500000000, 9, \<lambda>i. None)] :: blocked_call list"
  have st: "monitoring ?st"
    by (simp add: monitoring_def liveness_wf_def liveness_new_def default_policy_def)
  have seeded: "\<forall>i \<in> set (lv_required_ids (ls_config ?st)). ls_consumers ?st i = Some (fresh_progress (-1) 0)"
    by (simp add: liveness_new_def default_policy_def)
  have "\<exists>st' alerts. run_blocked ?calls ?st = Some (Some (GracefulShutdownTriggered ''c'' 5 1400000000), st', alerts)"
    by (simp add: evaluate_blocked_def should_check_def check_consumer_def fresh_progress_def
        liveness_new_def default_policy_def)
  then obtain st' alerts where
    run: "run_blocked ?calls ?st = Some (Some (GracefulShutdownTriggered ''c'' 5 1400000000), st', alerts)" by blast
  have "samples_of ?st ''c'' ?calls = [(100000000, 9, Some 5), (400000000, 9, Some 5), (1500000000, 9, None)]"
    "ls_config ?st = default_policy"
    by (simp_all add: samples_of_def liveness_new_def default_policy_def)
  with shutdown_justified [OF st seeded run] run show ?thesis by (auto simp: default_policy_def)
qed

text \<open>A stall that ends the checks names the last sequence and the time since the last progress.\<close>

lemma quiet_run_error:
  assumes "\<forall>x \<in> set xs. quiet (pr_last_observed p) x" "run_checks c i xs p = (p', alerts, Some e)"
  shows "\<exists>z \<in> set xs. e = GracefulShutdownTriggered i (pr_last_observed p) (fst z - pr_last_progress_at p)
           \<and> lv_progress_timeout c \<le> fst z - pr_last_progress_at p"
  using assms
proof (induction xs arbitrary: p alerts)
  case (Cons x xs)
  obtain now ps observed where x: "x = (now, ps, observed)" by (cases x)
  have q: "quiet (pr_last_observed p) (now, ps, observed)" using Cons.prems(1) x by simp
  from q Cons.prems(2) [unfolded x] HOL.refl HOL.refl HOL.refl HOL.refl show ?case
  proof (cases rule: run_checks_quiet_Cons)
    case early
    then show ?thesis using Cons.IH [OF _ early(2)] Cons.prems(1) by auto
  next
    case (grace later)
    then show ?thesis using Cons.IH [OF _ grace(3)] Cons.prems(1) by auto
  next
    case fail
    then show ?thesis by (auto simp: x)
  qed
qed simp

lemma keeping_pace_no_error:
  assumes "\<forall>x \<in> set xs. \<exists>q. snd (snd x) = Some q \<and> fst (snd x) \<le> q"
  shows "snd (snd (run_checks c i xs p)) = None"
  using assms
proof (induction xs arbitrary: p)
  case (Cons x xs)
  then show ?case by (cases x) (auto simp: check_consumer_def split: prod.splits) 
qed simp

lemma stall_verdict:
  assumes "\<forall>x \<in> set xs. quiet (pr_last_observed (fresh_progress s0 t0)) x"
    and "run_checks c i xs (fresh_progress s0 t0) = (p', alerts, r)" "r = Some e"
  shows "\<exists>y z. find (\<lambda>x. lv_progress_timeout c \<le> fst x - t0) xs = Some y
           \<and> z \<in> set xs \<and> lv_progress_timeout c \<le> fst z - t0 \<and> e = GracefulShutdownTriggered i s0 (fst z - t0)
           \<and> alerts = [\<lparr>al_consumer_id = i, al_last_sequence = s0, al_stalled_for = fst y - t0\<rparr>]"
proof -
  obtain z where z: "z \<in> set xs" "e = GracefulShutdownTriggered i s0 (fst z - t0)"
    "lv_progress_timeout c \<le> fst z - t0"
    using quiet_run_error [OF assms(1) assms(2) [unfolded assms(3)]] by (auto simp: fresh_progress_def)
  obtain y where "find (\<lambda>x. lv_progress_timeout c \<le> fst x - t0) xs = Some y"
    using z(1,3) find_None_iff [of "\<lambda>x. lv_progress_timeout c \<le> fst x - t0" xs]
    by (cases "find (\<lambda>x. lv_progress_timeout c \<le> fst x - t0) xs") blast+
  moreover have "alerts = stall_alerts c i (fresh_progress s0 t0) xs" using quiet_run [OF assms(1,2)] by blast
  ultimately show ?thesis
    using z by (intro exI [of _ y] exI [of _ z]) (simp add: stall_alerts_def fresh_progress_def)
qed

lemma pace_keeper_not_blamed:
  assumes "monitoring st" "run_blocked calls st = Some (Some e, st', alerts)"
    and "j \<in> set (lv_required_ids (ls_config st))" "\<forall>(now, ps, obs) \<in> set calls. \<exists>q. obs j = Some q \<and> ps \<le> q"
  shows "\<not> blames e j"
proof
  assume "blames e j"
  obtain p where "ls_consumers st j = Some p" using assms(1,3) by (auto simp: monitoring_def liveness_wf_def)
  then obtain m p2 where run: "run_checks (ls_config st) j (take m (samples_of st j calls)) p
      = (p2, alerts_on j alerts, Some e)"
    using run_blocked_project [OF assms(1,2), of j p] assms(3) \<open>blames e j\<close> by (auto simp: own_error_def)
  have "\<forall>x \<in> set (take m (samples_of st j calls)). \<exists>q. snd (snd x) = Some q \<and> fst (snd x) \<le> q"
  proof
    fix x assume "x \<in> set (take m (samples_of st j calls))"
    then have "x \<in> set (samples_of st j calls)" by (rule in_set_takeD)
    then show "\<exists>q. snd (snd x) = Some q \<and> fst (snd x) \<le> q"
      by (rule samples_of_all [rotated]) (use assms(4) in auto)
  qed
  from keeping_pace_no_error [OF this, of "ls_config st" j p] run show False by simp
qed

text \<open>CX. A dead consumer is detected. If a required consumer stays quiet (no progress beyond its seed while it gates
  the producer), a check at least the progress timeout after the seed and another at least
  the grace period later make the run of blocked checks end with an error that names a required consumer and
  is kept as the terminal error, whatever checks lie between. If it names this consumer, it is a graceful shutdown with its last sequence
  and the time since the seed, and the run has raised exactly one alert on it, at the first check past the
  progress timeout. It does name this consumer when all other required consumers keep pace with the producer.\<close>

theorem dead_consumer_detected:
  assumes "monitoring st" "i \<in> set (lv_required_ids (ls_config st))" "ls_consumers st i = Some (fresh_progress s0 t0)"
    and "\<forall>(now, ps, obs) \<in> set calls. quiet s0 (now, ps, obs i)"
    and "samples_of st i calls = us @ x1 # vs" "x2 \<in> set vs" "\<forall>u \<in> set us. fst u \<le> fst x1" "fst x1 \<le> fst x2"
    and "lv_progress_timeout (ls_config st) \<le> fst x1 - t0"
    and "lv_shutdown_grace_period (ls_config st) \<le> fst x2 - fst x1"
  shows "\<exists>e st' alerts. run_blocked calls st = Some (Some e, st', alerts) \<and> ls_terminal_error st' = Some e
     \<and> (\<exists>j \<in> set (lv_required_ids (ls_config st)). blames e j)
     \<and> (blames e i \<longrightarrow>
          (\<exists>y z. find (\<lambda>x. lv_progress_timeout (ls_config st) \<le> fst x - t0) (samples_of st i calls) = Some y
             \<and> z \<in> set (samples_of st i calls) \<and> lv_progress_timeout (ls_config st) \<le> fst z - t0
             \<and> e = GracefulShutdownTriggered i s0 (fst z - t0)
             \<and> alerts_on i alerts
                 = [\<lparr>al_consumer_id = i, al_last_sequence = s0, al_stalled_for = fst y - t0\<rparr>]))
     \<and> ((\<forall>(now, ps, obs) \<in> set calls. \<forall>j \<in> set (lv_required_ids (ls_config st)) - {i}. \<exists>q. obs j = Some q \<and> ps \<le> q)
          \<longrightarrow> blames e i)"
proof -
  let ?c = "ls_config st" and ?xs = "samples_of st i calls" and ?p = "fresh_progress s0 t0"
  have quiet: "\<forall>x \<in> set ?xs. quiet (pr_last_observed ?p) x"
    using samples_quiet [OF assms(4)] by (simp add: fresh_progress_def)
  obtain r st' alerts where run: "run_blocked calls st = Some (r, st', alerts)" and terminal: "ls_terminal_error st' = r"
    and blame: "\<forall>e. r = Some e \<longrightarrow> (\<exists>j \<in> set (lv_required_ids ?c). blames e j)"
    using run_blocked_outcome [OF assms(1)] by blast
  obtain n p' where own: "run_checks ?c i (take n ?xs) ?p = (p', alerts_on i alerts, own_error i r)"
    and n: "r = None \<longrightarrow> length ?xs \<le> n"
    using run_blocked_project [OF assms(1) run assms(2,3)] by blast
  have "r \<noteq> None"
  proof
    assume "r = None"
    then have "run_checks ?c i (us @ x1 # vs) ?p = (p', alerts_on i alerts, None)"
      using run_checks_take [OF own] n assms(5) by (simp add: own_error_def)
    from stall_ends [OF _ this, of x2] quiet assms(5-10) show False by (auto simp: fresh_progress_def)
  qed
  then obtain e where e: "r = Some e" by blast
  have ended: "run_blocked calls st = Some (Some e, st', alerts)" "ls_terminal_error st' = Some e"
      "\<exists>j \<in> set (lv_required_ids ?c). blames e j"
    using run terminal blame e by simp_all
  have pinned: "\<exists>y z. find (\<lambda>x. lv_progress_timeout ?c \<le> fst x - t0) ?xs = Some y
             \<and> z \<in> set ?xs \<and> lv_progress_timeout ?c \<le> fst z - t0 \<and> e = GracefulShutdownTriggered i s0 (fst z - t0)
             \<and> alerts_on i alerts = [\<lparr>al_consumer_id = i, al_last_sequence = s0, al_stalled_for = fst y - t0\<rparr>]"
    if "blames e i"
    by (rule stall_verdict [OF quiet run_checks_take [OF own, unfolded e]])
      (use \<open>blames e i\<close> e in \<open>simp_all add: own_error_def\<close>)
  have named: "blames e i"
    if "\<forall>(now, ps, obs) \<in> set calls. \<forall>j \<in> set (lv_required_ids ?c) - {i}. \<exists>q. obs j = Some q \<and> ps \<le> q"
  proof -
    obtain j where j: "j \<in> set (lv_required_ids ?c)" "blames e j" using ended(3) by blast
    have "j = i"
    proof (rule ccontr)
      assume "j \<noteq> i"
      then have "\<forall>(now, ps, obs) \<in> set calls. \<exists>q. obs j = Some q \<and> ps \<le> q" using that j(1) by fastforce
      from pace_keeper_not_blamed [OF assms(1) ended(1) j(1) this] j(2) show False by simp
    qed
    with j(2) show ?thesis by simp
  qed
  show ?thesis
    by (intro exI [of _ e] exI [of _ st'] exI [of _ alerts] conjI impI) (fact ended | erule pinned | erule named)+
qed

theorem dead_consumer_detected_witness:
  "\<exists>e st' alerts. run_blocked
       [(100000000, 9, \<lambda>i. Some 4), (250000000, 9, \<lambda>i. Some 4), (300000000, 9, \<lambda>i. None), (1250000000, 9, \<lambda>i. Some 4)]
       (liveness_new 0 default_policy\<lparr>ls_consumers := [''c'' \<mapsto> fresh_progress 4 0]\<rparr>) = Some (Some e, st', alerts)
     \<and> ls_terminal_error st' = Some e \<and> blames e ''c''"
proof -
  let ?st = "liveness_new 0 default_policy\<lparr>ls_consumers := [''c'' \<mapsto> fresh_progress 4 0]\<rparr>"
  let ?calls = "[(100000000, 9, \<lambda>i. Some 4), (250000000, 9, \<lambda>i. Some 4), (300000000, 9, \<lambda>i. None), (1250000000, 9, \<lambda>i. Some 4)]
    :: blocked_call list"
  have st: "monitoring ?st"
    by (simp add: monitoring_def liveness_wf_def liveness_new_def default_policy_def)
  have ids: "lv_required_ids (ls_config ?st) = [''c'']" by (simp add: liveness_new_def default_policy_def)
  have quiet: "\<forall>(now, ps, obs) \<in> set ?calls. quiet 4 (now, ps, obs ''c'')" by (simp add: quiet_def)
  have samples: "samples_of ?st ''c'' ?calls
      = [(100000000, 9, Some 4)] @ (250000000, 9, Some 4) # [(300000000, 9, None), (1250000000, 9, Some 4)]"
    by (simp add: samples_of_def liveness_new_def default_policy_def)
  from dead_consumer_detected [OF st _ _ quiet samples, of 0 "(1250000000, 9, Some 4)"] ids
  obtain e st' alerts where "run_blocked ?calls ?st = Some (Some e, st', alerts)" "ls_terminal_error st' = Some e"
    "blames e ''c''"
    by (force simp: liveness_new_def default_policy_def)
  then show ?thesis by blast
qed

end
