(* ===== verification/Counters.thy ===== *)
theory Counters
  imports Config
begin

text \<open>
  The shared counters file (\<open>disruptor-mp/src/observability/mod.rs\<close>) and the loop that
  exports it (\<open>observability/aggregator.rs\<close>). The region is modelled by its header and its
  array of slots, which is what the \<open>repr(C)\<close> structures make of it; a writer's handle is
  the index of its slot, and every atomic access is one step.
\<close>

section \<open>Layout\<close>

definition CACHE_LINE_BYTES :: nat where
  "CACHE_LINE_BYTES = 64"

definition COUNTERS_FILE_RESERVED_BYTES :: nat where
  "COUNTERS_FILE_RESERVED_BYTES = 4096"

definition COUNTERS_MAGIC :: u32 where
  "COUNTERS_MAGIC = 0x3043594D"

definition MAX_COUNTER_SLOTS :: nat where
  "MAX_COUNTER_SLOTS = 62"

definition COUNTER_LABEL_BYTES :: nat where
  "COUNTER_LABEL_BYTES = 48"

definition COUNTER_FLAG_IN_USE :: u32 where
  "COUNTER_FLAG_IN_USE = 1"

definition COUNTER_FLAG_PRODUCER :: u32 where
  "COUNTER_FLAG_PRODUCER = 2"

definition COUNTER_FLAG_CONSUMER :: u32 where
  "COUNTER_FLAG_CONSUMER = 4"

record counter_slot =
  cs_id :: u32
  cs_flags :: u32
  cs_value :: u64
  cs_label :: "u8 list"

record counters_file =
  cf_magic :: u32
  cf_version :: u32
  cf_slot_count :: u32
  cf_slot_capacity :: u32
  cf_slot_stride :: u32
  cf_slots_offset :: u32
  cf_slots :: "counter_slot list"

definition zero_slot :: counter_slot where
  "zero_slot = \<lparr> cs_id = 0, cs_flags = 0, cs_value = 0, cs_label = replicate COUNTER_LABEL_BYTES 0 \<rparr>"

text \<open>\<open>init\<close> on zeroed memory, which is also the file of \<open>boxed\<close>.\<close>

definition counters_init :: counters_file where
  "counters_init =
     \<lparr> cf_magic = COUNTERS_MAGIC, cf_version = 0, cf_slot_count = 0,
       cf_slot_capacity = of_nat MAX_COUNTER_SLOTS, cf_slot_stride = of_nat CACHE_LINE_BYTES,
       cf_slots_offset = of_nat CACHE_LINE_BYTES, cf_slots = replicate MAX_COUNTER_SLOTS zero_slot \<rparr>"

datatype attach_error = BadMagic u32 | UnsupportedVersion u32

definition counters_attach :: "counters_file \<Rightarrow> attach_error + counters_file" where
  "counters_attach f =
     (if cf_magic f \<noteq> COUNTERS_MAGIC then Inl (BadMagic (cf_magic f))
      else if cf_version f \<noteq> 0 then Inl (UnsupportedVersion (cf_version f))
      else Inr f)"

text \<open>The text of an error: eight hexadecimal digits, or the version.\<close>

definition attach_error_text :: "attach_error \<Rightarrow> string" where
  "attach_error_text e =
     (case e of
        BadMagic m \<Rightarrow>
          (let hex = show_base 16 (unat m) in
           ''counters file: bad magic 0x'' @ replicate (8 - length hex) CHR ''0'' @ hex)
      | UnsupportedVersion v \<Rightarrow> ''counters file: unsupported version '' @ show_nat (unat v))"

section \<open>Handles\<close>

definition update_slot :: "nat \<Rightarrow> (counter_slot \<Rightarrow> counter_slot) \<Rightarrow> counters_file \<Rightarrow> counters_file" where
  "update_slot i g f = f\<lparr>cf_slots := (cf_slots f)[i := g (cf_slots f ! i)]\<rparr>"

definition counter_get :: "nat \<Rightarrow> counters_file \<Rightarrow> u64" where
  "counter_get i f = cs_value (cf_slots f ! i)"

definition counter_add :: "nat \<Rightarrow> u64 \<Rightarrow> counters_file \<Rightarrow> counters_file" where
  "counter_add i n f = update_slot i (\<lambda>s. s\<lparr>cs_value := cs_value s + n\<rparr>) f"

definition counter_inc :: "nat \<Rightarrow> counters_file \<Rightarrow> counters_file" where
  "counter_inc i f = counter_add i 1 f"

text \<open>The compare-and-swap loop of \<open>record_max\<close>. An attempt finds the cell at some value, which
  other writers may have changed since the last look, and may fail spuriously; the result is
  the value the call leaves in the cell, or the one that made it give up.\<close>

fun record_max_loop :: "u64 \<Rightarrow> u64 \<Rightarrow> (u64 \<times> bool) list \<Rightarrow> u64 outcome" where
  "record_max_loop v current [] = (if v \<le> current then Returns current else Waiting)"
| "record_max_loop v current ((actual, spurious) # attempts) =
     (if \<not> current < v then Returns current
      else if actual = current \<and> \<not> spurious then Returns v
      else record_max_loop v actual attempts)"

text \<open>The call without other writers.\<close>

definition counter_record_max :: "nat \<Rightarrow> u64 \<Rightarrow> counters_file \<Rightarrow> counters_file" where
  "counter_record_max i v f = update_slot i (\<lambda>s. s\<lparr>cs_value := max (cs_value s) v\<rparr>) f"

section \<open>Registration and snapshots\<close>

text \<open>The three steps of \<open>register\<close>: claim an index, give it back when the array is full, or
  fill the slot and publish it with its flags.\<close>

definition claim_slot :: "counters_file \<Rightarrow> nat \<times> counters_file" where
  "claim_slot f = (unat (cf_slot_count f), f\<lparr>cf_slot_count := cf_slot_count f + 1\<rparr>)"

definition release_slot :: "counters_file \<Rightarrow> counters_file" where
  "release_slot f = f\<lparr>cf_slot_count := cf_slot_count f - 1\<rparr>"

definition label_bytes :: "string \<Rightarrow> u8 list" where
  "label_bytes label =
     (let bs = take COUNTER_LABEL_BYTES (map (\<lambda>c. of_nat (of_char c)) label) in
      bs @ replicate (COUNTER_LABEL_BYTES - length bs) 0)"

definition fill_slot :: "nat \<Rightarrow> u32 \<Rightarrow> u32 \<Rightarrow> string \<Rightarrow> counters_file \<Rightarrow> counters_file" where
  "fill_slot i counter flags label f =
     update_slot i (\<lambda>s. s\<lparr>cs_id := counter, cs_label := label_bytes label,
                        cs_flags := flags OR COUNTER_FLAG_IN_USE\<rparr>) f"

definition counters_register :: "u32 \<Rightarrow> u32 \<Rightarrow> string \<Rightarrow> counters_file \<Rightarrow> nat option \<times> counters_file" where
  "counters_register counter flags label f =
     (case claim_slot f of (i, f1) \<Rightarrow>
        if MAX_COUNTER_SLOTS \<le> i then (None, release_slot f1)
        else (Some i, fill_slot i counter flags label f1))"

record counter_snapshot =
  sn_id :: u32
  sn_flags :: u32
  sn_value :: u64
  sn_label :: string

text \<open>The label up to its first zero byte; bytes stand for their characters.\<close>

definition label_text :: "u8 list \<Rightarrow> string" where
  "label_text bs = map (\<lambda>b. char_of (unat b)) (takeWhile (\<lambda>b. b \<noteq> 0) bs)"

definition snapshot_slot :: "counter_slot \<Rightarrow> counter_snapshot option" where
  "snapshot_slot s =
     (if cs_flags s AND COUNTER_FLAG_IN_USE = 0 then None
      else Some \<lparr> sn_id = cs_id s, sn_flags = cs_flags s, sn_value = cs_value s,
                  sn_label = label_text (cs_label s) \<rparr>)"

definition counters_snapshot :: "counters_file \<Rightarrow> counter_snapshot list" where
  "counters_snapshot f =
     List.map_filter (\<lambda>i. snapshot_slot (cf_slots f ! i))
       [0..<min (unat (cf_slot_count f)) MAX_COUNTER_SLOTS]"

section \<open>The exporter\<close>

record aggregator_config =
  ag_interval :: nat
  ag_metric_suffix :: "string option"

definition aggregator_default :: aggregator_config where
  "aggregator_default = \<lparr> ag_interval = 100000000, ag_metric_suffix = None \<rparr>"

definition export_snapshot :: "string option \<Rightarrow> counters_file \<Rightarrow> (string \<times> u64) list" where
  "export_snapshot suffix f =
     map (\<lambda>c. (case suffix of
                  Some s \<Rightarrow> ''disruptor_mp_'' @ sn_label c @ s
                | None \<Rightarrow> ''disruptor_mp_'' @ sn_label c, sn_value c))
       (counters_snapshot f)"

text \<open>The worker: each tick sees the stop flag and the file; the list it returns is what it
  handed to the metrics facade, with the final flush.\<close>

fun worker_ticks :: "string option \<Rightarrow> (bool \<times> counters_file) list \<Rightarrow> (string \<times> u64) list outcome" where
  "worker_ticks suffix [] = Waiting"
| "worker_ticks suffix ((stop, f) # ticks) =
     (if stop then Returns (export_snapshot suffix f)
      else bind_outcome (worker_ticks suffix ticks) (\<lambda>out. Returns (export_snapshot suffix f @ out)))"

definition worker_loop :: "string option \<Rightarrow> counters_file \<Rightarrow> (bool \<times> counters_file) list \<Rightarrow> (string \<times> u64) list outcome" where
  "worker_loop suffix first ticks =
     (case counters_attach first of
        Inl _ \<Rightarrow> Returns []
      | Inr _ \<Rightarrow> worker_ticks suffix ticks)"

section \<open>Counter identifiers\<close>

definition EVENTS_PUBLISHED :: u32 where "EVENTS_PUBLISHED = 0x10"
definition PRODUCER_FULL_EVENTS :: u32 where "PRODUCER_FULL_EVENTS = 0x12"
definition EVENTS_CONSUMED :: u32 where "EVENTS_CONSUMED = 0x20"
definition CONSUMER_EMPTY_SPINS :: u32 where "CONSUMER_EMPTY_SPINS = 0x22"
definition CONSUMER_LAG_MAX :: u32 where "CONSUMER_LAG_MAX = 0x25"
definition FRAME_PUBLISH_TOTAL :: u32 where "FRAME_PUBLISH_TOTAL = 0x30"
definition FRAME_REASSEMBLE_COUNT :: u32 where "FRAME_REASSEMBLE_COUNT = 0x32"
definition CODEC_ENCODE_TOTAL :: u32 where "CODEC_ENCODE_TOTAL = 0x33"
definition CODEC_DECODE_TOTAL :: u32 where "CODEC_DECODE_TOTAL = 0x34"

section \<open>Properties\<close>

definition counters_wf :: "counters_file \<Rightarrow> bool" where
  "counters_wf f \<longleftrightarrow>
     length (cf_slots f) = MAX_COUNTER_SLOTS \<and> unat (cf_slot_count f) \<le> MAX_COUNTER_SLOTS
     \<and> (\<forall>i < unat (cf_slot_count f). cs_flags (cf_slots f ! i) AND COUNTER_FLAG_IN_USE \<noteq> 0)
     \<and> (\<forall>i. unat (cf_slot_count f) \<le> i \<and> i < MAX_COUNTER_SLOTS \<longrightarrow> cf_slots f ! i = zero_slot)"

lemma counters_init_wf: "counters_wf counters_init"
  by (simp add: counters_wf_def counters_init_def)

lemma in_use_flag: "(flags OR COUNTER_FLAG_IN_USE) AND COUNTER_FLAG_IN_USE \<noteq> 0"
proof -
  have "bit ((flags OR COUNTER_FLAG_IN_USE) AND COUNTER_FLAG_IN_USE) 0"
    by (simp add: COUNTER_FLAG_IN_USE_def bit_simps)
  then show ?thesis by force
qed

lemma char_of_zero: "char_of (0 :: nat) = CHR 0x00"
  by code_simp

lemma label_text_bytes:
  assumes "CHR 0x00 \<notin> set label"
  shows "label_text (label_bytes label) = take COUNTER_LABEL_BYTES label"
proof -
  let ?b = "\<lambda>c. of_nat (of_char c) :: u8"
  have small: "unat (?b c) = of_char c" for c
    using of_char_mod_256 [of c, where 'a = nat] by (simp add: unat_of_nat)
  have inv: "char_of (unat (?b c)) = c" for c by (simp only: small char_of_char)
  have nonzero: "?b c \<noteq> 0" if "c \<noteq> CHR 0x00" for c
    using inv [of c] that by (auto simp: char_of_zero)
  have "label_text (map ?b xs @ replicate n 0) = xs" if "CHR 0x00 \<notin> set xs" for xs n
    using that
  proof (induction xs)
    case Nil
    then show ?case by (cases n) (simp_all add: label_text_def)
  next
    case (Cons x xs)
    then have "?b x \<noteq> 0" using nonzero by force
    then show ?case using Cons inv by (simp add: label_text_def del: of_char_of)
  qed
  moreover have "CHR 0x00 \<notin> set (take COUNTER_LABEL_BYTES label)"
    using assms in_set_takeD by fastforce
  ultimately show ?thesis by (simp add: label_bytes_def Let_def take_map)
qed

lemma map_filter_cong_set:
  "(\<And>x. x \<in> set xs \<Longrightarrow> g x = h x) \<Longrightarrow> List.map_filter g xs = List.map_filter h xs"
  by (induction xs) (simp_all add: map_filter_simps split: option.split)

lemma map_filter_append_lists:
  "List.map_filter g (xs @ ys) = List.map_filter g xs @ List.map_filter g ys"
  by (induction xs) (simp_all add: map_filter_simps split: option.split)

lemma claim_value: "claim_slot f = (i, f1) \<longleftrightarrow> i = unat (cf_slot_count f) \<and> f1 = f\<lparr>cf_slot_count := cf_slot_count f + 1\<rparr>"
  by (auto simp: claim_slot_def)

text \<open>Registration. On a well-formed counters file with room, \<open>register\<close> claims the next slot, and a snapshot
  afterwards is the earlier snapshot followed by the new counter at zero with its label cut to
  48 bytes; on a full file it fails and leaves the file as it was.\<close>

theorem counters_register_snapshot:
  assumes "counters_wf f" "CHR 0x00 \<notin> set label"
  shows "if unat (cf_slot_count f) < MAX_COUNTER_SLOTS
         then \<exists>f'. counters_register counter flags label f = (Some (unat (cf_slot_count f)), f')
                 \<and> counters_wf f'
                 \<and> counters_snapshot f' = counters_snapshot f
                     @ [\<lparr> sn_id = counter, sn_flags = flags OR COUNTER_FLAG_IN_USE, sn_value = 0,
                          sn_label = take COUNTER_LABEL_BYTES label \<rparr>]
         else counters_register counter flags label f = (None, f)"
proof (cases "unat (cf_slot_count f) < MAX_COUNTER_SLOTS")
  case True
  let ?n = "unat (cf_slot_count f)"
  let ?new = "zero_slot\<lparr>cs_id := counter, cs_label := label_bytes label,
                        cs_flags := flags OR COUNTER_FLAG_IN_USE\<rparr>"
  let ?f = "f\<lparr>cf_slot_count := cf_slot_count f + 1, cf_slots := (cf_slots f)[?n := ?new]\<rparr>"
  have len: "length (cf_slots f) = MAX_COUNTER_SLOTS" and zero: "cf_slots f ! ?n = zero_slot"
    using assms(1) True by (auto simp: counters_wf_def)
  have reg: "counters_register counter flags label f = (Some ?n, ?f)"
    using True zero by (simp add: counters_register_def claim_slot_def fill_slot_def update_slot_def)
  have count: "unat (cf_slot_count ?f) = Suc ?n"
    using True by (simp add: MAX_COUNTER_SLOTS_def unat_word_ariths)
  have wf: "counters_wf ?f"
    using assms(1) True len count in_use_flag
    unfolding counters_wf_def by (auto simp: nth_list_update less_Suc_eq)
  have "counters_snapshot ?f = List.map_filter (\<lambda>i. snapshot_slot (cf_slots ?f ! i)) ([0..<?n] @ [?n])"
    using True count by (simp add: counters_snapshot_def min_absorb1)
  also have "\<dots> = counters_snapshot f
      @ [\<lparr> sn_id = counter, sn_flags = flags OR COUNTER_FLAG_IN_USE, sn_value = 0,
          sn_label = take COUNTER_LABEL_BYTES label \<rparr>]"
  proof -
    have "List.map_filter (\<lambda>i. snapshot_slot (cf_slots ?f ! i)) [0..<?n]
        = List.map_filter (\<lambda>i. snapshot_slot (cf_slots f ! i)) [0..<?n]"
      by (rule map_filter_cong_set) auto
    moreover have "snapshot_slot ?new = Some \<lparr> sn_id = counter, sn_flags = flags OR COUNTER_FLAG_IN_USE,
        sn_value = 0, sn_label = take COUNTER_LABEL_BYTES label \<rparr>"
      using in_use_flag [of flags] assms(2) by (simp add: snapshot_slot_def label_text_bytes zero_slot_def)
    ultimately show ?thesis
      using True len by (simp add: counters_snapshot_def map_filter_append_lists map_filter_simps min_absorb1)
  qed
  finally show ?thesis using True reg wf by simp
next
  case False
  then show ?thesis
    by (simp add: counters_register_def claim_slot_def release_slot_def)
qed

lemma counters_snapshot_init: "counters_snapshot counters_init = []"
  by (simp add: counters_snapshot_def counters_init_def map_filter_simps)

theorem counters_register_snapshot_witness:
  "\<exists>f. counters_register 0x10 COUNTER_FLAG_PRODUCER ''events_published'' counters_init = (Some 0, f)
     \<and> map sn_label (counters_snapshot f) = [''events_published'']"
proof -
  have "unat (cf_slot_count counters_init) = 0" by (simp add: counters_init_def)
  then show ?thesis
    using counters_register_snapshot [OF counters_init_wf, of "''events_published''" 16 COUNTER_FLAG_PRODUCER]
    by (auto simp: MAX_COUNTER_SLOTS_def COUNTER_LABEL_BYTES_def counters_snapshot_init)
qed

text \<open>High-water marks. However other writers interfere, \<open>record_max\<close> ends with a cell value not below the
  recorded one, which is that value or one some writer had stored, and it ends as soon as an
  attempt finds the cell as it last saw it.\<close>

theorem record_max_high_water:
  "(\<forall>x. record_max_loop v current attempts = Returns x \<longrightarrow>
       v \<le> x \<and> (x = v \<or> x = current \<or> x \<in> fst ` set attempts))
   \<and> (\<exists>x. record_max_loop v current (attempts @ [(y, spurious), (y, False)]) = Returns x)"
proof
  show "\<forall>x. record_max_loop v current attempts = Returns x \<longrightarrow>
       v \<le> x \<and> (x = v \<or> x = current \<or> x \<in> fst ` set attempts)"
    by (induction v current attempts rule: record_max_loop.induct) (auto split: if_splits)
  show "\<exists>x. record_max_loop v current (attempts @ [(y, spurious), (y, False)]) = Returns x"
    by (induction v current attempts rule: record_max_loop.induct) auto
qed

theorem record_max_high_water_witness:
  "record_max_loop 9 3 [(7, False), (7, True), (7, False)] = Returns 9
   \<and> (9 :: u64) \<le> 9 \<and> (\<exists>x. record_max_loop 9 3 ([(7, False)] @ [(8, True), (8, False)]) = Returns x)"
proof -
  have run: "record_max_loop 9 3 [(7, False), (7, True), (7, False)] = Returns 9" by simp
  then show ?thesis
    using record_max_high_water [of 9 3 "[(7, False), (7, True), (7, False)]" 8 True]
      record_max_high_water [of 9 3 "[(7, False)]" 8 True] by blast
qed

end
