(* ===== verification/Producer.thy ===== *)
theory Producer
  imports Barrier Liveness Counters RingBuffers
begin

text \<open>
  The shared-memory producer (\<open>disruptor-mp/src/producer.rs\<close>): reservation of slots against
  the gating sequence of the barrier, single and batch publication, the spinning, timed and
  managed variants, and the queries on consumer progress. The shared memory is the world of
  cursors, the slots of the ring and the counters file; \<open>None\<close> (or \<open>Panics\<close> in a loop) is a
  panic. The hooks compiled under \<open>cfg(dst)\<close> are not part of the model.
\<close>

section \<open>Shared memory and slots\<close>

record 'e shared =
  sh_world :: world
  sh_slots :: "'e list"
  sh_counters :: counters_file

text \<open>The element a sequence number addresses, through the pointer of \<open>SharedRingBuffer::get\<close>.\<close>

definition slot_of :: "ring \<Rightarrow> 'e list \<Rightarrow> int \<Rightarrow> nat option" where
  "slot_of r slots sequence =
     (case ring_index r sequence of
        None \<Rightarrow> None
      | Some i \<Rightarrow> if unat i < length slots then Some (unat i) else None)"

definition read_slot :: "ring \<Rightarrow> 'e list \<Rightarrow> int \<Rightarrow> 'e option" where
  "read_slot r slots sequence = map_option (\<lambda>i. slots ! i) (slot_of r slots sequence)"

text \<open>Two mappings of one ring, possibly of different processes, address the same slots.\<close>

definition same_slots :: "ring \<Rightarrow> ring \<Rightarrow> bool" where
  "same_slots r r' \<longleftrightarrow> rb_size r = rb_size r' \<and> rb_index_mask r = rb_index_mask r'"

lemma same_slots_refl [simp]: "same_slots r r"
  by (simp add: same_slots_def)

lemma same_slots_of: "same_slots r r' \<Longrightarrow> slot_of r slots q = slot_of r' slots q"
  by (simp add: same_slots_def slot_of_def ring_index_def)

lemma same_slots_read: "same_slots r r' \<Longrightarrow> read_slot r slots q = read_slot r' slots q"
  by (simp add: read_slot_def same_slots_of)

definition update_event :: "ring \<Rightarrow> int \<Rightarrow> ('e \<Rightarrow> 'e) \<Rightarrow> 'e list \<Rightarrow> 'e list option" where
  "update_event r sequence f slots =
     map_option (\<lambda>i. slots[i := f (slots ! i)]) (slot_of r slots sequence)"

definition shared_store :: "handle \<Rightarrow> int \<Rightarrow> 'e shared \<Rightarrow> 'e shared" where
  "shared_store h v sh = sh\<lparr>sh_world := store (sh_world sh) h v\<rparr>"

text \<open>\<open>if let Some(h) = &counter { h.inc() }\<close>.\<close>

definition inc_counter :: "nat option \<Rightarrow> 'e shared \<Rightarrow> 'e shared" where
  "inc_counter counter sh =
     (case counter of
        None \<Rightarrow> sh
      | Some i \<Rightarrow> sh\<lparr>sh_counters := counter_inc i (sh_counters sh)\<rparr>)"

section \<open>Coordination modes\<close>

datatype coordination_mode =
    Immediate
  | WaitForConsumers (wc_min_consumers: int) (wc_timeout: nat)
  | BufferUntilConsumers nat

definition coordination_default :: coordination_mode where
  "coordination_default = Immediate"

definition wait_for_consumers :: "int \<Rightarrow> nat \<Rightarrow> coordination_mode option" where
  "wait_for_consumers min_consumers timeout =
     (if 0 < min_consumers then Some (WaitForConsumers min_consumers timeout) else None)"

definition wait_for_single_consumer :: "nat \<Rightarrow> coordination_mode option" where
  "wait_for_single_consumer timeout = (if timeout = 0 then None else Some (WaitForConsumers 1 timeout))"

section \<open>The producer\<close>

record producer =
  pd_ring :: ring
  pd_cursor :: handle
  pd_barrier :: barrier
  pd_sequence :: int
  pd_clear :: int
  pd_coordination_completed :: bool
  pd_liveness :: "liveness option"
  pd_events_published :: "nat option"
  pd_full_events :: "nat option"

datatype missing_free_slots = MissingFreeSlots u64
datatype ring_buffer_full = RingBufferFull

text \<open>\<open>new_with_coordination_and_discovery\<close>: publish -1, build the barrier (without
  coordination when the readiness counter cannot be created), and start with every slot free.\<close>

definition producer_new ::
  "'e shared \<Rightarrow> nat \<Rightarrow> nat \<Rightarrow> ring \<Rightarrow> handle \<Rightarrow> string \<Rightarrow> coordination_mode \<Rightarrow> discovery_mode
    \<Rightarrow> handle option \<Rightarrow> (producer \<times> 'e shared) option" where
  "producer_new sh pid now r cursor base_name coordination_mode discovery_mode registration =
     (let w0 = store (sh_world sh) cursor (-1);
          plain = (\<lambda>w. map_option (\<lambda>b. (b, w)) (new_with_discovery w pid now base_name discovery_mode));
          built =
            (case coordination_mode of
               WaitForConsumers _ _ \<Rightarrow>
                 (case new_with_coordination_and_discovery w0 pid now base_name discovery_mode of
                    None \<Rightarrow> None
                  | Some (Inr (b, w)) \<Rightarrow> Some (b, w)
                  | Some (Inl _) \<Rightarrow> plain w0)
             | _ \<Rightarrow> plain w0) in
      case built of
        None \<Rightarrow> None
      | Some (b, w) \<Rightarrow>
          let b1 = (case registration of None \<Rightarrow> b | Some h \<Rightarrow> set_consumer_registration h b) in
          (case clone_handle w cursor of
             None \<Rightarrow> None
           | Some h \<Rightarrow>
               Some (\<lparr> pd_ring = r, pd_cursor = cursor, pd_barrier = set_producer_sequence h b1,
                       pd_sequence = 0, pd_clear = wrap_i64 (usize_as_i64 (rb_size r) - 1),
                       pd_coordination_completed = False, pd_liveness = None,
                       pd_events_published = None, pd_full_events = None \<rparr>,
                     sh\<lparr>sh_world := w\<rparr>)))"

record producer_counter_selection =
  ps_events_published :: bool
  ps_producer_full_events :: bool

definition producer_selection_full :: producer_counter_selection where
  "producer_selection_full = \<lparr> ps_events_published = True, ps_producer_full_events = True \<rparr>"

definition producer_selection_lite :: producer_counter_selection where
  "producer_selection_lite = \<lparr> ps_events_published = True, ps_producer_full_events = False \<rparr>"

definition register_if :: "bool \<Rightarrow> u32 \<Rightarrow> u32 \<Rightarrow> string \<Rightarrow> counters_file \<Rightarrow> nat option \<times> counters_file" where
  "register_if selected counter flags label f =
     (if selected then counters_register counter flags label f else (None, f))"

definition producer_attach_counters_selected ::
  "producer_counter_selection \<Rightarrow> producer \<Rightarrow> 'e shared \<Rightarrow> producer \<times> 'e shared" where
  "producer_attach_counters_selected selection p sh =
     (case register_if (ps_events_published selection) EVENTS_PUBLISHED COUNTER_FLAG_PRODUCER
             ''events_published'' (sh_counters sh) of (published, f1) \<Rightarrow>
      case register_if (ps_producer_full_events selection) PRODUCER_FULL_EVENTS COUNTER_FLAG_PRODUCER
             ''producer_full_events'' f1 of (full_events, f2) \<Rightarrow>
        (p\<lparr>pd_events_published := published, pd_full_events := full_events\<rparr>,
         sh\<lparr>sh_counters := f2\<rparr>))"

definition producer_attach_counters :: "producer \<Rightarrow> 'e shared \<Rightarrow> producer \<times> 'e shared" where
  "producer_attach_counters p sh = producer_attach_counters_selected producer_selection_full p sh"

section \<open>Reservation\<close>

definition last_reserved_sequence :: "producer \<Rightarrow> int \<Rightarrow> missing_free_slots + int" where
  "last_reserved_sequence p n =
     (case checked_i64 (pd_sequence p - 1) of
        None \<Rightarrow> Inl (MissingFreeSlots (-1))
      | Some current \<Rightarrow> ok_or (MissingFreeSlots (-1)) (checked_i64 (current + n)))"

text \<open>The clearance window: consult the barrier only when the cached bound is exhausted.\<close>

definition update_min_consumer_clearance_window ::
  "world \<Rightarrow> nat \<Rightarrow> nat \<Rightarrow> producer \<Rightarrow> int \<Rightarrow> int \<Rightarrow> (missing_free_slots + unit) \<times> producer" where
  "update_min_consumer_clearance_window w pid now p n n_next =
     (if n_next \<le> pd_clear p then (Inr (), p)
      else
        let last_published = wrap_i64 (pd_sequence p - 1) in
        case get_min_consumer_sequence w pid now (pd_barrier p) of (rear_sequence_read, b) \<Rightarrow>
          let p1 = p\<lparr>pd_barrier := b\<rparr>;
              free = free_slots (pd_ring p) last_published rear_sequence_read in
          if free < n
          then (Inl (MissingFreeSlots (i64_as_u64 (wrap_i64 (n - free)))), p1)
          else (Inr (), p1\<lparr>pd_clear := wrap_i64 (last_published + free)\<rparr>))"

definition next_sequences ::
  "world \<Rightarrow> nat \<Rightarrow> nat \<Rightarrow> nat \<Rightarrow> producer \<Rightarrow> ((missing_free_slots + int) \<times> producer) option" where
  "next_sequences w pid now n p =
     (case i64_try_from_usize n of
        None \<Rightarrow> Some (Inl (MissingFreeSlots (-1)), p)
      | Some m \<Rightarrow>
          if \<not> 0 < m then None
          else
            (case last_reserved_sequence p m of
               Inl e \<Rightarrow> Some (Inl e, p)
             | Inr n_next \<Rightarrow>
                 (case update_min_consumer_clearance_window w pid now p m n_next of
                    (Inl e, p1) \<Rightarrow> Some (Inl e, p1)
                  | (Inr _, p1) \<Rightarrow> Some (Inr n_next, p1))))"

section \<open>Writing events\<close>

definition apply_update :: "('e \<Rightarrow> 'e) \<Rightarrow> producer \<Rightarrow> 'e shared \<Rightarrow> (int \<times> producer \<times> 'e shared) option" where
  "apply_update update p sh =
     (if \<not> 0 \<le> pd_sequence p then None
      else
        let sequence = pd_sequence p in
        (case update_event (pd_ring p) sequence update (sh_slots sh) of
           None \<Rightarrow> None
         | Some slots \<Rightarrow>
             Some (sequence, p\<lparr>pd_sequence := wrap_i64 (sequence + 1)\<rparr>,
                   shared_store (pd_cursor p) sequence (sh\<lparr>sh_slots := slots\<rparr>))))"

text \<open>The loop over \<open>(lower..=upper).enumerate()\<close>.\<close>

primrec update_range :: "ring \<Rightarrow> int \<Rightarrow> nat \<Rightarrow> ('e \<Rightarrow> nat \<Rightarrow> 'e) \<Rightarrow> 'e list \<Rightarrow> 'e list option" where
  "update_range r lower 0 update_fn slots = Some slots"
| "update_range r lower (Suc k) update_fn slots =
     (case update_range r lower k update_fn slots of
        None \<Rightarrow> None
      | Some slots1 \<Rightarrow> update_event r (lower + int k) (\<lambda>e. update_fn e k) slots1)"

definition apply_batch_updates ::
  "nat \<Rightarrow> ('e \<Rightarrow> nat \<Rightarrow> 'e) \<Rightarrow> producer \<Rightarrow> 'e shared \<Rightarrow> (int \<times> producer \<times> 'e shared) option" where
  "apply_batch_updates n update_fn p sh =
     (if \<not> 0 < n then None
      else
        (case i64_try_from_usize n of
           None \<Rightarrow> None
         | Some m \<Rightarrow>
             (case checked_i64 (pd_sequence p + (m - 1)) of
                None \<Rightarrow> None
              | Some upper \<Rightarrow>
                  (case update_range (pd_ring p) (pd_sequence p) n update_fn (sh_slots sh) of
                     None \<Rightarrow> None
                   | Some slots \<Rightarrow>
                       Some (upper, p\<lparr>pd_sequence := wrap_i64 (pd_sequence p + m)\<rparr>,
                             shared_store (pd_cursor p) upper (sh\<lparr>sh_slots := slots\<rparr>))))))"

section \<open>Publishing\<close>

definition try_publish ::
  "nat \<Rightarrow> nat \<Rightarrow> ('e \<Rightarrow> 'e) \<Rightarrow> producer \<Rightarrow> 'e shared
    \<Rightarrow> ((ring_buffer_full + int) \<times> producer \<times> 'e shared) option" where
  "try_publish pid now update p sh =
     (case next_sequences (sh_world sh) pid now 1 p of
        None \<Rightarrow> None
      | Some (Inl _, p1) \<Rightarrow> Some (Inl RingBufferFull, p1, inc_counter (pd_full_events p1) sh)
      | Some (Inr _, p1) \<Rightarrow>
          (case apply_update update p1 sh of
             None \<Rightarrow> None
           | Some (sequence, p2, sh1) \<Rightarrow>
               Some (Inr sequence, p2, inc_counter (pd_events_published p2) sh1)))"

text \<open>One turn of a spin loop sees the clock and the shared memory as the other processes have
  left it; the counters the producer itself bumped are carried over.\<close>

type_synonym 'e view = "nat \<times> 'e shared"

fun publish_loop ::
  "nat \<Rightarrow> ('e \<Rightarrow> 'e) \<Rightarrow> bool \<Rightarrow> producer \<Rightarrow> 'e view list
    \<Rightarrow> (producer \<times> 'e shared \<times> 'e view list) outcome" where
  "publish_loop pid update spun p [] = Waiting"
| "publish_loop pid update spun p ((now, sh) # views) =
     (case next_sequences (sh_world sh) pid now 1 p of
        None \<Rightarrow> Panics
      | Some (Inl _, p1) \<Rightarrow> publish_loop pid update True p1 views
      | Some (Inr _, p1) \<Rightarrow>
          (let sh0 = (if spun then inc_counter (pd_full_events p1) sh else sh) in
           case apply_update update p1 sh0 of
             None \<Rightarrow> Panics
           | Some (sequence, p2, sh1) \<Rightarrow> Returns (p2, inc_counter (pd_events_published p2) sh1, views)))"

definition publish ::
  "nat \<Rightarrow> ('e \<Rightarrow> 'e) \<Rightarrow> producer \<Rightarrow> 'e view list \<Rightarrow> (producer \<times> 'e shared \<times> 'e view list) outcome" where
  "publish pid update p views = publish_loop pid update False p views"

definition try_batch_publish ::
  "nat \<Rightarrow> nat \<Rightarrow> nat \<Rightarrow> ('e \<Rightarrow> nat \<Rightarrow> 'e) \<Rightarrow> producer \<Rightarrow> 'e shared
    \<Rightarrow> ((missing_free_slots + int) \<times> producer \<times> 'e shared) option" where
  "try_batch_publish pid now n update_fn p sh =
     (if n = 0 then Some (Inr (wrap_i64 (pd_sequence p - 1)), p, sh)
      else
        (case next_sequences (sh_world sh) pid now n p of
           None \<Rightarrow> None
         | Some (Inl e, p1) \<Rightarrow> Some (Inl e, p1, sh)
         | Some (Inr _, p1) \<Rightarrow>
             (case apply_batch_updates n update_fn p1 sh of
                None \<Rightarrow> None
              | Some (sequence, p2, sh1) \<Rightarrow> Some (Inr sequence, p2, sh1))))"

definition batch_publish where
  "batch_publish = try_batch_publish"

definition simple_batch_publish where
  "simple_batch_publish = try_batch_publish"

datatype publish_timeout_error = PublishTimedOut

text \<open>A turn of the timed loops reads the clock twice: in the barrier and against the
  deadline.\<close>

type_synonym 'e timed_view = "nat \<times> nat \<times> 'e shared"

fun publish_timeout_loop ::
  "nat \<Rightarrow> nat \<Rightarrow> ('e \<Rightarrow> 'e) \<Rightarrow> producer \<Rightarrow> 'e timed_view list
    \<Rightarrow> ((publish_timeout_error + int) \<times> producer \<times> 'e shared) outcome" where
  "publish_timeout_loop pid deadline update p [] = Waiting"
| "publish_timeout_loop pid deadline update p ((now, later, sh) # views) =
     (case next_sequences (sh_world sh) pid now 1 p of
        None \<Rightarrow> Panics
      | Some (Inl _, p1) \<Rightarrow>
          if deadline \<le> later then Returns (Inl PublishTimedOut, p1, sh)
          else publish_timeout_loop pid deadline update p1 views
      | Some (Inr _, p1) \<Rightarrow>
          (case apply_update update p1 sh of
             None \<Rightarrow> Panics
           | Some (sequence, p2, sh1) \<Rightarrow> Returns (Inr sequence, p2, sh1)))"

definition publish_with_timeout ::
  "nat \<Rightarrow> nat \<Rightarrow> nat \<Rightarrow> ('e \<Rightarrow> 'e) \<Rightarrow> producer \<Rightarrow> 'e timed_view list
    \<Rightarrow> ((publish_timeout_error + int) \<times> producer \<times> 'e shared) outcome" where
  "publish_with_timeout pid start timeout update p views =
     (if \<not> 0 < timeout then Panics
      else publish_timeout_loop pid (start + timeout) update p views)"

section \<open>Required consumers\<close>

definition enable_required_consumer_liveness :: "nat \<Rightarrow> liveness_config \<Rightarrow> producer \<Rightarrow> producer" where
  "enable_required_consumer_liveness now c p = p\<lparr>pd_liveness := Some (liveness_new now c)\<rparr>"

definition producer_discover_consumer_id :: "world \<Rightarrow> string \<Rightarrow> producer \<Rightarrow> bool \<times> producer" where
  "producer_discover_consumer_id w consumer p =
     (case discover_consumer_id w consumer (pd_barrier p) of (found, b) \<Rightarrow> (found, p\<lparr>pd_barrier := b\<rparr>))"

definition producer_consumer_sequence :: "world \<Rightarrow> string \<Rightarrow> producer \<Rightarrow> int option \<times> producer" where
  "producer_consumer_sequence w consumer p =
     (case consumer_sequence w consumer (pd_barrier p) of (s, b) \<Rightarrow> (s, p\<lparr>pd_barrier := b\<rparr>))"

definition last_published_sequence :: "world \<Rightarrow> producer \<Rightarrow> int" where
  "last_published_sequence w p = load w (pd_cursor p)"

text \<open>The start-up loop; its views are the clock at the seeding or deadline test and the world.\<close>

fun ensure_ready_loop ::
  "nat \<Rightarrow> liveness \<Rightarrow> producer \<Rightarrow> observation list
    \<Rightarrow> ((required_error + unit) \<times> producer \<times> observation list) outcome" where
  "ensure_ready_loop deadline st p [] = Waiting"
| "ensure_ready_loop deadline st p ((now, w) # views) =
     (case missing_required_consumers st (\<lambda>q i. producer_discover_consumer_id w i q) p of (missing, p1) \<Rightarrow>
        if missing = [] then
          (case seed_progress now (\<lambda>q i. producer_consumer_sequence w i q) st p1 of
             None \<Rightarrow> Panics
           | Some (st1, p2) \<Rightarrow>
               Returns (Inr (), p2\<lparr>pd_liveness := Some (mark_startup_completed now st1)\<rparr>, views))
        else if deadline \<le> now then
          Returns (Inl (StartupTimeout missing), p1\<lparr>pd_liveness := Some st\<rparr>, views)
        else ensure_ready_loop deadline st p1 views)"

definition ensure_required_consumers_ready ::
  "nat \<Rightarrow> producer \<Rightarrow> observation list \<Rightarrow> ((required_error + unit) \<times> producer \<times> observation list) outcome" where
  "ensure_required_consumers_ready start p views =
     (case pd_liveness p of
        None \<Rightarrow> Returns (Inr (), p, views)
      | Some st \<Rightarrow>
          if ls_startup_completed st then Returns (Inr (), p, views)
          else ensure_ready_loop (start + lv_startup_wait_timeout (ls_config st)) st p views)"

definition check_required_consumer_liveness ::
  "world \<Rightarrow> nat \<Rightarrow> producer \<Rightarrow> ((required_error + unit) \<times> producer \<times> alert list) option" where
  "check_required_consumer_liveness w now p =
     (case pd_liveness p of
        None \<Rightarrow> Some (Inr (), p, [])
      | Some st \<Rightarrow>
          (case evaluate_blocked now (last_published_sequence w p)
                  (\<lambda>q i. producer_consumer_sequence w i q) st p of
             None \<Rightarrow> None
           | Some (r, st1, p1, alerts) \<Rightarrow>
               let p2 = p1\<lparr>pd_liveness := Some st1\<rparr> in
               (case r of Some e \<Rightarrow> Some (Inl e, p2, alerts) | None \<Rightarrow> Some (Inr (), p2, alerts))))"

fun publish_managed_loop ::
  "nat \<Rightarrow> nat \<Rightarrow> (producer \<Rightarrow> 'e shared \<Rightarrow> (int \<times> producer \<times> 'e shared) option) \<Rightarrow> producer
    \<Rightarrow> 'e timed_view list \<Rightarrow> ((required_error + int) \<times> producer \<times> 'e shared \<times> alert list) outcome" where
  "publish_managed_loop pid n write p [] = Waiting"
| "publish_managed_loop pid n write p ((now, later, sh) # views) =
     (case next_sequences (sh_world sh) pid now n p of
        None \<Rightarrow> Panics
      | Some (Inr _, p1) \<Rightarrow>
          (case write p1 sh of
             None \<Rightarrow> Panics
           | Some (sequence, p2, sh1) \<Rightarrow> Returns (Inr sequence, p2, sh1, []))
      | Some (Inl _, p1) \<Rightarrow>
          (case check_required_consumer_liveness (sh_world sh) later p1 of
             None \<Rightarrow> Panics
           | Some (Inl e, p2, alerts) \<Rightarrow> Returns (Inl e, p2, sh, alerts)
           | Some (Inr _, p2, alerts) \<Rightarrow>
               bind_outcome (publish_managed_loop pid n write p2 views) (\<lambda>(r, p3, sh1, more_alerts).
                 Returns (r, p3, sh1, alerts @ more_alerts))))"

text \<open>\<open>publish_managed\<close>: the start-up views come first, then those of the publish loop. A
  start-up timeout leaves the shared memory as the caller found it.\<close>

definition publish_managed ::
  "nat \<Rightarrow> nat \<Rightarrow> ('e \<Rightarrow> 'e) \<Rightarrow> producer \<Rightarrow> observation list \<Rightarrow> 'e shared \<Rightarrow> 'e timed_view list
    \<Rightarrow> ((required_error + int) \<times> producer \<times> 'e shared \<times> alert list) outcome" where
  "publish_managed pid start update p startup sh views =
     bind_outcome (ensure_required_consumers_ready start p startup) (\<lambda>(r, p1, _).
       case r of
         Inl e \<Rightarrow> Returns (Inl e, p1, sh, [])
       | Inr _ \<Rightarrow> publish_managed_loop pid 1 (apply_update update) p1 views)"

definition publish_batch_managed ::
  "nat \<Rightarrow> nat \<Rightarrow> nat \<Rightarrow> ('e \<Rightarrow> nat \<Rightarrow> 'e) \<Rightarrow> producer \<Rightarrow> observation list \<Rightarrow> 'e shared \<Rightarrow> 'e timed_view list
    \<Rightarrow> ((required_error + int) \<times> producer \<times> 'e shared \<times> alert list) outcome" where
  "publish_batch_managed pid start n update_fn p startup sh views =
     (if n = 0 then Returns (Inr (wrap_i64 (pd_sequence p - 1)), p, sh, [])
      else
        bind_outcome (ensure_required_consumers_ready start p startup) (\<lambda>(r, p1, _).
          case r of
            Inl e \<Rightarrow> Returns (Inl e, p1, sh, [])
          | Inr _ \<Rightarrow> publish_managed_loop pid n (apply_batch_updates n update_fn) p1 views))"

section \<open>Queries on consumer progress\<close>

definition min_gating_sequence :: "world \<Rightarrow> nat \<Rightarrow> nat \<Rightarrow> producer \<Rightarrow> int \<times> producer" where
  "min_gating_sequence w pid now p =
     (case get_min_consumer_sequence w pid now (pd_barrier p) of (m, b) \<Rightarrow> (m, p\<lparr>pd_barrier := b\<rparr>))"

definition is_consumed :: "world \<Rightarrow> nat \<Rightarrow> nat \<Rightarrow> int \<Rightarrow> producer \<Rightarrow> bool \<times> producer" where
  "is_consumed w pid now sequence p =
     (case get_min_consumer_sequence w pid now (pd_barrier p) of
        (m, b) \<Rightarrow> (sequence \<le> m, p\<lparr>pd_barrier := b\<rparr>))"

definition get_consumer_count :: "world \<Rightarrow> nat \<Rightarrow> nat \<Rightarrow> producer \<Rightarrow> nat \<times> producer" where
  "get_consumer_count w pid now p =
     (case best_effort_consumer_count w pid now (pd_barrier p) of (n, b) \<Rightarrow> (n, p\<lparr>pd_barrier := b\<rparr>))"

fun wait_for_consumer_loop :: "nat \<Rightarrow> string \<Rightarrow> producer \<Rightarrow> observation list \<Rightarrow> (bool \<times> producer) outcome" where
  "wait_for_consumer_loop deadline consumer p [] = Waiting"
| "wait_for_consumer_loop deadline consumer p ((now, w) # views) =
     (case producer_discover_consumer_id w consumer p of (found, p1) \<Rightarrow>
        if found then Returns (True, p1)
        else if deadline \<le> now then Returns (False, p1)
        else wait_for_consumer_loop deadline consumer p1 views)"

definition wait_for_consumer_id ::
  "nat \<Rightarrow> string \<Rightarrow> nat \<Rightarrow> producer \<Rightarrow> observation list \<Rightarrow> (bool \<times> producer) outcome" where
  "wait_for_consumer_id start consumer timeout p views =
     (if \<not> 0 < timeout then Panics else wait_for_consumer_loop (start + timeout) consumer p views)"

fun wait_until_consumed_loop ::
  "nat \<Rightarrow> nat \<Rightarrow> int \<Rightarrow> producer \<Rightarrow> (nat \<times> nat \<times> world) list \<Rightarrow> (bool \<times> producer) outcome" where
  "wait_until_consumed_loop pid deadline sequence p [] = Waiting"
| "wait_until_consumed_loop pid deadline sequence p ((test, now, w) # views) =
     (if \<not> test < deadline then Returns (False, p)
      else
        (case is_consumed w pid now sequence p of (consumed, p1) \<Rightarrow>
           if consumed then Returns (True, p1)
           else wait_until_consumed_loop pid deadline sequence p1 views))"

text \<open>The wait strategy only fills the time between two turns.\<close>

definition wait_until_consumed_with_strategy ::
  "nat \<Rightarrow> nat \<Rightarrow> int \<Rightarrow> nat \<Rightarrow> producer \<Rightarrow> (nat \<times> nat \<times> world) list \<Rightarrow> (bool \<times> producer) outcome" where
  "wait_until_consumed_with_strategy pid start sequence timeout p views =
     wait_until_consumed_loop pid (start + timeout) sequence p views"

section \<open>Facts about reservation\<close>

text \<open>Sequence numbers and ring sizes the proofs range over: far from the ends of \<open>i64\<close>.\<close>

definition seq_limit :: int where
  "seq_limit = 2305843009213693952"

definition ring_capacity :: "producer \<Rightarrow> int" where
  "ring_capacity p = int (unat (rb_size (pd_ring p)))"

definition producer_in_range :: "producer \<Rightarrow> bool" where
  "producer_in_range p \<longleftrightarrow>
     ring_wf (pd_ring p) \<and> ring_capacity p \<le> seq_limit \<and> 0 \<le> pd_sequence p \<and> pd_sequence p \<le> seq_limit"

definition sequences_in_range :: "world \<Rightarrow> barrier \<Rightarrow> bool" where
  "sequences_in_range w b \<longleftrightarrow> (\<forall>name h. attach w name = Some h \<longrightarrow> load w h \<le> seq_limit)"

lemmas range_defs = producer_in_range_def ring_capacity_def seq_limit_def i64_simps

lemma ring_capacity_pos: "producer_in_range p \<Longrightarrow> 0 < ring_capacity p"
  using ring_wf_size_pos [of "pd_ring p"]
  unfolding producer_in_range_def ring_capacity_def by (simp only: of_nat_0_less_iff simp_thms)

lemma producer_free_slots:
  assumes "producer_in_range p" "-1 \<le> m" "m \<le> seq_limit"
  shows "free_slots (pd_ring p) (pd_sequence p - 1) m = m - (pd_sequence p - 1) + ring_capacity p"
proof -
  have "ring_capacity p \<le> 2305843009213693952" "0 < ring_capacity p"
    using assms(1) ring_capacity_pos by (simp_all add: producer_in_range_def seq_limit_def)
  moreover from this have "unat (rb_size (pd_ring p)) < 2 ^ 63"
  proof -
    have "unat (rb_size (pd_ring p)) \<le> 2305843009213693952"
      using \<open>ring_capacity p \<le> 2305843009213693952\<close> unfolding ring_capacity_def by linarith
    then show ?thesis by simp
  qed
  ultimately show ?thesis
    using assms free_slots_value [of "pd_ring p" "pd_sequence p - 1" m]
    unfolding ring_capacity_def [symmetric]
    by (simp add: producer_in_range_def seq_limit_def i64_simps)
qed

lemma gate_in_range:
  assumes "barrier_ok w b" "cb_mode b \<noteq> Disabled" "sequences_in_range w b"
    and "get_min_consumer_sequence w pid now b = (m, b')"
  shows "-1 \<le> m \<and> m \<le> seq_limit"
proof -
  note gate = gating_minimum [OF assms(1,2,4)]
  then have "m = -1 \<or> (\<exists>(consumer, h) \<in> set (cb_cursors b'). m = load w h)" and "barrier_ok w b'"
    by simp_all
  then have "m = -1 \<or> (\<exists>name h. attach w name = Some h \<and> m = load w h)"
    unfolding barrier_ok_def by fast
  then show ?thesis using gate assms(3) by (auto simp: sequences_in_range_def seq_limit_def)
qed

lemma next_sequences_cases:
  assumes "producer_in_range p" "0 < n" "pd_sequence p + int n \<le> seq_limit"
    and "barrier_ok w (pd_barrier p)" "cb_mode (pd_barrier p) \<noteq> Disabled"
    and "sequences_in_range w (pd_barrier p)" "-1 \<le> pd_clear p"
  shows "pd_sequence p + int n - 1 \<le> pd_clear p
           \<and> next_sequences w pid now n p = Some (Inr (pd_sequence p + int n - 1), p)
       \<or> pd_clear p < pd_sequence p + int n - 1
           \<and> (\<exists>m b. get_min_consumer_sequence w pid now (pd_barrier p) = (m, b)
               \<and> (if pd_sequence p + int n - 1 \<le> m + ring_capacity p
                  then next_sequences w pid now n p
                         = Some (Inr (pd_sequence p + int n - 1),
                                 p\<lparr>pd_barrier := b, pd_clear := m + ring_capacity p\<rparr>)
                  else next_sequences w pid now n p
                         = Some (Inl (MissingFreeSlots (i64_as_u64
                                   (pd_sequence p + int n - 1 - (m + ring_capacity p)))),
                                 p\<lparr>pd_barrier := b\<rparr>)))"
proof -
  have range: "0 \<le> pd_sequence p" "pd_sequence p + int n \<le> 2305843009213693952"
    using assms(1,3) by (simp_all add: producer_in_range_def seq_limit_def)
  then have n: "i64_try_from_usize n = Some (int n)"
    by (simp add: i64_try_from_usize_def checked_i64_def i64_simps)
  have last: "last_reserved_sequence p (int n) = Inr (pd_sequence p + int n - 1)"
    using range by (simp add: last_reserved_sequence_def checked_i64_def i64_simps algebra_simps)
  obtain m b where gate: "get_min_consumer_sequence w pid now (pd_barrier p) = (m, b)" by fastforce
  have m: "-1 \<le> m" "m \<le> seq_limit"
    using gate_in_range [OF assms(4,5,6) gate] by simp_all
  have wrap: "wrap_i64 (pd_sequence p - 1) = pd_sequence p - 1"
    using range by (intro wrap_i64_id) (simp add: i64_simps)
  have free: "free_slots (pd_ring p) (pd_sequence p - 1) m = m - (pd_sequence p - 1) + ring_capacity p"
    by (rule producer_free_slots [OF assms(1) m])
  have cap: "0 < ring_capacity p" "ring_capacity p \<le> 2305843009213693952" "m \<le> 2305843009213693952"
    using ring_capacity_pos [OF assms(1)] assms(1) m by (simp_all add: producer_in_range_def seq_limit_def)
  have clear: "wrap_i64 (pd_sequence p - 1 + (m - (pd_sequence p - 1) + ring_capacity p)) = m + ring_capacity p"
    using m cap by (subst wrap_i64_id) (simp_all add: i64_simps)
  have missing: "wrap_i64 (int n - (m - (pd_sequence p - 1) + ring_capacity p))
      = pd_sequence p + int n - 1 - (m + ring_capacity p)"
    using m cap range by (subst wrap_i64_id) (simp_all add: i64_simps)
  show ?thesis
  proof (cases "pd_sequence p + int n - 1 \<le> pd_clear p")
    case True
    then show ?thesis
      using assms(2) n last by (simp add: next_sequences_def update_min_consumer_clearance_window_def)
  next
    case False
    have "m - (pd_sequence p - 1) + ring_capacity p < int n
        \<longleftrightarrow> \<not> pd_sequence p + int n - 1 \<le> m + ring_capacity p" by linarith
    then show ?thesis
      using False assms(2) n last gate wrap free clear missing
      by (simp add: next_sequences_def update_min_consumer_clearance_window_def Let_def)
  qed
qed

text \<open>C5. Reservation. A granted reservation is exactly the next \<open>n\<close> sequence numbers and stays within one
  ring of every consumer the barrier tracks, also of those it has just discovered; a refused
  one reports exactly how many slots are missing and keeps the sequence.\<close>

theorem reservation_never_overruns:
  assumes "producer_in_range p" "0 < n" "pd_sequence p + int n \<le> seq_limit"
    and "barrier_ok w (pd_barrier p)" "cb_mode (pd_barrier p) \<noteq> Disabled"
    and "sequences_in_range w (pd_barrier p)" "-1 \<le> pd_clear p"
    and "\<forall>(consumer, h) \<in> set (cb_cursors (pd_barrier p)). pd_clear p \<le> load w h + ring_capacity p"
    and "next_sequences w pid now n p = Some (r, p')"
  shows "pd_sequence p' = pd_sequence p \<and>
     (case r of
        Inr u \<Rightarrow> u = pd_sequence p + int n - 1 \<and> u \<le> pd_clear p'
          \<and> (\<forall>(consumer, h) \<in> set (cb_cursors (pd_barrier p')).
               -1 \<le> load w h \<longrightarrow> u \<le> load w h + ring_capacity p)
      | Inl (MissingFreeSlots k) \<Rightarrow>
          \<exists>m. fst (get_min_consumer_sequence w pid now (pd_barrier p)) = m
            \<and> 0 < pd_sequence p + int n - 1 - (m + ring_capacity p)
            \<and> k = i64_as_u64 (pd_sequence p + int n - 1 - (m + ring_capacity p)))"
  using next_sequences_cases [OF assms(1-7), of pid now]
proof (elim disjE conjE exE)
  assume "pd_sequence p + int n - 1 \<le> pd_clear p"
    "next_sequences w pid now n p = Some (Inr (pd_sequence p + int n - 1), p)"
  then show ?thesis using assms(8,9) by fastforce
next
  fix m b
  assume gate: "get_min_consumer_sequence w pid now (pd_barrier p) = (m, b)"
    and grant: "if pd_sequence p + int n - 1 \<le> m + ring_capacity p
                then next_sequences w pid now n p
                       = Some (Inr (pd_sequence p + int n - 1),
                               p\<lparr>pd_barrier := b, pd_clear := m + ring_capacity p\<rparr>)
                else next_sequences w pid now n p
                       = Some (Inl (MissingFreeSlots (i64_as_u64
                                 (pd_sequence p + int n - 1 - (m + ring_capacity p)))),
                               p\<lparr>pd_barrier := b\<rparr>)"
  have "\<forall>(consumer, h) \<in> set (cb_cursors b). -1 \<le> load w h \<longrightarrow> m \<le> load w h"
    using gating_minimum [OF assms(4,5) gate] by simp
  then show ?thesis using grant gate assms(9) by (fastforce split: if_splits)
qed

section \<open>Batches and single events\<close>

text \<open>The batch written one event at a time.\<close>

primrec apply_each ::
  "nat \<Rightarrow> ('e \<Rightarrow> nat \<Rightarrow> 'e) \<Rightarrow> producer \<Rightarrow> 'e shared \<Rightarrow> (producer \<times> 'e shared) option" where
  "apply_each 0 f p sh = Some (p, sh)"
| "apply_each (Suc k) f p sh =
     (case apply_each k f p sh of
        None \<Rightarrow> None
      | Some (p1, sh1) \<Rightarrow> map_option (\<lambda>(_, q). q) (apply_update (\<lambda>e. f e k) p1 sh1))"

lemma store_store [simp]: "store (store w h u) h v = store w h v"
  by (simp add: store_def)

lemma apply_each_range:
  assumes "producer_in_range p" "pd_sequence p + int n \<le> seq_limit"
  shows "apply_each n f p sh =
     (case update_range (pd_ring p) (pd_sequence p) n f (sh_slots sh) of
        None \<Rightarrow> None
      | Some slots \<Rightarrow>
          Some (p\<lparr>pd_sequence := pd_sequence p + int n\<rparr>,
                if n = 0 then sh\<lparr>sh_slots := slots\<rparr>
                else shared_store (pd_cursor p) (pd_sequence p + int n - 1) (sh\<lparr>sh_slots := slots\<rparr>)))"
  using assms(2)
proof (induction n)
  case (Suc k)
  have wrap: "wrap_i64 (pd_sequence p + int k + 1) = pd_sequence p + int k + 1"
    using Suc.prems assms(1) by (intro wrap_i64_id) (simp add: range_defs)
  show ?case
  proof (cases "update_range (pd_ring p) (pd_sequence p) k f (sh_slots sh)")
    case None
    then show ?thesis using Suc by simp
  next
    case (Some slots)
    have "0 \<le> pd_sequence p + int k" using assms(1) by (simp add: producer_in_range_def)
    then show ?thesis
      using Suc Some wrap
      by (cases "k = 0"; cases "update_event (pd_ring p) (pd_sequence p + int k) (\<lambda>e. f e k) slots")
        (simp_all add: apply_update_def Let_def shared_store_def algebra_simps)
  qed
qed simp

text \<open>C17. A batch is its events. Writing a batch has the same outcome, slots, cursor and sequence, as publishing
  its events one after the other; it only hides the intermediate cursor values.\<close>

theorem batch_equals_single_publishes:
  assumes "producer_in_range p" "0 < n" "pd_sequence p + int n \<le> seq_limit"
  shows "map_option snd (apply_batch_updates n f p sh) = apply_each n f p sh
         \<and> (\<forall>u q. apply_batch_updates n f p sh = Some (u, q) \<longrightarrow> u = pd_sequence p + int n - 1)"
proof -
  have range: "i64_try_from_usize n = Some (int n)" "wrap_i64 (pd_sequence p + int n) = pd_sequence p + int n"
    "checked_i64 (pd_sequence p + (int n - 1)) = Some (pd_sequence p + int n - 1)"
    using assms by (simp_all add: i64_try_from_usize_def range_defs)
  show ?thesis
    using assms(2) apply_each_range [OF assms(1,3), of f sh]
    by (cases "update_range (pd_ring p) (pd_sequence p) n f (sh_slots sh)")
      (simp_all only: apply_batch_updates_def range option.case option.map snd_conv
        neq0_conv if_True if_False simp_thms option.inject prod.inject option.distinct, auto)
qed

definition small_ring :: ring where
  "small_ring = make_ring 0 56 8 True"

lemma small_ring_wf: "ring_wf small_ring" "int (unat (rb_size small_ring)) = 8"
  using mask_of_size [of 3] by (simp_all add: ring_wf_def small_ring_def make_ring_def is_power_of_two_def)

text \<open>A producer on an eight-slot ring named \<open>r\<close> that has published \<open>n\<close> events and expects the
  two consumers of the barrier example.\<close>

definition small_producer :: "int \<Rightarrow> int \<Rightarrow> producer" where
  "small_producer n clear =
     \<lparr> pd_ring = small_ring, pd_cursor = (''r_p'', 9), pd_barrier = first_tracked 0, pd_sequence = n,
       pd_clear = clear, pd_coordination_completed = True, pd_liveness = None,
       pd_events_published = None, pd_full_events = None \<rparr>"

lemma small_producer_simps [simp]:
  "pd_ring (small_producer n clear) = small_ring" "pd_sequence (small_producer n clear) = n"
  "pd_cursor (small_producer n clear) = (''r_p'', 9)"
  "pd_barrier (small_producer n clear) = first_tracked 0" "pd_clear (small_producer n clear) = clear"
  "pd_liveness (small_producer n clear) = None"
  by (simp_all add: small_producer_def)

lemma small_producer_range [simp]:
  "0 \<le> n \<Longrightarrow> n \<le> seq_limit \<Longrightarrow> producer_in_range (small_producer n clear)"
  "ring_capacity (small_producer n clear) = 8"
  unfolding producer_in_range_def ring_capacity_def
  using small_ring_wf by (simp_all add: seq_limit_def)

lemma two_consumers_range: "sequences_in_range two_consumers b"
  by (auto simp: sequences_in_range_def two_consumers_def attach_def load_def seq_limit_def)

lemma first_tracked_mode: "cb_mode (first_tracked t) \<noteq> Disabled"
  by (simp add: first_tracked_def barrier_empty_def)

theorem reservation_never_overruns_witness:
  "\<exists>k p'. next_sequences two_consumers 1 20000000 3 (small_producer 8 7) = Some (Inl (MissingFreeSlots k), p')
     \<and> k = 3"
proof -
  let ?p = "small_producer 8 7"
  obtain m b where gate: "get_min_consumer_sequence two_consumers 1 20000000 (first_tracked 0) = (m, b)"
    by fastforce
  have "fst (get_min_consumer_sequence two_consumers 1 20000000 (first_tracked 0)) = -1"
    by (simp add: get_min_refresh refresh_discovery_def first_tracked_def barrier_empty_def
        discover_consumers_def discovery_scan_plan_def scan_def discover_with_consumer_prefix_def
        discover_consumer_id_def known_def attach_def two_consumers_def sequence_name_def
        prefix_names_two discovered_min_sequence_def load_def i64_max_def)
  then have m: "m = -1" using gate by simp
  have pre: "producer_in_range ?p" "(0::nat) < 3" "pd_sequence ?p + int 3 \<le> seq_limit"
    "barrier_ok two_consumers (pd_barrier ?p)" "cb_mode (pd_barrier ?p) \<noteq> Disabled"
    "sequences_in_range two_consumers (pd_barrier ?p)" "-1 \<le> pd_clear ?p"
    "\<forall>(consumer, h) \<in> set (cb_cursors (pd_barrier ?p)). pd_clear ?p \<le> load two_consumers h + ring_capacity ?p"
    using small_producer_range two_consumers_ok two_consumers_range first_tracked_mode
    by (simp_all add: seq_limit_def first_tracked_def load_def two_consumers_def)
  obtain r p' where r: "next_sequences two_consumers 1 20000000 3 ?p = Some (r, p')"
    using next_sequences_cases [OF pre(1-7), of 1 20000000] by (auto split: if_splits)
  note contract = reservation_never_overruns [OF pre r]
  show ?thesis
  proof (cases r)
    case (Inl e)
    then show ?thesis
      using contract r gate m by (cases e) (auto simp: i64_as_u64_def)
  next
    case (Inr u)
    then have "u = 10" "u \<le> m + 8"
      using contract next_sequences_cases [OF pre(1-7), of 1 20000000] r gate
      by (auto split: if_splits)
    then show ?thesis using m by simp
  qed
qed

theorem batch_equals_single_publishes_witness:
  "map_option snd (apply_batch_updates 2 (\<lambda>e i. i) (small_producer 7 7)
      \<lparr>sh_world = two_consumers, sh_slots = replicate 8 0, sh_counters = counters_init\<rparr>)
   = apply_each 2 (\<lambda>e i. i) (small_producer 7 7)
      \<lparr>sh_world = two_consumers, sh_slots = replicate 8 0, sh_counters = counters_init\<rparr>"
  using batch_equals_single_publishes [of "small_producer 7 7" 2 "\<lambda>e i. i"] small_producer_range
  by (simp add: seq_limit_def)

section \<open>Batches that do not fit\<close>

lemma refused_when_too_large:
  assumes "producer_in_range p" "ring_capacity p < int n" "pd_sequence p + int n \<le> seq_limit"
    and "barrier_ok w (pd_barrier p)" "cb_mode (pd_barrier p) \<noteq> Disabled"
    and "-1 \<le> pd_clear p" "pd_clear p \<le> pd_sequence p - 1 + ring_capacity p"
    and behind: "\<forall>name h. attach w name = Some h \<longrightarrow> load w h < pd_sequence p"
  shows "\<exists>e b. next_sequences w pid now n p = Some (Inl e, p\<lparr>pd_barrier := b\<rparr>)
           \<and> barrier_ok w b \<and> cb_mode b = cb_mode (pd_barrier p)"
proof -
  have n: "0 < n" using assms(2) ring_capacity_pos [OF assms(1)] by (cases n) auto
  have range: "sequences_in_range w (pd_barrier p)"
    using behind assms(1) unfolding sequences_in_range_def producer_in_range_def by fastforce
  obtain m b where gate: "get_min_consumer_sequence w pid now (pd_barrier p) = (m, b)" by fastforce
  note facts = gating_minimum [OF assms(4,5) gate]
  have "m < pd_sequence p"
  proof -
    have "m = -1 \<or> (\<exists>name h. attach w name = Some h \<and> m = load w h)"
      using facts unfolding barrier_ok_def by fast
    then show ?thesis using behind assms(1) by (auto simp: producer_in_range_def)
  qed
  moreover have "cb_mode b = cb_mode (pd_barrier p)"
    using gate refresh_discovery_ok [OF assms(4), of pid now] by (auto simp: get_min_refresh Let_def extends_def)
  ultimately show ?thesis
    using next_sequences_cases [OF assms(1) n assms(3,4,5) range assms(6), of pid now] gate facts assms(2,7)
    by auto
qed



end
