(* ===== verification/Consumer.thy ===== *)
theory Consumer
  imports Producer
begin

text \<open>
  The shared-memory consumer (\<open>disruptor-mp/src/consumer.rs\<close>): the bounds of the available
  batch, copying and leased consumption, batch processing with callbacks, the blocking
  variants and the readiness protocol. A callback is a function on an accumulator; a lease is
  the value between the call that takes it and its drop, which publishes the sequence.
\<close>

section \<open>State\<close>

record consumer =
  cn_ring :: ring
  cn_producer :: handle
  cn_cursor :: handle
  cn_id :: string
  cn_last :: int
  cn_ready :: "handle option"
  cn_events_consumed :: "nat option"
  cn_empty_spins :: "nat option"
  cn_lag_max :: "nat option"

record consumer_counter_selection =
  cc_events_consumed :: bool
  cc_empty_spins :: bool
  cc_lag_max :: bool

definition consumer_selection_full :: consumer_counter_selection where
  "consumer_selection_full = \<lparr> cc_events_consumed = True, cc_empty_spins = True, cc_lag_max = True \<rparr>"

definition consumer_selection_lite :: consumer_counter_selection where
  "consumer_selection_lite = \<lparr> cc_events_consumed = True, cc_empty_spins = False, cc_lag_max = False \<rparr>"

text \<open>\<open>signal_readiness\<close> adds one to the readiness counter when there is one.\<close>

definition signal_readiness :: "consumer \<Rightarrow> world \<Rightarrow> world" where
  "signal_readiness c w = (case cn_ready c of None \<Rightarrow> w | Some h \<Rightarrow> snd (fetch_add w h 1))"

definition consumer_new ::
  "world \<Rightarrow> ring \<Rightarrow> handle \<Rightarrow> handle \<Rightarrow> string \<Rightarrow> string option \<Rightarrow> (consumer \<times> world) option" where
  "consumer_new w r producer_cursor consumer_cursor consumer base_name =
     (if consumer = [] then None
      else
        let ready = (case base_name of None \<Rightarrow> None | Some base \<Rightarrow> attach w (base @ ''_cr''));
            c = \<lparr> cn_ring = r, cn_producer = producer_cursor, cn_cursor = consumer_cursor,
                  cn_id = consumer, cn_last = load w consumer_cursor, cn_ready = ready,
                  cn_events_consumed = None, cn_empty_spins = None, cn_lag_max = None \<rparr> in
        Some (c, signal_readiness c w))"

definition try_attach_coordination :: "string \<Rightarrow> consumer \<Rightarrow> world \<Rightarrow> (bool \<times> consumer \<times> world) option" where
  "try_attach_coordination base c w =
     (if base = [] then None
      else if cn_ready c \<noteq> None then Some (True, c, w)
      else (case attach w (base @ ''_cr'') of
              None \<Rightarrow> Some (False, c, w)
            | Some h \<Rightarrow> let c1 = c\<lparr>cn_ready := Some h\<rparr> in Some (True, c1, signal_readiness c1 w)))"

definition has_coordination_support :: "consumer \<Rightarrow> bool" where
  "has_coordination_support c \<longleftrightarrow> cn_ready c \<noteq> None"

definition consumer_attach_counters_selected ::
  "consumer_counter_selection \<Rightarrow> consumer \<Rightarrow> 'e shared \<Rightarrow> consumer \<times> 'e shared" where
  "consumer_attach_counters_selected selection c sh =
     (case register_if (cc_events_consumed selection) EVENTS_CONSUMED COUNTER_FLAG_CONSUMER
             ''events_consumed'' (sh_counters sh) of (consumed, f1) \<Rightarrow>
      case register_if (cc_empty_spins selection) CONSUMER_EMPTY_SPINS COUNTER_FLAG_CONSUMER
             ''consumer_empty_spins'' f1 of (spins, f2) \<Rightarrow>
      case register_if (cc_lag_max selection) CONSUMER_LAG_MAX COUNTER_FLAG_CONSUMER
             ''consumer_lag_max'' f2 of (lag, f3) \<Rightarrow>
        (c\<lparr>cn_events_consumed := consumed, cn_empty_spins := spins, cn_lag_max := lag\<rparr>,
         sh\<lparr>sh_counters := f3\<rparr>))"

definition consumer_attach_counters :: "consumer \<Rightarrow> 'e shared \<Rightarrow> consumer \<times> 'e shared" where
  "consumer_attach_counters c sh = consumer_attach_counters_selected consumer_selection_full c sh"

definition add_counter :: "nat option \<Rightarrow> nat \<Rightarrow> 'e shared \<Rightarrow> 'e shared" where
  "add_counter counter n sh =
     (case counter of
        None \<Rightarrow> sh
      | Some i \<Rightarrow> sh\<lparr>sh_counters := counter_add i (of_nat n) (sh_counters sh)\<rparr>)"

text \<open>\<open>(upper - next).max(0) as u64\<close> into the high-water mark.\<close>

definition record_lag :: "nat option \<Rightarrow> int \<Rightarrow> int \<Rightarrow> 'e shared \<Rightarrow> 'e shared" where
  "record_lag counter next_sequence upper sh =
     (case counter of
        None \<Rightarrow> sh
      | Some i \<Rightarrow>
          sh\<lparr>sh_counters :=
               counter_record_max i (i64_as_u64 (max (wrap_i64 (upper - next_sequence)) 0)) (sh_counters sh)\<rparr>)"

section \<open>Single events\<close>

definition available_batch_bounds :: "consumer \<Rightarrow> world \<Rightarrow> (int \<times> int) option option" where
  "available_batch_bounds c w =
     (if \<not> -1 \<le> cn_last c then None
      else
        let producer_seq = load w (cn_producer c); next_sequence = wrap_i64 (cn_last c + 1) in
        Some (if producer_seq < next_sequence then None else Some (next_sequence, producer_seq)))"

definition publish_consumed_sequence :: "int \<Rightarrow> consumer \<Rightarrow> 'e shared \<Rightarrow> consumer \<times> 'e shared" where
  "publish_consumed_sequence sequence c sh =
     (c\<lparr>cn_last := sequence\<rparr>, shared_store (cn_cursor c) sequence sh)"

definition is_end_of_batch :: "consumer \<Rightarrow> world \<Rightarrow> bool" where
  "is_end_of_batch c w \<longleftrightarrow> load w (cn_producer c) \<le> cn_last c"

definition try_consume_next ::
  "consumer \<Rightarrow> 'e shared \<Rightarrow> ((int \<times> 'e) option \<times> consumer \<times> 'e shared) option" where
  "try_consume_next c sh =
     (case available_batch_bounds c (sh_world sh) of
        None \<Rightarrow> None
      | Some None \<Rightarrow> Some (None, c, inc_counter (cn_empty_spins c) sh)
      | Some (Some (next_sequence, upper)) \<Rightarrow>
          (case read_slot (cn_ring c) (sh_slots sh) next_sequence of
             None \<Rightarrow> None
           | Some event \<Rightarrow>
               (case publish_consumed_sequence next_sequence c sh of (c1, sh1) \<Rightarrow>
                  Some (Some (next_sequence, event), c1,
                        record_lag (cn_lag_max c1) next_sequence upper
                          (inc_counter (cn_events_consumed c1) sh1)))))"

text \<open>A lease holds the sequence and the slot it borrows; \<open>lease_deref\<close> reads the slot as it
  is now, \<open>lease_drop\<close> publishes.\<close>

record lease =
  le_sequence :: int
  le_slot :: nat

definition take_lease :: "consumer \<Rightarrow> 'e shared \<Rightarrow> int \<Rightarrow> lease option" where
  "take_lease c sh sequence =
     map_option (\<lambda>i. \<lparr> le_sequence = sequence, le_slot = i \<rparr>) (slot_of (cn_ring c) (sh_slots sh) sequence)"

definition try_consume_next_leased ::
  "consumer \<Rightarrow> 'e shared \<Rightarrow> (lease option \<times> 'e shared) option" where
  "try_consume_next_leased c sh =
     (case available_batch_bounds c (sh_world sh) of
        None \<Rightarrow> None
      | Some None \<Rightarrow> Some (None, inc_counter (cn_empty_spins c) sh)
      | Some (Some (next_sequence, upper)) \<Rightarrow>
          (let sh1 = record_lag (cn_lag_max c) next_sequence upper sh in
           map_option (\<lambda>l. (Some l, sh1)) (take_lease c sh1 next_sequence)))"

definition lease_deref :: "lease \<Rightarrow> 'e shared \<Rightarrow> 'e" where
  "lease_deref l sh = sh_slots sh ! le_slot l"

definition lease_drop :: "lease \<Rightarrow> consumer \<Rightarrow> 'e shared \<Rightarrow> consumer \<times> 'e shared" where
  "lease_drop l c sh =
     (case publish_consumed_sequence (le_sequence l) c sh of
        (c1, sh1) \<Rightarrow> (c1, inc_counter (cn_events_consumed c1) sh1))"

section \<open>Batches\<close>

text \<open>The loop over \<open>lower..=upper\<close>: \<open>n\<close> events from \<open>lower\<close> on, in order.\<close>

fun fold_events ::
  "ring \<Rightarrow> 'e list \<Rightarrow> int \<Rightarrow> nat \<Rightarrow> ('e \<Rightarrow> int \<Rightarrow> 'a \<Rightarrow> 'a) \<Rightarrow> 'a \<Rightarrow> 'a option" where
  "fold_events r slots lower 0 f acc = Some acc"
| "fold_events r slots lower (Suc n) f acc =
     (case read_slot r slots lower of
        None \<Rightarrow> None
      | Some event \<Rightarrow> fold_events r slots (lower + 1) n f (f event lower acc))"

definition process_snapshot_batch ::
  "int \<Rightarrow> int \<Rightarrow> ('e \<Rightarrow> int \<Rightarrow> 'a \<Rightarrow> 'a) \<Rightarrow> 'a \<Rightarrow> consumer \<Rightarrow> 'e shared
    \<Rightarrow> (nat \<times> 'a \<times> consumer \<times> 'e shared) option" where
  "process_snapshot_batch lower upper processor acc c sh =
     (let sh0 = record_lag (cn_lag_max c) lower upper sh; n = nat (upper - lower + 1) in
      case fold_events (cn_ring c) (sh_slots sh0) lower n processor acc of
        None \<Rightarrow> None
      | Some acc1 \<Rightarrow>
          (case publish_consumed_sequence upper c sh0 of (c1, sh1) \<Rightarrow>
             Some (n, acc1, c1, add_counter (cn_events_consumed c1) n sh1)))"

definition process_snapshot_batch_with_eob ::
  "int \<Rightarrow> int \<Rightarrow> ('e \<Rightarrow> int \<Rightarrow> bool \<Rightarrow> 'a \<Rightarrow> 'a) \<Rightarrow> 'a \<Rightarrow> consumer \<Rightarrow> 'e shared
    \<Rightarrow> (nat \<times> 'a \<times> consumer \<times> 'e shared) option" where
  "process_snapshot_batch_with_eob lower upper processor acc c sh =
     process_snapshot_batch lower upper (\<lambda>e s. processor e s (s = upper)) acc c sh"

section \<open>Blocking variants\<close>

text \<open>One view of the shared memory for each turn of the loop; the sleeping variants differ
  only in how they pass the time between turns.\<close>

fun consume_next :: "consumer \<Rightarrow> 'e shared list \<Rightarrow> ((int \<times> 'e) \<times> consumer \<times> 'e shared \<times> 'e shared list) outcome" where
  "consume_next c [] = Waiting"
| "consume_next c (sh # views) =
     (case try_consume_next c sh of
        None \<Rightarrow> Panics
      | Some (Some r, c1, sh1) \<Rightarrow> Returns (r, c1, sh1, views)
      | Some (None, c1, _) \<Rightarrow> consume_next c1 views)"

definition consume_next_with_sleep where
  "consume_next_with_sleep = consume_next"

fun consume_next_leased :: "consumer \<Rightarrow> 'e shared list \<Rightarrow> (lease \<times> 'e shared \<times> 'e shared list) outcome" where
  "consume_next_leased c [] = Waiting"
| "consume_next_leased c (sh # views) =
     (case available_batch_bounds c (sh_world sh) of
        None \<Rightarrow> Panics
      | Some (Some (next_sequence, _)) \<Rightarrow>
          (case take_lease c sh next_sequence of
             None \<Rightarrow> Panics
           | Some l \<Rightarrow> Returns (l, sh, views))
      | Some None \<Rightarrow> consume_next_leased c views)"

definition consume_next_leased_with_sleep where
  "consume_next_leased_with_sleep = consume_next_leased"

text \<open>The end-of-batch test reads the producer cursor once more, in the next view.\<close>

definition process_next_blocking ::
  "('e \<Rightarrow> int \<Rightarrow> bool \<Rightarrow> 'a \<Rightarrow> 'a) \<Rightarrow> 'a \<Rightarrow> consumer \<Rightarrow> 'e shared list
    \<Rightarrow> ((int \<times> bool) \<times> 'a \<times> consumer \<times> 'e shared) outcome" where
  "process_next_blocking processor acc c views =
     bind_outcome (consume_next c views) (\<lambda>((sequence, event), c1, sh1, rest).
       case rest of
         [] \<Rightarrow> Waiting
       | sh2 # _ \<Rightarrow>
           let eob = is_end_of_batch c1 (sh_world sh2) in
           Returns ((sequence, eob), processor event sequence eob acc, c1, sh1))"

definition process_next_blocking_with_sleep where
  "process_next_blocking_with_sleep = process_next_blocking"

text \<open>The loop that drains what is available, one snapshot batch after the other.\<close>

fun drain ::
  "(int \<Rightarrow> int \<Rightarrow> 'a \<Rightarrow> consumer \<Rightarrow> 'e shared \<Rightarrow> (nat \<times> 'a \<times> consumer \<times> 'e shared) option)
    \<Rightarrow> nat \<Rightarrow> 'a \<Rightarrow> consumer \<Rightarrow> 'e shared \<Rightarrow> 'e shared list
    \<Rightarrow> (nat \<times> 'a \<times> consumer \<times> 'e shared) outcome" where
  "drain batch processed acc c sh [] = Waiting"
| "drain batch processed acc c sh (view # views) =
     (case available_batch_bounds c (sh_world view) of
        None \<Rightarrow> Panics
      | Some None \<Rightarrow> Returns (processed, acc, c, view)
      | Some (Some (lower, upper)) \<Rightarrow>
          (case batch lower upper acc c view of
             None \<Rightarrow> Panics
           | Some (n, acc1, c1, sh1) \<Rightarrow> drain batch (processed + n) acc1 c1 sh1 views))"

definition process_available ::
  "('e \<Rightarrow> int \<Rightarrow> 'a \<Rightarrow> 'a) \<Rightarrow> 'a \<Rightarrow> consumer \<Rightarrow> 'e shared \<Rightarrow> 'e shared list
    \<Rightarrow> (nat \<times> 'a \<times> consumer \<times> 'e shared) outcome" where
  "process_available processor acc c sh views =
     bind_outcome (drain (\<lambda>lower upper. process_snapshot_batch lower upper processor) 0 acc c sh views)
       (\<lambda>(processed, acc1, c1, sh1).
          Returns (processed, acc1, c1,
                   if processed = 0 then inc_counter (cn_empty_spins c1) sh1 else sh1))"

fun process_available_blocking ::
  "('e \<Rightarrow> int \<Rightarrow> bool \<Rightarrow> 'a \<Rightarrow> 'a) \<Rightarrow> 'a \<Rightarrow> consumer \<Rightarrow> 'e shared list
    \<Rightarrow> (nat \<times> 'a \<times> consumer \<times> 'e shared) outcome" where
  "process_available_blocking processor acc c [] = Waiting"
| "process_available_blocking processor acc c (view # views) =
     (case available_batch_bounds c (sh_world view) of
        None \<Rightarrow> Panics
      | Some None \<Rightarrow> process_available_blocking processor acc c views
      | Some (Some (lower, upper)) \<Rightarrow>
          (case process_snapshot_batch_with_eob lower upper processor acc c view of
             None \<Rightarrow> Panics
           | Some (n, acc1, c1, sh1) \<Rightarrow>
               drain (\<lambda>lower upper. process_snapshot_batch_with_eob lower upper processor) n acc1 c1 sh1 views))"

definition debug_sequences :: "consumer \<Rightarrow> world \<Rightarrow> int \<times> int \<times> int" where
  "debug_sequences c w = (cn_last c, load w (cn_producer c), load w (cn_cursor c))"

end
