(* ===== verification/Disruptor.thy ===== *)
theory Disruptor
  imports Consumer
begin

text \<open>
  The protocol of one producer and any number of consumers on a shared ring, as a step
  relation at the granularity of the atomic accesses of the source: the reservation
  (\<open>next_sequences\<close>), each write of a slot, the release store of the producer cursor, the
  acquire load of a consumer, each read of a slot and the store of the consumer's own cursor.
  The reachable states satisfy the safety of the ring: what a consumer reads is exactly the
  published history, without loss, duplication, reordering or overwritten events. A ghost
  field records the history of written events; readers record what they were given.
\<close>

section \<open>States and steps\<close>

datatype writer_phase = Ready | Filling int int
datatype reader_phase = Idle | Batch int int

record 'e reader =
  rd_consumer :: consumer
  rd_phase :: reader_phase
  rd_start :: int
  rd_seen :: "(int \<times> 'e) list"

record 'e system =
  sy_shared :: "'e shared"
  sy_producer :: producer
  sy_phase :: writer_phase
  sy_readers :: "'e reader list"
  sy_hist :: "'e list"

definition sy_world :: "'e system \<Rightarrow> world" where
  "sy_world s = sh_world (sy_shared s)"

inductive step :: "nat \<Rightarrow> 'e system \<Rightarrow> 'e system \<Rightarrow> bool" for pid :: nat where
  reserve:
    "\<lbrakk> sy_phase s = Ready; 0 < n; pd_sequence (sy_producer s) + int n \<le> seq_limit;
       next_sequences (sy_world s) pid now n (sy_producer s) = Some (Inr u, p1) \<rbrakk>
     \<Longrightarrow> step pid s (s\<lparr>sy_producer := p1, sy_phase := Filling (pd_sequence (sy_producer s)) u\<rparr>)"
| refuse:
    "\<lbrakk> sy_phase s = Ready; 0 < n; pd_sequence (sy_producer s) + int n \<le> seq_limit;
       next_sequences (sy_world s) pid now n (sy_producer s) = Some (Inl e, p1) \<rbrakk>
     \<Longrightarrow> step pid s (s\<lparr>sy_producer := p1\<rparr>)"
| fill:
    "\<lbrakk> sy_phase s = Filling q u; q \<le> u;
       update_event (pd_ring (sy_producer s)) q f (sh_slots (sy_shared s)) = Some slots;
       read_slot (pd_ring (sy_producer s)) slots q = Some e \<rbrakk>
     \<Longrightarrow> step pid s (s\<lparr>sy_shared := (sy_shared s)\<lparr>sh_slots := slots\<rparr>,
                      sy_phase := Filling (q + 1) u, sy_hist := sy_hist s @ [e]\<rparr>)"
| commit:
    "\<lbrakk> sy_phase s = Filling (u + 1) u \<rbrakk>
     \<Longrightarrow> step pid s (s\<lparr>sy_shared := shared_store (pd_cursor (sy_producer s)) u (sy_shared s),
                      sy_producer := (sy_producer s)\<lparr>pd_sequence := u + 1\<rparr>, sy_phase := Ready\<rparr>)"
| acquire:
    "\<lbrakk> i < length (sy_readers s); r = sy_readers s ! i; rd_phase r = Idle;
       available_batch_bounds (rd_consumer r) (sy_world s) = Some (Some (lower, upper)) \<rbrakk>
     \<Longrightarrow> step pid s (s\<lparr>sy_readers := (sy_readers s)[i := r\<lparr>rd_phase := Batch lower upper\<rparr>]\<rparr>)"
| take_event:
    "\<lbrakk> i < length (sy_readers s); r = sy_readers s ! i; rd_phase r = Batch q upper; q \<le> upper;
       read_slot (cn_ring (rd_consumer r)) (sh_slots (sy_shared s)) q = Some e \<rbrakk>
     \<Longrightarrow> step pid s (s\<lparr>sy_readers := (sy_readers s)[i :=
           r\<lparr>rd_phase := Batch (q + 1) upper, rd_seen := rd_seen r @ [(q, e)]\<rparr>]\<rparr>)"
| finish:
    "\<lbrakk> i < length (sy_readers s); r = sy_readers s ! i; rd_phase r = Batch q upper;
       cn_last (rd_consumer r) + 1 < q;
       publish_consumed_sequence (q - 1) (rd_consumer r) (sy_shared s) = (c1, sh1) \<rbrakk>
     \<Longrightarrow> step pid s (s\<lparr>sy_shared := sh1,
           sy_readers := (sy_readers s)[i := r\<lparr>rd_consumer := c1, rd_phase := Idle\<rparr>]\<rparr>)"
| count:
    "step pid s (s\<lparr>sy_shared := (sy_shared s)\<lparr>sh_counters := f\<rparr>\<rparr>)"

text \<open>The barrier covers the readers when it tracks all of them, or none at all.\<close>

definition reader_handles :: "'e system \<Rightarrow> handle list" where
  "reader_handles s = map (\<lambda>r. cn_cursor (rd_consumer r)) (sy_readers s)"

definition tracked_handles :: "barrier \<Rightarrow> handle set" where
  "tracked_handles b = snd ` set (cb_cursors b)"

definition covered :: "'e system \<Rightarrow> bool" where
  "covered s \<longleftrightarrow>
     tracked_handles (pd_barrier (sy_producer s)) = {}
     \<or> set (reader_handles s) \<subseteq> tracked_handles (pd_barrier (sy_producer s))"

inductive covered_run :: "nat \<Rightarrow> 'e system \<Rightarrow> 'e system \<Rightarrow> bool" for pid :: nat where
  start: "covered s \<Longrightarrow> covered_run pid s s"
| step: "covered_run pid s t \<Longrightarrow> step pid t t' \<Longrightarrow> covered t' \<Longrightarrow> covered_run pid s t'"

section \<open>The invariant\<close>

definition capacity :: "'e system \<Rightarrow> nat" where
  "capacity s = unat (rb_size (pd_ring (sy_producer s)))"

definition published :: "'e system \<Rightarrow> int" where
  "published s = load (sy_world s) (pd_cursor (sy_producer s))"

definition writer_ok :: "'e system \<Rightarrow> bool" where
  "writer_ok s \<longleftrightarrow>
     (let p = sy_producer s in
      producer_in_range p \<and> length (sh_slots (sy_shared s)) = capacity s
      \<and> cb_mode (pd_barrier p) \<noteq> Disabled \<and> barrier_ok (sy_world s) (pd_barrier p)
      \<and> sequences_in_range (sy_world s) (pd_barrier p)
      \<and> published s = pd_sequence p - 1 \<and> pd_sequence p - 1 \<le> pd_clear p
      \<and> (case sy_phase s of
           Ready \<Rightarrow> int (length (sy_hist s)) = pd_sequence p
         | Filling q u \<Rightarrow> pd_sequence p \<le> u \<and> pd_sequence p \<le> q \<and> q \<le> u + 1 \<and> u \<le> pd_clear p
                        \<and> u + 1 \<le> seq_limit \<and> int (length (sy_hist s)) = q))"

definition window_ok :: "'e system \<Rightarrow> bool" where
  "window_ok s \<longleftrightarrow>
     (\<forall>q < length (sy_hist s). length (sy_hist s) \<le> q + capacity s \<longrightarrow>
        sh_slots (sy_shared s) ! (q mod capacity s) = sy_hist s ! q)"

definition read_position :: "'e reader \<Rightarrow> int" where
  "read_position r = (case rd_phase r of Idle \<Rightarrow> cn_last (rd_consumer r) + 1 | Batch q u \<Rightarrow> q)"

definition events :: "'e list \<Rightarrow> int \<Rightarrow> int \<Rightarrow> (int \<times> 'e) list" where
  "events hist lower upper = map (\<lambda>q. (q, hist ! nat q)) [lower..upper - 1]"

definition reader_ok :: "'e system \<Rightarrow> 'e reader \<Rightarrow> bool" where
  "reader_ok s r \<longleftrightarrow>
     (let c = rd_consumer r; p = sy_producer s in
      same_slots (cn_ring c) (pd_ring p) \<and> cn_producer c = pd_cursor p
      \<and> cn_last c = load (sy_world s) (cn_cursor c)
      \<and> -1 \<le> cn_last c \<and> cn_last c \<le> published s
      \<and> pd_clear p \<le> cn_last c + int (capacity s)
      \<and> (case rd_phase r of
           Idle \<Rightarrow> True
         | Batch q u \<Rightarrow> cn_last c < q \<and> q \<le> u + 1 \<and> u \<le> published s)
      \<and> 0 \<le> rd_start r \<and> rd_start r \<le> cn_last c + 1
      \<and> rd_seen r = events (sy_hist s) (rd_start r) (read_position r))"

definition cells_ok :: "'e system \<Rightarrow> bool" where
  "cells_ok s \<longleftrightarrow>
     distinct (snd (pd_cursor (sy_producer s)) # map snd (reader_handles s))"

definition system_ok :: "'e system \<Rightarrow> bool" where
  "system_ok s \<longleftrightarrow> writer_ok s \<and> window_ok s \<and> cells_ok s \<and> (\<forall>r \<in> set (sy_readers s). reader_ok s r)"


section \<open>Each step preserves the invariant\<close>

lemma sequences_in_range_store:
  "sequences_in_range w b \<Longrightarrow> v \<le> seq_limit \<Longrightarrow> sequences_in_range (store w h v) b"
  by (simp add: sequences_in_range_def load_def store_def attach_def)

lemma barrier_ok_store [simp]: "barrier_ok (store w h v) b = barrier_ok w b"
  by (simp add: barrier_ok_def)

lemma sequences_in_range_barrier: "sequences_in_range w b = sequences_in_range w b'"
  by (simp add: sequences_in_range_def)

lemma slot_of_value:
  assumes "ring_wf r" "0 \<le> q" "q \<le> seq_limit" "length slots = unat (rb_size r)"
  shows "slot_of r slots q = Some (nat q mod unat (rb_size r))"
proof -
  have pos: "0 < unat (rb_size r)" using ring_wf_size_pos [OF assms(1)] .
  then have lt: "nat q mod unat (rb_size r) < unat (rb_size r)" by simp
  then have "unat (of_nat (nat q mod unat (rb_size r)) :: usize) = nat q mod unat (rb_size r)"
    using less_trans [OF lt unsigned_less] by (simp add: unsigned_of_nat take_bit_nat_eq_self)
  then show ?thesis
    using ring_index_value [OF assms(1,2)] assms(3,4) lt
    by (simp add: slot_of_def seq_limit_def i64_max_def)
qed

lemma writer_okD:
  assumes "writer_ok s"
  shows "producer_in_range (sy_producer s)" "length (sh_slots (sy_shared s)) = capacity s"
    and "ring_wf (pd_ring (sy_producer s))" "0 < capacity s"
    and "published s = pd_sequence (sy_producer s) - 1" "0 \<le> pd_sequence (sy_producer s)"
    and "pd_sequence (sy_producer s) \<le> int (length (sy_hist s))"
    and "int (length (sy_hist s)) \<le> pd_clear (sy_producer s) + 1"
    and "int (length (sy_hist s)) \<le> seq_limit"
  using assms ring_wf_size_pos [of "pd_ring (sy_producer s)"]
  by (auto simp: writer_ok_def Let_def producer_in_range_def capacity_def split: writer_phase.splits)

text \<open>The slots are seen by the ring the constructors made: the element of a sequence number is
  its remainder.\<close>

lemma system_slot:
  assumes "writer_ok s" "0 \<le> q" "q \<le> seq_limit"
  shows "slot_of (pd_ring (sy_producer s)) (sh_slots (sy_shared s)) q = Some (nat q mod capacity s)"
  using writer_okD(2,3) [OF assms(1)] assms(2,3) slot_of_value unfolding capacity_def by blast

lemma events_append:
  assumes "lower \<le> q" "0 \<le> lower" "nat q < length hist"
  shows "events hist lower (q + 1) = events hist lower q @ [(q, hist ! nat q)]"
  using assms upto_rec2 [of lower q] by (simp add: events_def)

lemma events_grow:
  assumes "upper \<le> int (length hist)" "0 \<le> lower"
  shows "events (hist @ [e]) lower upper = events hist lower upper"
  using assms by (auto simp: events_def nth_append)

text \<open>What a step may change without disturbing a reader.\<close>

lemma reader_ok_frame:
  assumes "reader_ok s r" "writer_ok s"
    and "pd_ring (sy_producer t) = pd_ring (sy_producer s)" "pd_cursor (sy_producer t) = pd_cursor (sy_producer s)"
    and "load (sy_world t) (cn_cursor (rd_consumer r)) = load (sy_world s) (cn_cursor (rd_consumer r))"
    and "published s \<le> published t"
    and "pd_clear (sy_producer t) \<le> cn_last (rd_consumer r) + int (capacity s)"
    and "sy_hist t = sy_hist s \<or> (\<exists>e. sy_hist t = sy_hist s @ [e])"
  shows "reader_ok t r"
proof -
  have cap: "capacity t = capacity s" using assms(3) by (simp add: capacity_def)
  have "read_position r \<le> int (length (sy_hist s))" "0 \<le> rd_start r"
    using assms(1) writer_okD(5,7) [OF assms(2)]
    by (auto simp: reader_ok_def Let_def read_position_def split: reader_phase.splits)
  then have "events (sy_hist t) (rd_start r) (read_position r) = events (sy_hist s) (rd_start r) (read_position r)"
    using assms(8) by (elim disjE exE) (simp_all add: events_grow)
  then show ?thesis
    using assms(1,3-7) cap by (auto simp: reader_ok_def Let_def split: reader_phase.splits)
qed

lemma gate_facts:
  assumes "writer_ok s" "sy_phase s = Ready"
  shows "producer_in_range (sy_producer s)" "barrier_ok (sy_world s) (pd_barrier (sy_producer s))"
    "cb_mode (pd_barrier (sy_producer s)) \<noteq> Disabled"
    "sequences_in_range (sy_world s) (pd_barrier (sy_producer s))" "-1 \<le> pd_clear (sy_producer s)"
    "ring_capacity (sy_producer s) = int (capacity s)"
  using assms by (simp_all add: writer_ok_def Let_def producer_in_range_def ring_capacity_def capacity_def)

lemma gate_keeps_mode:
  assumes "barrier_ok w b" "get_min_consumer_sequence w pid now b = (m, b')"
  shows "cb_mode b' = cb_mode b"
  using assms(2) refresh_discovery_ok [OF assms(1), of pid now]
  by (auto simp: get_min_refresh Let_def extends_def)

text \<open>The barrier's answer bounds every covered reader.\<close>

lemma gate_bounds_readers:
  assumes "writer_ok s" "sy_phase s = Ready" "\<forall>r \<in> set (sy_readers s). reader_ok s r"
    and gate: "get_min_consumer_sequence (sy_world s) pid now (pd_barrier (sy_producer s)) = (m, b)"
    and cover: "tracked_handles b = {} \<or> set (reader_handles s) \<subseteq> tracked_handles b"
    and r: "r \<in> set (sy_readers s)"
  shows "m \<le> cn_last (rd_consumer r)"
proof -
  note facts = gating_minimum [OF gate_facts(2,3) [OF assms(1,2)] gate]
  have last: "cn_last (rd_consumer r) = load (sy_world s) (cn_cursor (rd_consumer r))"
    "-1 \<le> cn_last (rd_consumer r)"
    using assms(3) r by (auto simp: reader_ok_def Let_def)
  show ?thesis
  proof (cases "tracked_handles b = {}")
    case True
    then have "m = -1" using facts by (auto simp: tracked_handles_def)
    then show ?thesis using last by simp
  next
    case False
    then have "cn_cursor (rd_consumer r) \<in> tracked_handles b"
      using cover r by (auto simp: reader_handles_def)
    then show ?thesis using facts last by (auto simp: tracked_handles_def)
  qed
qed

lemma reservation_outcome:
  assumes "writer_ok s" "sy_phase s = Ready" "0 < n" "pd_sequence (sy_producer s) + int n \<le> seq_limit"
    and "\<forall>r \<in> set (sy_readers s). reader_ok s r"
    and "next_sequences (sy_world s) pid now n (sy_producer s) = Some (res, p1)"
    and "tracked_handles (pd_barrier p1) = {} \<or> set (reader_handles s) \<subseteq> tracked_handles (pd_barrier p1)
         \<or> (\<exists>e. res = Inl e)"
  shows "\<exists>b c. p1 = (sy_producer s)\<lparr>pd_barrier := b, pd_clear := c\<rparr>
           \<and> barrier_ok (sy_world s) b \<and> cb_mode b \<noteq> Disabled \<and> pd_clear (sy_producer s) \<le> c
           \<and> (\<forall>r \<in> set (sy_readers s). c \<le> cn_last (rd_consumer r) + int (capacity s))
           \<and> (\<forall>u. res = Inr u \<longrightarrow> u = pd_sequence (sy_producer s) + int n - 1 \<and> u \<le> c)"
  using next_sequences_cases [OF gate_facts(1) [OF assms(1,2)] assms(3,4) gate_facts(2-5) [OF assms(1,2)], of pid now]
proof (elim disjE conjE exE)
  let ?p = "sy_producer s"
  assume "pd_sequence ?p + int n - 1 \<le> pd_clear ?p"
    "next_sequences (sy_world s) pid now n ?p = Some (Inr (pd_sequence ?p + int n - 1), ?p)"
  then show ?thesis
    using assms(5,6) gate_facts [OF assms(1,2)]
    by (intro exI [of _ "pd_barrier ?p"] exI [of _ "pd_clear ?p"]) (auto simp: reader_ok_def Let_def)
next
  let ?p = "sy_producer s"
  fix m b
  assume gate: "get_min_consumer_sequence (sy_world s) pid now (pd_barrier ?p) = (m, b)"
    and grant: "if pd_sequence ?p + int n - 1 \<le> m + ring_capacity ?p
              then next_sequences (sy_world s) pid now n ?p
                     = Some (Inr (pd_sequence ?p + int n - 1),
                             ?p\<lparr>pd_barrier := b, pd_clear := m + ring_capacity ?p\<rparr>)
              else next_sequences (sy_world s) pid now n ?p
                     = Some (Inl (MissingFreeSlots (i64_as_u64
                               (pd_sequence ?p + int n - 1 - (m + ring_capacity ?p)))),
                             ?p\<lparr>pd_barrier := b\<rparr>)"
    and clear: "pd_clear ?p < pd_sequence ?p + int n - 1"
  have b: "barrier_ok (sy_world s) b" "cb_mode b \<noteq> Disabled"
    using gating_minimum [OF gate_facts(2,3) [OF assms(1,2)] gate]
      gate_keeps_mode [OF gate_facts(2) [OF assms(1,2)] gate] gate_facts(3) [OF assms(1,2)] by simp_all
  show ?thesis
  proof (cases "pd_sequence ?p + int n - 1 \<le> m + ring_capacity ?p")
    case True
    then have eq: "res = Inr (pd_sequence ?p + int n - 1)"
        "p1 = ?p\<lparr>pd_barrier := b, pd_clear := m + ring_capacity ?p\<rparr>"
      using grant assms(6) by simp_all
    then have "\<forall>r \<in> set (sy_readers s). m \<le> cn_last (rd_consumer r)"
      using gate_bounds_readers [OF assms(1,2,5) gate] assms(7) by auto
    then show ?thesis
      using eq b True clear gate_facts(6) [OF assms(1,2)] by (intro exI [of _ b] exI) auto
  next
    case False
    then have "p1 = ?p\<lparr>pd_barrier := b, pd_clear := pd_clear ?p\<rparr>" "\<nexists>u. res = Inr u"
      using grant assms(6) by auto
    then show ?thesis
      using b assms(5) by (intro exI [of _ b] exI [of _ "pd_clear ?p"]) (auto simp: reader_ok_def Let_def)
  qed
qed

lemma reserve_preserves:
  assumes ok: "system_ok s" and ready: "sy_phase s = Ready"
    and n: "0 < n" "pd_sequence (sy_producer s) + int n \<le> seq_limit"
    and p1: "next_sequences (sy_world s) pid now n (sy_producer s) = Some (Inr u, p1)"
    and t: "t = s\<lparr>sy_producer := p1, sy_phase := Filling (pd_sequence (sy_producer s)) u\<rparr>"
    and cover: "covered t"
  shows "system_ok t"
proof -
  have w: "writer_ok s" and readers: "\<forall>r \<in> set (sy_readers s). reader_ok s r"
    and rest: "window_ok s" "cells_ok s"
    using ok by (simp_all add: system_ok_def)
  obtain b c where b: "p1 = (sy_producer s)\<lparr>pd_barrier := b, pd_clear := c\<rparr>"
    "barrier_ok (sy_world s) b" "cb_mode b \<noteq> Disabled" "pd_clear (sy_producer s) \<le> c"
    and c: "\<forall>r \<in> set (sy_readers s). c \<le> cn_last (rd_consumer r) + int (capacity s)"
    and u: "u = pd_sequence (sy_producer s) + int n - 1" "u \<le> c"
    using reservation_outcome [OF w ready n readers p1] cover
    by (auto simp: covered_def t reader_handles_def)
  have "reader_ok t r" if "r \<in> set (sy_readers s)" for r
    by (rule reader_ok_frame [of s])
      (use that readers w c b in \<open>auto simp: t published_def sy_world_def\<close>)
  moreover have "writer_ok t"
    using w ready b u n
    by (auto simp: t writer_ok_def Let_def published_def sy_world_def capacity_def producer_in_range_def
        ring_capacity_def sequences_in_range_def)
  moreover have "window_ok t" "cells_ok t"
    using rest b(1) by (simp_all add: t window_ok_def cells_ok_def capacity_def reader_handles_def)
  ultimately show ?thesis by (simp add: system_ok_def t)
qed

lemma refuse_preserves:
  assumes ok: "system_ok s" and ready: "sy_phase s = Ready"
    and n: "0 < n" "pd_sequence (sy_producer s) + int n \<le> seq_limit"
    and p1: "next_sequences (sy_world s) pid now n (sy_producer s) = Some (Inl e, p1)"
    and t: "t = s\<lparr>sy_producer := p1\<rparr>"
  shows "system_ok t"
proof -
  have w: "writer_ok s" and readers: "\<forall>r \<in> set (sy_readers s). reader_ok s r"
    and rest: "window_ok s" "cells_ok s"
    using ok by (simp_all add: system_ok_def)
  obtain b c where b: "p1 = (sy_producer s)\<lparr>pd_barrier := b, pd_clear := c\<rparr>"
    "barrier_ok (sy_world s) b" "cb_mode b \<noteq> Disabled" "pd_clear (sy_producer s) \<le> c"
    and c: "\<forall>r \<in> set (sy_readers s). c \<le> cn_last (rd_consumer r) + int (capacity s)"
    using reservation_outcome [OF w ready n readers p1] by auto
  have "reader_ok t r" if "r \<in> set (sy_readers s)" for r
    by (rule reader_ok_frame [of s])
      (use that readers w c b in \<open>auto simp: t published_def sy_world_def\<close>)
  moreover have "writer_ok t"
    using w ready b
    by (auto simp: t writer_ok_def Let_def published_def sy_world_def capacity_def producer_in_range_def
        ring_capacity_def sequences_in_range_def)
  moreover have "window_ok t" "cells_ok t"
    using rest b(1) by (simp_all add: t window_ok_def cells_ok_def capacity_def reader_handles_def)
  ultimately show ?thesis by (simp add: system_ok_def t)
qed

lemma window_distinct:
  fixes q k :: nat
  assumes "k < q" "q < k + n"
  shows "k mod n \<noteq> q mod n"
proof
  assume "k mod n = q mod n"
  then have "n dvd q - k" using assms(1) by (metis mod_eq_dvd_iff_nat less_imp_le)
  then show False using assms by (auto dest: dvd_imp_le)
qed

lemma fill_preserves:
  assumes ok: "system_ok s" and phase: "sy_phase s = Filling q u" "q \<le> u"
    and upd: "update_event (pd_ring (sy_producer s)) q f (sh_slots (sy_shared s)) = Some slots"
    and e: "read_slot (pd_ring (sy_producer s)) slots q = Some e"
    and t: "t = s\<lparr>sy_shared := (sy_shared s)\<lparr>sh_slots := slots\<rparr>, sy_phase := Filling (q + 1) u,
                 sy_hist := sy_hist s @ [e]\<rparr>"
  shows "system_ok t"
proof -
  have w: "writer_ok s" and readers: "\<forall>r \<in> set (sy_readers s). reader_ok s r"
    and window: "window_ok s" and cells: "cells_ok s"
    using ok by (simp_all add: system_ok_def)
  have q: "0 \<le> q" "q \<le> seq_limit" "int (length (sy_hist s)) = q"
    using w phase writer_okD(6) [OF w] by (auto simp: writer_ok_def Let_def)
  let ?i = "nat q mod capacity s"
  have len: "length (sh_slots (sy_shared s)) = capacity s" "?i < capacity s"
    using writer_okD(2,4) [OF w] by simp_all
  have slots: "slots = (sh_slots (sy_shared s))[?i := f (sh_slots (sy_shared s) ! ?i)]"
    using upd system_slot [OF w q(1,2)] by (auto simp: update_event_def)
  have "slot_of (pd_ring (sy_producer s)) slots q = Some ?i"
    using slot_of_value [OF writer_okD(3) [OF w] q(1,2), of slots] len slots by (simp add: capacity_def)
  then have e_eq: "slots ! ?i = e" using e by (simp add: read_slot_def)
  have nat_q: "nat q = length (sy_hist s)" using q(3) by linarith
  have "window_ok t"
    unfolding window_ok_def
  proof (intro allI impI)
    fix k assume k: "k < length (sy_hist t)" "length (sy_hist t) \<le> k + capacity t"
    have cap: "capacity t = capacity s" by (simp add: t capacity_def)
    show "sh_slots (sy_shared t) ! (k mod capacity t) = sy_hist t ! k"
    proof (cases "k = length (sy_hist s)")
      case True
      then show ?thesis using e_eq nat_q by (simp add: t cap[unfolded t])
    next
      case False
      then have "k < length (sy_hist s)" "length (sy_hist s) < k + capacity s"
        using k by (simp_all add: t capacity_def)
      moreover from this have "k mod capacity s \<noteq> ?i" using window_distinct nat_q by metis
      ultimately show ?thesis
        using window slots cap by (simp add: t window_ok_def nth_append)
    qed
  qed
  moreover have "writer_ok t"
    using w phase slots
    by (auto simp: t writer_ok_def Let_def published_def sy_world_def capacity_def)
  moreover have "reader_ok t r" if "r \<in> set (sy_readers s)" for r
    by (rule reader_ok_frame [of s])
      (use that readers w in \<open>auto simp: t published_def sy_world_def reader_ok_def Let_def\<close>)
  moreover have "cells_ok t" using cells by (simp add: t cells_ok_def reader_handles_def)
  ultimately show ?thesis by (simp add: system_ok_def t)
qed

lemma reader_cell_distinct:
  assumes "cells_ok s" "r \<in> set (sy_readers s)"
  shows "snd (cn_cursor (rd_consumer r)) \<noteq> snd (pd_cursor (sy_producer s))"
proof
  assume eq: "snd (cn_cursor (rd_consumer r)) = snd (pd_cursor (sy_producer s))"
  have "snd (cn_cursor (rd_consumer r)) \<in> set (map snd (reader_handles s))"
    using assms(2) by (simp add: reader_handles_def image_image)
  then show False using assms(1) unfolding eq by (simp only: cells_ok_def distinct.simps simp_thms)
qed

lemma commit_preserves:
  assumes ok: "system_ok s" and phase: "sy_phase s = Filling (u + 1) u"
    and t: "t = s\<lparr>sy_shared := shared_store (pd_cursor (sy_producer s)) u (sy_shared s),
                 sy_producer := (sy_producer s)\<lparr>pd_sequence := u + 1\<rparr>, sy_phase := Ready\<rparr>"
  shows "system_ok t"
proof -
  have w: "writer_ok s" and readers: "\<forall>r \<in> set (sy_readers s). reader_ok s r"
    and rest: "window_ok s" "cells_ok s"
    using ok by (simp_all add: system_ok_def)
  have u: "pd_sequence (sy_producer s) \<le> u" "u + 1 \<le> seq_limit" "u \<le> pd_clear (sy_producer s)"
    "int (length (sy_hist s)) = u + 1"
    using w phase by (auto simp: writer_ok_def Let_def)
  have world: "sy_world t = store (sy_world s) (pd_cursor (sy_producer s)) u"
    by (simp add: t sy_world_def shared_store_def)
  have pub: "published t = u" "published s < u"
    using world writer_okD(5) [OF w] u by (simp_all add: published_def t)
  have "reader_ok t r" if r: "r \<in> set (sy_readers s)" for r
    by (rule reader_ok_frame [of s])
      (use r readers w pub world reader_cell_distinct [OF rest(2) r]
       in \<open>auto simp: t reader_ok_def Let_def\<close>)
  moreover have "sequences_in_range (sy_world t) (pd_barrier (sy_producer t))"
    using w u world by (simp add: t writer_ok_def Let_def sequences_in_range_store)
  then have "writer_ok t"
    using w phase u pub world writer_okD(6) [OF w]
    by (simp add: t writer_ok_def Let_def shared_store_def capacity_def producer_in_range_def ring_capacity_def)
  moreover have "window_ok t" "cells_ok t"
    using rest by (simp_all add: t window_ok_def cells_ok_def capacity_def reader_handles_def shared_store_def)
  ultimately show ?thesis by (simp add: system_ok_def t)
qed

lemma writer_ok_frame:
  assumes "writer_ok s" "sy_producer t = sy_producer s" "sy_phase t = sy_phase s" "sy_hist t = sy_hist s"
    and "length (sh_slots (sy_shared t)) = length (sh_slots (sy_shared s))" "published t = published s"
    and "barrier_ok (sy_world t) (pd_barrier (sy_producer s))"
    and "sequences_in_range (sy_world t) (pd_barrier (sy_producer s))"
  shows "writer_ok t"
  using assms(1) unfolding writer_ok_def Let_def capacity_def assms(2-6)
  using assms(7,8) by (elim conjE) (intro conjI)

text \<open>Steps of one reader: the others and the producer see at most a new value of its cursor.\<close>

lemma reader_update_preserves:
  assumes ok: "system_ok s" and i: "i < length (sy_readers s)" "r = sy_readers s ! i"
    and t: "t = s\<lparr>sy_shared := (sy_shared s)\<lparr>sh_world := w'\<rparr>, sy_readers := (sy_readers s)[i := r']\<rparr>"
    and w': "w' = sy_world s \<or> (\<exists>v \<le> seq_limit. w' = store (sy_world s) (cn_cursor (rd_consumer r)) v)"
    and same: "cn_cursor (rd_consumer r') = cn_cursor (rd_consumer r)"
    and r': "reader_ok t r'"
  shows "system_ok t"
proof -
  have w: "writer_ok s" and readers: "\<forall>r \<in> set (sy_readers s). reader_ok s r"
    and rest: "window_ok s" "cells_ok s"
    using ok by (simp_all add: system_ok_def)
  have r: "r \<in> set (sy_readers s)" using i by simp
  have world: "sy_world t = w'" by (simp add: t sy_world_def)
  have pub: "published t = published s"
    using w' reader_cell_distinct [OF rest(2) r] world by (auto simp: published_def t)
  have names: "barrier_ok w' b = barrier_ok (sy_world s) b" for b using w' by auto
  have range: "sequences_in_range w' (pd_barrier (sy_producer s))"
    using w w' by (auto simp: writer_ok_def Let_def sequences_in_range_store)
  have "writer_ok t"
    by (rule writer_ok_frame [OF w])
      (use w world pub names range in \<open>simp_all add: t writer_ok_def Let_def\<close>)
  moreover have "window_ok t" using rest by (simp add: t window_ok_def capacity_def)
  moreover have "reader_handles t = reader_handles s"
    using i same by (auto simp: t reader_handles_def list_eq_iff_nth_eq nth_list_update)
  then have "cells_ok t" using rest by (simp add: cells_ok_def t)
  moreover have "reader_ok t x" if x: "x \<in> set (sy_readers t)" for x
  proof -
    obtain j where j: "j < length (sy_readers s)" "x = (if j = i then r' else sy_readers s ! j)"
      using x i(1) by (auto simp: t in_set_conv_nth nth_list_update)
    show ?thesis
    proof (cases "j = i")
      case True
      then show ?thesis using j r' by simp
    next
      case False
      then have x_eq: "x = sy_readers s ! j" "x \<in> set (sy_readers s)" using j by simp_all
      have "distinct (map snd (reader_handles s))" using rest(2) by (simp add: cells_ok_def)
      then have "map snd (reader_handles s) ! j \<noteq> map snd (reader_handles s) ! i"
        using False j(1) i(1) nth_eq_iff_index_eq [of "map snd (reader_handles s)" j i]
        by (simp add: reader_handles_def)
      then have "snd (cn_cursor (rd_consumer x)) \<noteq> snd (cn_cursor (rd_consumer r))"
        using j(1) i x_eq(1) by (simp add: reader_handles_def)
      then have "load w' (cn_cursor (rd_consumer x)) = load (sy_world s) (cn_cursor (rd_consumer x))"
        using w' by auto
      moreover have "reader_ok s x" using readers x_eq(2) by blast
      moreover from this have "pd_clear (sy_producer s) \<le> cn_last (rd_consumer x) + int (capacity s)"
        by (simp add: reader_ok_def Let_def)
      ultimately show ?thesis
        using reader_ok_frame [of s x t] w pub world by (simp add: t)
    qed
  qed
  ultimately show ?thesis by (simp add: system_ok_def)
qed

text \<open>The step that reads takes the published event, which the producer cannot have overwritten:
  the reader's own cursor is still behind it.\<close>

lemma slot_holds_event:
  assumes ok: "system_ok s" and r: "r \<in> set (sy_readers s)"
    and q: "cn_last (rd_consumer r) < q" "q \<le> published s"
  shows "read_slot (cn_ring (rd_consumer r)) (sh_slots (sy_shared s)) q = Some (sy_hist s ! nat q)
         \<and> nat q < length (sy_hist s)"
proof -
  have w: "writer_ok s" and reader: "reader_ok s r" and window: "window_ok s"
    using ok r by (simp_all add: system_ok_def)
  have last: "-1 \<le> cn_last (rd_consumer r)" "same_slots (cn_ring (rd_consumer r)) (pd_ring (sy_producer s))"
    "pd_clear (sy_producer s) \<le> cn_last (rd_consumer r) + int (capacity s)"
    using reader by (simp_all add: reader_ok_def Let_def)
  note facts = writer_okD [OF w]
  have range: "0 \<le> q" "q \<le> seq_limit" "nat q < length (sy_hist s)" "length (sy_hist s) \<le> nat q + capacity s"
    using facts last q by linarith+
  have "nat q mod capacity s < length (sh_slots (sy_shared s))" using facts(2,4) by simp
  moreover have "sh_slots (sy_shared s) ! (nat q mod capacity s) = sy_hist s ! nat q"
    using window range by (simp add: window_ok_def)
  ultimately show ?thesis
    using system_slot [OF w range(1,2)] last range
    by (simp add: read_slot_def same_slots_of [OF last(2)])
qed

lemma acquire_preserves:
  assumes ok: "system_ok s" and i: "i < length (sy_readers s)" "r = sy_readers s ! i"
    and phase: "rd_phase r = Idle"
    and bounds: "available_batch_bounds (rd_consumer r) (sy_world s) = Some (Some (lower, upper))"
    and t: "t = s\<lparr>sy_readers := (sy_readers s)[i := r\<lparr>rd_phase := Batch lower upper\<rparr>]\<rparr>"
  shows "system_ok t"
proof (rule reader_update_preserves [OF ok i])
  show "t = s\<lparr>sy_shared := (sy_shared s)\<lparr>sh_world := sy_world s\<rparr>,
              sy_readers := (sy_readers s)[i := r\<lparr>rd_phase := Batch lower upper\<rparr>]\<rparr>"
    by (simp add: t sy_world_def)
  have reader: "reader_ok s r" and w: "writer_ok s" using ok i by (simp_all add: system_ok_def)
  have "cn_producer (rd_consumer r) = pd_cursor (sy_producer s)" "-1 \<le> cn_last (rd_consumer r)"
    "cn_last (rd_consumer r) \<le> published s"
    using reader by (simp_all add: reader_ok_def Let_def)
  moreover have "cn_last (rd_consumer r) \<le> seq_limit"
    using calculation writer_okD [OF w] by linarith
  then have "wrap_i64 (cn_last (rd_consumer r) + 1) = cn_last (rd_consumer r) + 1"
    using calculation by (intro wrap_i64_id) (simp add: seq_limit_def i64_simps)
  ultimately have "lower = cn_last (rd_consumer r) + 1" "upper = published s" "lower \<le> upper"
    using bounds by (auto simp: available_batch_bounds_def Let_def published_def split: if_splits)
  then show "reader_ok t (r\<lparr>rd_phase := Batch lower upper\<rparr>)"
    using reader phase
    by (simp add: t reader_ok_def Let_def read_position_def published_def sy_world_def capacity_def)
qed simp_all

lemma take_preserves:
  assumes ok: "system_ok s" and i: "i < length (sy_readers s)" "r = sy_readers s ! i"
    and phase: "rd_phase r = Batch q upper" "q \<le> upper"
    and e: "read_slot (cn_ring (rd_consumer r)) (sh_slots (sy_shared s)) q = Some e"
    and t: "t = s\<lparr>sy_readers := (sy_readers s)[i :=
              r\<lparr>rd_phase := Batch (q + 1) upper, rd_seen := rd_seen r @ [(q, e)]\<rparr>]\<rparr>"
  shows "system_ok t"
proof (rule reader_update_preserves [OF ok i])
  let ?r = "r\<lparr>rd_phase := Batch (q + 1) upper, rd_seen := rd_seen r @ [(q, e)]\<rparr>"
  show "t = s\<lparr>sy_shared := (sy_shared s)\<lparr>sh_world := sy_world s\<rparr>, sy_readers := (sy_readers s)[i := ?r]\<rparr>"
    by (simp add: t sy_world_def)
  have reader: "reader_ok s r" and mem: "r \<in> set (sy_readers s)" using ok i by (simp_all add: system_ok_def)
  have q: "cn_last (rd_consumer r) < q" "q \<le> published s" "0 \<le> rd_start r" "rd_start r \<le> q"
    "rd_seen r = events (sy_hist s) (rd_start r) q"
    using reader phase by (auto simp: reader_ok_def Let_def read_position_def)
  note held = slot_holds_event [OF ok mem q(1,2)]
  then have "rd_seen ?r = events (sy_hist s) (rd_start r) (q + 1)"
    using e q events_append [of "rd_start r" q "sy_hist s"] by simp
  then show "reader_ok t ?r"
    using reader phase
    by (simp add: t reader_ok_def Let_def read_position_def published_def sy_world_def capacity_def)
qed simp_all

lemma finish_preserves:
  assumes ok: "system_ok s" and i: "i < length (sy_readers s)" "r = sy_readers s ! i"
    and phase: "rd_phase r = Batch q upper" "cn_last (rd_consumer r) + 1 < q"
    and pub: "publish_consumed_sequence (q - 1) (rd_consumer r) (sy_shared s) = (c1, sh1)"
    and t: "t = s\<lparr>sy_shared := sh1, sy_readers := (sy_readers s)[i := r\<lparr>rd_consumer := c1, rd_phase := Idle\<rparr>]\<rparr>"
  shows "system_ok t"
proof (rule reader_update_preserves [OF ok i])
  let ?r = "r\<lparr>rd_consumer := c1, rd_phase := Idle\<rparr>"
  let ?w = "store (sy_world s) (cn_cursor (rd_consumer r)) (q - 1)"
  have new: "c1 = (rd_consumer r)\<lparr>cn_last := q - 1\<rparr>" "sh1 = (sy_shared s)\<lparr>sh_world := ?w\<rparr>"
    using pub by (auto simp: publish_consumed_sequence_def shared_store_def sy_world_def)
  then show "t = s\<lparr>sy_shared := (sy_shared s)\<lparr>sh_world := ?w\<rparr>, sy_readers := (sy_readers s)[i := ?r]\<rparr>"
    by (simp add: t)
  have reader: "reader_ok s r" and mem: "r \<in> set (sy_readers s)" and w: "writer_ok s" and "cells_ok s"
    using ok i by (simp_all add: system_ok_def)
  then have apart: "snd (cn_cursor (rd_consumer r)) \<noteq> snd (pd_cursor (sy_producer s))"
    using reader_cell_distinct by blast
  have q: "q - 1 \<le> published s" using reader phase by (auto simp: reader_ok_def Let_def)
  then have "q - 1 \<le> seq_limit" using writer_okD [OF w] by linarith
  then show "?w = sy_world s \<or> (\<exists>v \<le> seq_limit. ?w = store (sy_world s) (cn_cursor (rd_consumer r)) v)"
    by blast
  show "cn_cursor (rd_consumer ?r) = cn_cursor (rd_consumer r)" by (simp add: new)
  have "published t = published s" using apart by (simp add: published_def t new sy_world_def)
  moreover have "load (sy_world t) (cn_cursor c1) = q - 1" by (simp add: t new sy_world_def)
  moreover have "capacity t = capacity s" by (simp add: t capacity_def)
  ultimately show "reader_ok t ?r"
    using reader phase q by (simp add: t new(1) reader_ok_def Let_def read_position_def)
qed

lemma count_preserves:
  assumes "system_ok s"
  shows "system_ok (s\<lparr>sy_shared := (sy_shared s)\<lparr>sh_counters := f\<rparr>\<rparr>)" (is "system_ok ?t")
proof -
  have w: "writer_ok s" and rest: "window_ok s" "cells_ok s" "\<forall>r \<in> set (sy_readers s). reader_ok s r"
    using assms by (simp_all add: system_ok_def)
  have "writer_ok ?t"
    by (rule writer_ok_frame [OF w])
      (use w in \<open>simp_all add: writer_ok_def Let_def published_def sy_world_def\<close>)
  moreover have "window_ok ?t" "cells_ok ?t"
    using rest by (simp_all add: window_ok_def capacity_def cells_ok_def reader_handles_def)
  moreover have "reader_ok ?t r" if "r \<in> set (sy_readers s)" for r
    by (rule reader_ok_frame [OF _ w])
      (use that rest in \<open>auto simp: published_def sy_world_def reader_ok_def Let_def\<close>)
  ultimately show ?thesis by (simp add: system_ok_def)
qed

lemma step_preserves:
  assumes "step pid s t" "system_ok s" "covered t"
  shows "system_ok t"
  using assms(1)
proof cases
  case (reserve n now u p1)
  show ?thesis by (rule reserve_preserves [OF assms(2) reserve(2-5,1) assms(3)])
next
  case (refuse n now e p1)
  show ?thesis by (rule refuse_preserves [OF assms(2) refuse(2-5,1)])
next
  case (fill q u f slots e)
  show ?thesis by (rule fill_preserves [OF assms(2) fill(2-5,1)])
next
  case (commit u)
  show ?thesis by (rule commit_preserves [OF assms(2) commit(2,1)])
next
  case (acquire i r lower upper)
  show ?thesis by (rule acquire_preserves [OF assms(2) acquire(2-5,1)])
next
  case (take_event i r q upper e)
  show ?thesis by (rule take_preserves [OF assms(2) take_event(2-6,1)])
next
  case (finish i r q upper c1 sh1)
  show ?thesis by (rule finish_preserves [OF assms(2) finish(2-6,1)])
next
  case (count f)
  show ?thesis unfolding count(1) by (rule count_preserves [OF assms(2)])
qed

lemma covered_run_preserves:
  "covered_run pid s t \<Longrightarrow> system_ok s \<Longrightarrow> system_ok t \<and> covered t"
  by (induction rule: covered_run.induct) (auto intro: step_preserves)


section \<open>Safety\<close>

inductive run :: "nat \<Rightarrow> 'e system \<Rightarrow> 'e system \<Rightarrow> bool" for pid :: nat where
  run_refl: "run pid s s"
| run_step: "run pid s t \<Longrightarrow> step pid t t' \<Longrightarrow> run pid s t'"

lemma run_trans: "run pid s t \<Longrightarrow> run pid t u \<Longrightarrow> run pid s u"
  by (rotate_tac, induction rule: run.induct) (auto intro: run.intros)

lemma step_run: "step pid s t \<Longrightarrow> run pid s t"
  by (rule run_step [OF run_refl])

inductive_cases stepE: "step pid s t"

text \<open>A system before its first event: nothing written, every reader at the start of the
  stream, and (in \<open>writer_ok\<close>) a barrier whose discovery mode is not \<open>Disabled\<close>.\<close>

definition fresh :: "'e system \<Rightarrow> bool" where
  "fresh s \<longleftrightarrow>
     sy_phase s = Ready \<and> sy_hist s = [] \<and> writer_ok s \<and> cells_ok s
     \<and> pd_clear (sy_producer s) = int (capacity s) - 1
     \<and> (\<forall>r \<in> set (sy_readers s).
          same_slots (cn_ring (rd_consumer r)) (pd_ring (sy_producer s)) \<and> cn_producer (rd_consumer r) = pd_cursor (sy_producer s)
          \<and> cn_last (rd_consumer r) = -1 \<and> load (sy_world s) (cn_cursor (rd_consumer r)) = -1
          \<and> rd_phase r = Idle \<and> rd_start r = 0 \<and> rd_seen r = [])"

lemma fresh_ok: "fresh s \<Longrightarrow> system_ok s"
proof -
  assume f: "fresh s"
  then have w: "writer_ok s" by (simp add: fresh_def)
  have "reader_ok s r" if "r \<in> set (sy_readers s)" for r
    using f that writer_okD(5,6) [OF w]
    by (auto simp: fresh_def reader_ok_def Let_def read_position_def events_def)
  then show ?thesis using f by (simp add: fresh_def system_ok_def window_ok_def)
qed

text \<open>Discovery only adds cursors, and finds only cursors that can be attached.\<close>

lemma step_tracked:
  assumes "step pid s t" "system_ok s"
  shows "tracked_handles (pd_barrier (sy_producer s)) \<subseteq> tracked_handles (pd_barrier (sy_producer t))"
    and "reader_handles t = reader_handles s"
    and "w_names (sy_world t) = w_names (sy_world s)"
    and "cb_base_name (pd_barrier (sy_producer t)) = cb_base_name (pd_barrier (sy_producer s))"
proof -
  have w: "writer_ok s" using assms(2) by (simp add: system_ok_def)
  have res: "tracked_handles (pd_barrier (sy_producer s)) \<subseteq> tracked_handles (pd_barrier p1)
      \<and> cb_base_name (pd_barrier p1) = cb_base_name (pd_barrier (sy_producer s))"
    if "sy_phase s = Ready" "0 < n" "pd_sequence (sy_producer s) + int n \<le> seq_limit"
      "next_sequences (sy_world s) pid now n (sy_producer s) = Some (res, p1)" for now n p1 res
  proof -
    note facts = gate_facts [OF w that(1)]
    obtain m b where gate: "get_min_consumer_sequence (sy_world s) pid now (pd_barrier (sy_producer s)) = (m, b)"
      by fastforce
    have "b = refresh_discovery (sy_world s) pid now (pd_barrier (sy_producer s))"
      using gate by (auto simp: get_min_refresh Let_def)
    then have "set (cb_cursors (pd_barrier (sy_producer s))) \<subseteq> set (cb_cursors b)"
      and base: "cb_base_name b = cb_base_name (pd_barrier (sy_producer s))"
      using refresh_discovery_ok [OF facts(2), of pid now] by (auto simp: extends_def)
    then have "tracked_handles (pd_barrier (sy_producer s)) \<subseteq> tracked_handles b"
      unfolding tracked_handles_def by blast
    then show ?thesis
      using base next_sequences_cases [OF facts(1) that(2,3) facts(2-5), of pid now] gate that(4)
      by (auto split: if_splits)
  qed
  show "tracked_handles (pd_barrier (sy_producer s)) \<subseteq> tracked_handles (pd_barrier (sy_producer t))"
    "cb_base_name (pd_barrier (sy_producer t)) = cb_base_name (pd_barrier (sy_producer s))"
    using assms(1) res by (cases; auto)+
  show "reader_handles t = reader_handles s"
    using assms(1)
    by cases (auto simp: reader_handles_def list_eq_iff_nth_eq nth_list_update publish_consumed_sequence_def)
  show "w_names (sy_world t) = w_names (sy_world s)"
    using assms(1)
    by cases (auto simp: sy_world_def shared_store_def store_def publish_consumed_sequence_def)
qed

definition all_tracked :: "'e system \<Rightarrow> bool" where
  "all_tracked s \<longleftrightarrow> set (reader_handles s) \<subseteq> tracked_handles (pd_barrier (sy_producer s))"

lemma tracked_run_ok:
  assumes "run pid s t" "system_ok s" "all_tracked s"
  shows "system_ok t \<and> all_tracked t"
  using assms
proof (induction rule: run.induct)
  case (run_step s t t')
  then have "all_tracked t'" using step_tracked(1,2) by (fastforce simp: all_tracked_def)
  moreover from this have "covered t'" by (simp add: all_tracked_def covered_def)
  ultimately show ?case using run_step step_preserves by blast
qed simp

text \<open>The sequence cursors of this ring that a producer could ever find are the one reader's.\<close>

definition sole_reader :: "'e system \<Rightarrow> bool" where
  "sole_reader s \<longleftrightarrow>
     (\<exists>h. set (reader_handles s) \<subseteq> {h}
        \<and> (\<forall>consumer k. attach (sy_world s) (sequence_name (cb_base_name (pd_barrier (sy_producer s))) consumer)
              = Some k \<longrightarrow> k = h))"

lemma sole_reader_covered:
  assumes "sole_reader s" "barrier_ok (sy_world s) (pd_barrier (sy_producer s))"
  shows "covered s"
proof -
  obtain h where h: "set (reader_handles s) \<subseteq> {h}"
    "\<forall>consumer k. attach (sy_world s) (sequence_name (cb_base_name (pd_barrier (sy_producer s))) consumer)
              = Some k \<longrightarrow> k = h"
    using assms(1) by (auto simp: sole_reader_def)
  then have "tracked_handles (pd_barrier (sy_producer s)) \<subseteq> {h}"
    using assms(2) by (fastforce simp: barrier_ok_def tracked_handles_def)
  then show ?thesis using h(1) by (auto simp: covered_def)
qed

lemma step_barrier_ok:
  assumes "step pid s t" "system_ok s"
  shows "barrier_ok (sy_world t) (pd_barrier (sy_producer t))"
proof -
  have w: "writer_ok s" using assms(2) by (simp add: system_ok_def)
  have b: "barrier_ok (sy_world s) (pd_barrier (sy_producer s))" using w by (simp add: writer_ok_def Let_def)
  have res: "barrier_ok (sy_world s) (pd_barrier p1)"
    if "sy_phase s = Ready" "0 < n" "pd_sequence (sy_producer s) + int n \<le> seq_limit"
      "next_sequences (sy_world s) pid now n (sy_producer s) = Some (res, p1)" for now n p1 res
  proof -
    note facts = gate_facts [OF w that(1)]
    obtain m b where gate: "get_min_consumer_sequence (sy_world s) pid now (pd_barrier (sy_producer s)) = (m, b)"
      by fastforce
    then have "barrier_ok (sy_world s) b" using gating_minimum [OF facts(2,3)] by blast
    then show ?thesis
      using next_sequences_cases [OF facts(1) that(2,3) facts(2-5), of pid now] gate that(4) b
      by (auto split: if_splits)
  qed
  have "barrier_ok (sy_world s) (pd_barrier (sy_producer t))" using assms(1) b res by cases auto
  then show ?thesis using step_tracked(3) [OF assms] by (simp add: barrier_ok_def attach_def)
qed

lemma sole_run_ok:
  assumes "run pid s t" "system_ok s" "sole_reader s"
  shows "system_ok t \<and> sole_reader t"
  using assms
proof (induction rule: run.induct)
  case (run_step s t t')
  then have ok: "system_ok t" "sole_reader t" by simp_all
  note kept = step_tracked [OF run_step.hyps(2) ok(1)]
  have "sole_reader t'"
    using ok(2) kept(2-4) by (simp add: sole_reader_def attach_def)
  moreover from this have "covered t'"
    using sole_reader_covered step_barrier_ok [OF run_step.hyps(2) ok(1)] by blast
  ultimately show ?case using step_preserves [OF run_step.hyps(2) ok(1)] by simp
qed simp

text \<open>What a reader of a safe system has been given: exactly the written events from where it
  started up to where it is, each under its own sequence number, once and in order.\<close>

definition delivers_history :: "'e system \<Rightarrow> bool" where
  "delivers_history s \<longleftrightarrow>
     (\<forall>r \<in> set (sy_readers s).
        rd_seen r = events (sy_hist s) (rd_start r) (read_position r)
        \<and> rd_start r \<le> read_position r \<and> read_position r \<le> published s + 1
        \<and> published s < int (length (sy_hist s)))"

lemma system_ok_delivers: "system_ok s \<Longrightarrow> delivers_history s"
proof -
  assume ok: "system_ok s"
  then have "published s < int (length (sy_hist s))"
    using writer_okD(5,7) [of s] by (simp add: system_ok_def)
  then show ?thesis
    using ok by (auto simp: system_ok_def delivers_history_def reader_ok_def Let_def read_position_def
        split: reader_phase.splits)
qed

text \<open>C1. The ring delivers the history. The producer's discovery mode is not \<open>Disabled\<close> (with it, and
  nobody tracked, the source gates on the producer's own cursor and laps its readers). However the steps of the producer and of
  the consumers interleave, as long as in every state of the run the producer's barrier tracks either no consumer or all of them, every consumer has
  been given exactly the published events, in order, without a gap, a duplicate or an event
  that a later one has overwritten.\<close>

theorem ring_delivers_history:
  assumes "fresh s" "cb_mode (pd_barrier (sy_producer s)) \<noteq> Disabled" "covered_run pid s t"
  shows "delivers_history t"
  using covered_run_preserves [OF assms(3) fresh_ok [OF assms(1)]] system_ok_delivers by blast

text \<open>C2. Consumers known from the start. When the barrier tracks every consumer before the first event, the condition on
  coverage is not needed: discovery never forgets a cursor, so every interleaving is safe.\<close>

theorem tracked_readers_safe:
  assumes "fresh s" "all_tracked s" "run pid s t"
  shows "delivers_history t"
  using tracked_run_ok [OF assms(3) fresh_ok [OF assms(1)] assms(2)] system_ok_delivers by blast

text \<open>One producer, one consumer. With a single consumer cursor to be found the ring is safe whether or not the
  producer has discovered it yet, for every interleaving: until then it gates on -1 and
  publishes at most one ring of events.\<close>

theorem single_consumer_safe:
  assumes "fresh s" "sole_reader s" "run pid s t"
  shows "delivers_history t"
  using sole_run_ok [OF assms(3) fresh_ok [OF assms(1)] assms(2)] system_ok_delivers by blast


section \<open>The operations are runs of the protocol\<close>

text \<open>The model's operations, run to completion, are sequences of steps; so what holds of every
  interleaving of steps holds of every interleaving of the operations' atomic accesses.\<close>

lemma count_run: "run pid s (s\<lparr>sy_shared := (sy_shared s)\<lparr>sh_counters := f\<rparr>\<rparr>)"
  by (rule step_run [OF count])

lemma update_event_read:
  "update_event r q f slots = Some slots' \<Longrightarrow> read_slot r slots' q = map_option f (read_slot r slots q)"
  "update_event r q f slots = Some slots' \<Longrightarrow> read_slot r slots' q \<noteq> None"
  by (auto simp: update_event_def read_slot_def slot_of_def split: option.splits if_splits)

text \<open>The writes of a batch: what the closure makes of the slot each write finds, which is what was
  there before the batch or, a ring further on, what the batch itself wrote.\<close>

definition batch_written :: "nat \<Rightarrow> nat \<Rightarrow> ('e \<Rightarrow> nat \<Rightarrow> 'e) \<Rightarrow> 'e list \<Rightarrow> 'e list \<Rightarrow> 'e list \<Rightarrow> bool" where
  "batch_written cap q f slots slots' es \<longleftrightarrow>
     length slots' = cap
     \<and> (\<forall>k < length es. es ! k = f (if k < cap then slots ! ((q + k) mod cap) else es ! (k - cap)) k)
     \<and> (\<forall>k < length es. length es \<le> k + cap \<longrightarrow> slots' ! ((q + k) mod cap) = es ! k)
     \<and> (\<forall>k. length es \<le> k \<and> k < cap \<longrightarrow> slots' ! ((q + k) mod cap) = slots ! ((q + k) mod cap))"

lemma batch_written_Nil: "length slots = cap \<Longrightarrow> batch_written cap q f slots slots []"
  by (simp add: batch_written_def)

lemma batch_written_snoc:
  assumes "batch_written cap q f slots slots' es" "0 < cap"
    and "e = f (slots' ! ((q + length es) mod cap)) (length es)"
  shows "batch_written cap q f slots (slots'[(q + length es) mod cap := e]) (es @ [e])"
proof -
  let ?n = "length es" and ?j = "(q + length es) mod cap"
  have other: "(q + k) mod cap \<noteq> ?j" if "k < ?n" "?n < k + cap" for k
    using window_distinct [of "q + k" "q + ?n" cap] that by simp
  have later: "(q + k) mod cap \<noteq> ?j" if "?n < k" "k < cap" for k
    using not_sym [OF window_distinct [of "q + ?n" "q + k" cap]] that by simp
  have parts: "length slots' = cap"
    "\<And>k. k < ?n \<Longrightarrow> es ! k = f (if k < cap then slots ! ((q + k) mod cap) else es ! (k - cap)) k"
    "\<And>k. k < ?n \<Longrightarrow> ?n \<le> k + cap \<Longrightarrow> slots' ! ((q + k) mod cap) = es ! k"
    "\<And>k. ?n \<le> k \<Longrightarrow> k < cap \<Longrightarrow> slots' ! ((q + k) mod cap) = slots ! ((q + k) mod cap)"
    using assms(1) unfolding batch_written_def by blast+
  have found: "slots' ! ?j = (if ?n < cap then slots ! ?j else es ! (?n - cap))"
  proof (cases "?n < cap")
    case True
    then show ?thesis using parts(4) [of ?n] by simp
  next
    case False
    then have "slots' ! ((q + (?n - cap)) mod cap) = es ! (?n - cap)"
      using assms(2) parts(3) [of "?n - cap"] by simp
    moreover have "(q + (?n - cap)) mod cap = ?j"
      using False mod_add_self2 [of "q + (?n - cap)" cap] by simp
    ultimately show ?thesis using False by simp
  qed
  have len: "?j < length slots'" using assms(2) parts(1) by simp
  show ?thesis
    unfolding batch_written_def
  proof (intro conjI allI impI)
    show "length (slots'[?j := e]) = cap" using parts(1) by simp
  next
    fix k assume k: "k < length (es @ [e])"
    show "(es @ [e]) ! k = f (if k < cap then slots ! ((q + k) mod cap) else (es @ [e]) ! (k - cap)) k"
    proof (cases "k = ?n")
      case True
      then have "(es @ [e]) ! k = e" by simp
      moreover have "(es @ [e]) ! (k - cap) = es ! (k - cap)" if "\<not> k < cap"
      proof -
        have "k - cap < ?n" using that True assms(2) by linarith
        then show ?thesis by (simp add: nth_append)
      qed
      ultimately have "e = f (if k < cap then slots ! ((q + k) mod cap) else (es @ [e]) ! (k - cap)) k"
        using True assms(3) found by (cases "k < cap") (simp_all only: if_True if_False not_False_eq_True True_implies_equals)
      with \<open>(es @ [e]) ! k = e\<close> show ?thesis by simp
    next
      case False
      then have "k < ?n" using k by simp
      moreover from this have "k - cap < ?n" by linarith
      ultimately show ?thesis using parts(2) [of k] by (simp add: nth_append)
    qed
  next
    fix k assume k: "k < length (es @ [e])" "length (es @ [e]) \<le> k + cap"
    show "slots'[?j := e] ! ((q + k) mod cap) = (es @ [e]) ! k"
    proof (cases "k = ?n")
      case True
      then show ?thesis using len by simp
    next
      case False
      then show ?thesis using parts(3) [of k] other [of k] k by (simp add: nth_append)
    qed
  next
    fix k assume k: "length (es @ [e]) \<le> k \<and> k < cap"
    then show "slots'[?j := e] ! ((q + k) mod cap) = slots ! ((q + k) mod cap)"
      using parts(4) [of k] later [of k] by simp
  qed
qed

lemma fill_run:
  assumes "sy_phase s = Filling q u" "u = q + int n - 1"
    and "ring_wf (pd_ring (sy_producer s))" "length (sh_slots (sy_shared s)) = capacity s" "0 < capacity s"
    and "0 \<le> q" "q + int n \<le> seq_limit"
    and "update_range (pd_ring (sy_producer s)) q k f (sh_slots (sy_shared s)) = Some slots" "k \<le> n"
  shows "\<exists>es. length es = k \<and> batch_written (capacity s) (nat q) f (sh_slots (sy_shared s)) slots es \<and>
     run pid s (s\<lparr>sy_shared := (sy_shared s)\<lparr>sh_slots := slots\<rparr>, sy_phase := Filling (q + int k) u,
                 sy_hist := sy_hist s @ es\<rparr>)"
  using assms(8,9)
proof (induction k arbitrary: slots)
  case 0
  have "s\<lparr>sy_shared := (sy_shared s)\<lparr>sh_slots := slots\<rparr>, sy_phase := Filling (q + int 0) u,
          sy_hist := sy_hist s @ []\<rparr> = s"
    using 0 assms(1) by simp
  then show ?case using run_refl [of pid s] 0 assms(4)
    by (intro exI [of _ "[]"]) (simp add: batch_written_Nil)
next
  case (Suc k)
  let ?ring = "pd_ring (sy_producer s)" and ?j = "(nat q + k) mod capacity s"
  obtain slots1 where slots1: "update_range ?ring q k f (sh_slots (sy_shared s)) = Some slots1"
    and upd: "update_event ?ring (q + int k) (\<lambda>e. f e k) slots1 = Some slots"
    using Suc.prems(1) by (auto split: option.splits)
  let ?t = "\<lambda>slots k es. s\<lparr>sy_shared := (sy_shared s)\<lparr>sh_slots := slots\<rparr>,
     sy_phase := Filling (q + int k) u, sy_hist := sy_hist s @ es\<rparr>"
  obtain es where es: "length es = k" "batch_written (capacity s) (nat q) f (sh_slots (sy_shared s)) slots1 es"
    "run pid s (?t slots1 k es)"
    using Suc.IH [OF slots1] Suc.prems(2) by auto
  have len: "length slots1 = capacity s" using es(2) by (simp add: batch_written_def)
  have slot: "slot_of ?ring xs (q + int k) = Some ?j" if "length xs = capacity s" for xs :: "'a list"
    using slot_of_value [OF assms(3), of "q + int k" xs] that assms(6,7) Suc.prems(2)
    by (simp add: capacity_def nat_add_distrib)
  let ?e = "f (slots1 ! ?j) k"
  have slots: "slots = slots1[?j := ?e]" using upd slot [OF len] by (simp add: update_event_def)
  then have e: "read_slot ?ring slots (q + int k) = Some ?e"
    using slot [of slots] len assms(5) by (simp add: read_slot_def)
  have "step pid (?t slots1 k es)
     ((?t slots1 k es)\<lparr>sy_shared := (sy_shared (?t slots1 k es))\<lparr>sh_slots := slots\<rparr>,
        sy_phase := Filling (q + int k + 1) u, sy_hist := sy_hist (?t slots1 k es) @ [?e]\<rparr>)"
    by (rule step.fill [where f = "\<lambda>e. f e k"]) (use assms(2) Suc.prems(2) upd e in simp_all)
  moreover have "\<dots> = ?t slots (Suc k) (es @ [?e])" by (simp add: algebra_simps)
  ultimately have "run pid s (?t slots (Suc k) (es @ [?e]))" by (simp only: run_step [OF es(3)])
  moreover have "batch_written (capacity s) (nat q) f (sh_slots (sy_shared s)) slots (es @ [?e])"
    using batch_written_snoc [OF es(2) assms(5), of ?e] es(1) slots by simp
  ultimately show ?case using es(1) by (intro exI [of _ "es @ [?e]"] conjI) simp_all
qed

text \<open>C8. Batch publication refines the protocol. A call of \<open>try_batch_publish\<close> in a safe system is a run of the protocol. On success it
  appends exactly the events its closure writes to the history: the \<open>k\<close>-th is the closure applied to \<open>k\<close> and to what
  its slot held before (or, when the batch is longer than the ring, to what the batch itself wrote there a ring earlier); these events are in their slots afterwards, the other slots are unchanged, and the
  producer's cursor and next sequence are those of the last one. Refused, it writes nothing.\<close>

theorem batch_publish_refines:
  assumes "system_ok s" "sy_phase s = Ready" "0 < n" "pd_sequence (sy_producer s) + int n \<le> seq_limit"
    and "try_batch_publish pid now n f (sy_producer s) (sy_shared s) = Some (res, p', sh')"
  shows "\<exists>es t. run pid s t \<and> t = s\<lparr>sy_producer := p', sy_shared := sh', sy_hist := sy_hist s @ es\<rparr>
     \<and> (case res of Inl _ \<Rightarrow> es = [] \<and> sh' = sy_shared s
        | Inr u \<Rightarrow> length es = n \<and> u = int (length (sy_hist s @ es)) - 1 \<and> pd_sequence p' = u + 1
            \<and> sh_world sh' = store (sy_world s) (pd_cursor (sy_producer s)) u
            \<and> batch_written (capacity s) (nat (pd_sequence (sy_producer s))) f
                 (sh_slots (sy_shared s)) (sh_slots sh') es)"
proof (cases "next_sequences (sh_world (sy_shared s)) pid now n (sy_producer s)")
  case None
  then show ?thesis using assms(3,5) by (simp add: try_batch_publish_def)
next
  case (Some a)
  obtain granted p1 where a: "a = (granted, p1)" by fastforce
  have w: "writer_ok s" and readers: "\<forall>r \<in> set (sy_readers s). reader_ok s r"
    using assms(1) by (simp_all add: system_ok_def)
  have granted: "next_sequences (sy_world s) pid now n (sy_producer s) = Some (granted, p1)"
    using Some a by (simp add: sy_world_def)
  show ?thesis
  proof (cases granted)
    case (Inl e)
    then have "res = Inl e" "p' = p1" "sh' = sy_shared s"
      using assms(3,5) Some a by (simp_all add: try_batch_publish_def)
    moreover have "run pid s (s\<lparr>sy_producer := p1\<rparr>)"
      by (rule step_run [OF refuse]) (use assms(2-4) granted Inl in simp_all)
    ultimately show ?thesis by (intro exI [of _ "[]"]) simp
  next
    case (Inr v)
    let ?q = "pd_sequence (sy_producer s)"
    have v: "v = ?q + int n - 1" and kept: "pd_ring p1 = pd_ring (sy_producer s)"
      "pd_sequence p1 = ?q" "pd_cursor p1 = pd_cursor (sy_producer s)"
      using next_sequences_cases [OF gate_facts(1) [OF w assms(2)] assms(3,4)
          gate_facts(2-5) [OF w assms(2)], of pid now] granted Inr by (auto split: if_splits)
    have range: "i64_try_from_usize n = Some (int n)" "checked_i64 (?q + (int n - 1)) = Some v"
      "wrap_i64 (?q + int n) = ?q + int n"
      using assms(3,4) writer_okD(6) [OF w] v
      by (simp_all add: i64_try_from_usize_def checked_i64_def seq_limit_def i64_simps wrap_i64_id)
    obtain slots where slots: "update_range (pd_ring (sy_producer s)) ?q n f (sh_slots (sy_shared s)) = Some slots"
      and out: "res = Inr v" "p' = p1\<lparr>pd_sequence := ?q + int n\<rparr>"
        "sh' = shared_store (pd_cursor (sy_producer s)) v ((sy_shared s)\<lparr>sh_slots := slots\<rparr>)"
      using assms(3,5) Some a Inr kept range
      by (auto simp: try_batch_publish_def apply_batch_updates_def split: option.splits)
    let ?s1 = "s\<lparr>sy_producer := p1, sy_phase := Filling ?q v\<rparr>"
    have one: "run pid s ?s1"
      by (rule step_run [OF reserve]) (use assms(2-4) granted Inr in simp_all)
    obtain es where es: "length es = n"
      "batch_written (capacity ?s1) (nat ?q) f (sh_slots (sy_shared ?s1)) slots es"
      "run pid ?s1 (?s1\<lparr>sy_shared := (sy_shared ?s1)\<lparr>sh_slots := slots\<rparr>,
                      sy_phase := Filling (?q + int n) v, sy_hist := sy_hist ?s1 @ es\<rparr>)"
      using fill_run [of ?s1 ?q v n n f slots pid] slots v kept writer_okD(2-4,6) [OF w] assms(4)
      by (auto simp: capacity_def)
    let ?s2 = "?s1\<lparr>sy_shared := (sy_shared ?s1)\<lparr>sh_slots := slots\<rparr>,
                    sy_phase := Filling (?q + int n) v, sy_hist := sy_hist ?s1 @ es\<rparr>"
    have "step pid ?s2 (?s2\<lparr>sy_shared := shared_store (pd_cursor (sy_producer ?s2)) v (sy_shared ?s2),
             sy_producer := (sy_producer ?s2)\<lparr>pd_sequence := v + 1\<rparr>, sy_phase := Ready\<rparr>)"
      by (rule step.commit) (simp add: v)
    moreover have "?s2\<lparr>sy_shared := shared_store (pd_cursor (sy_producer ?s2)) v (sy_shared ?s2),
             sy_producer := (sy_producer ?s2)\<lparr>pd_sequence := v + 1\<rparr>, sy_phase := Ready\<rparr>
        = s\<lparr>sy_producer := p', sy_shared := sh', sy_hist := sy_hist s @ es\<rparr>"
      using out v kept assms(2) by simp
    ultimately have "run pid s (s\<lparr>sy_producer := p', sy_shared := sh', sy_hist := sy_hist s @ es\<rparr>)"
      by (simp only: run_step [OF run_trans [OF one es(3)]])
    moreover have "int (length (sy_hist s)) = ?q"
      using w assms(2) by (simp add: writer_ok_def Let_def)
    moreover have "batch_written (capacity s) (nat ?q) f (sh_slots (sy_shared s)) (sh_slots sh') es"
      using es(2) out(3) kept(1) by (simp add: capacity_def shared_store_def)
    ultimately show ?thesis using es(1) out v by (intro exI [of _ es]) (simp add: shared_store_def sy_world_def)
  qed
qed

section \<open>What the consumer operations return\<close>

lemma batch_bounds:
  assumes "system_ok s" "r \<in> set (sy_readers s)"
  shows "available_batch_bounds (rd_consumer r) (sy_world s)
     = Some (if published s \<le> cn_last (rd_consumer r) then None
             else Some (cn_last (rd_consumer r) + 1, published s))"
proof -
  have reader: "reader_ok s r" and w: "writer_ok s" using assms by (simp_all add: system_ok_def)
  have last: "cn_producer (rd_consumer r) = pd_cursor (sy_producer s)" "-1 \<le> cn_last (rd_consumer r)"
    "cn_last (rd_consumer r) \<le> published s"
    using reader by (simp_all add: reader_ok_def Let_def)
  moreover have "cn_last (rd_consumer r) \<le> seq_limit"
    using last writer_okD [OF w] by linarith
  ultimately have "wrap_i64 (cn_last (rd_consumer r) + 1) = cn_last (rd_consumer r) + 1"
    by (intro wrap_i64_id) (simp add: seq_limit_def i64_simps)
  then show ?thesis using last by (simp add: available_batch_bounds_def Let_def published_def)
qed

lemma fold_events_history:
  assumes "\<And>q. lower \<le> q \<Longrightarrow> q < lower + int n \<Longrightarrow> read_slot rg slots q = Some (hist ! nat q)"
  shows "fold_events rg slots lower n f acc
     = Some (fold (\<lambda>(q, e). f e q) (events hist lower (lower + int n)) acc)"
  using assms
proof (induction n arbitrary: lower acc)
  case 0
  then show ?case by (simp add: events_def)
next
  case (Suc n)
  have "events hist lower (lower + int (Suc n)) = (lower, hist ! nat lower) # events hist (lower + 1) (lower + 1 + int n)"
    by (simp add: events_def upto_rec1 algebra_simps)
  moreover have "fold_events rg slots (lower + 1) n f (f (hist ! nat lower) lower acc)
      = Some (fold (\<lambda>(q, e). f e q) (events hist (lower + 1) (lower + 1 + int n)) (f (hist ! nat lower) lower acc))"
    by (rule Suc.IH) (use Suc.prems in auto)
  moreover have "read_slot rg slots lower = Some (hist ! nat lower)" using Suc.prems by simp
  ultimately show ?case by simp
qed

lemma record_lag_shared [simp]:
  "sh_slots (record_lag k a b sh) = sh_slots sh" "sh_world (record_lag k a b sh) = sh_world sh"
  by (simp_all add: record_lag_def split: option.splits)

lemma counters_shared [simp]:
  "sh_slots (inc_counter k sh) = sh_slots sh" "sh_world (inc_counter k sh) = sh_world sh"
  "sh_slots (add_counter k n sh) = sh_slots sh" "sh_world (add_counter k n sh) = sh_world sh"
  by (simp_all add: inc_counter_def add_counter_def split: option.splits)

text \<open>C6. Single consumption. In a safe system \<open>try_consume_next\<close> never panics: it returns nothing exactly when the
  consumer has caught up, and otherwise the next event of the history under the next sequence
  number, which it records as consumed in its own cursor.\<close>

theorem try_consume_returns_next_event:
  assumes "system_ok s" "r \<in> set (sy_readers s)"
  shows "\<exists>res c' sh'. try_consume_next (rd_consumer r) (sy_shared s) = Some (res, c', sh')
     \<and> (let next = cn_last (rd_consumer r) + 1 in
        if published s < next then res = None \<and> c' = rd_consumer r \<and> sh_world sh' = sy_world s
        else res = Some (next, sy_hist s ! nat next) \<and> c' = (rd_consumer r)\<lparr>cn_last := next\<rparr>
          \<and> sh_world sh' = store (sy_world s) (cn_cursor c') next)
     \<and> sh_slots sh' = sh_slots (sy_shared s)"
proof -
  note bounds = batch_bounds [OF assms]
  show ?thesis
  proof (cases "published s \<le> cn_last (rd_consumer r)")
    case True
    then show ?thesis
      using bounds by (simp add: try_consume_next_def sy_world_def)
  next
    case False
    then have "read_slot (cn_ring (rd_consumer r)) (sh_slots (sy_shared s)) (cn_last (rd_consumer r) + 1)
        = Some (sy_hist s ! nat (cn_last (rd_consumer r) + 1))"
      using slot_holds_event [OF assms, of "cn_last (rd_consumer r) + 1"] by simp
    then show ?thesis
      using bounds False
      by (simp add: try_consume_next_def sy_world_def publish_consumed_sequence_def shared_store_def Let_def)
  qed
qed

lemma snapshot_batch_folds:
  assumes "system_ok s" "r \<in> set (sy_readers s)"
    and "available_batch_bounds (rd_consumer r) (sy_world s) = Some (Some (lower, upper))"
  shows "\<exists>sh'. process_snapshot_batch_with_eob lower upper f acc (rd_consumer r) (sy_shared s)
     = Some (nat (published s - cn_last (rd_consumer r)),
             fold (\<lambda>(q, e). f e q (q = published s))
               (events (sy_hist s) (cn_last (rd_consumer r) + 1) (published s + 1)) acc,
             (rd_consumer r)\<lparr>cn_last := published s\<rparr>, sh')
     \<and> sh_world sh' = store (sy_world s) (cn_cursor (rd_consumer r)) (published s)
     \<and> sh_slots sh' = sh_slots (sy_shared s)"
proof -
  let ?last = "cn_last (rd_consumer r)"
  have eq: "lower = ?last + 1" "upper = published s" "?last < published s"
    using batch_bounds [OF assms(1,2)] assms(3) by (auto split: if_splits)
  have "fold_events (cn_ring (rd_consumer r)) (sh_slots (sy_shared s)) (?last + 1) (nat (published s - ?last))
      (\<lambda>e q. f e q (q = published s)) acc
    = Some (fold (\<lambda>(q, e). f e q (q = published s))
        (events (sy_hist s) (?last + 1) (?last + 1 + int (nat (published s - ?last)))) acc)"
    by (rule fold_events_history) (use slot_holds_event [OF assms(1,2)] eq in auto)
  moreover have "?last + 1 + int (nat (published s - ?last)) = published s + 1" using eq(3) by simp
  ultimately have "fold_events (cn_ring (rd_consumer r)) (sh_slots (sy_shared s)) (?last + 1)
      (nat (published s - ?last)) (\<lambda>e q. f e q (q = published s)) acc
    = Some (fold (\<lambda>(q, e). f e q (q = published s)) (events (sy_hist s) (?last + 1) (published s + 1)) acc)"
    by (simp only:)
  then show ?thesis
    using eq by (simp add: process_snapshot_batch_with_eob_def process_snapshot_batch_def Let_def
        publish_consumed_sequence_def shared_store_def sy_world_def)
qed

text \<open>C7. Snapshot batches. A batch hands the callback every event between the consumer's position and the producer's
  cursor, in order, and then publishes the last of them; the end-of-batch flag is set for
  that one only.\<close>

theorem snapshot_batch_folds_history:
  assumes "system_ok s" "r \<in> set (sy_readers s)"
    and "available_batch_bounds (rd_consumer r) (sy_world s) = Some (Some (lower, upper))"
  shows "\<exists>sh'. process_snapshot_batch_with_eob lower upper f acc (rd_consumer r) (sy_shared s)
     = Some (nat (published s - cn_last (rd_consumer r)),
             fold (\<lambda>(q, e). f e q (q = published s))
               (events (sy_hist s) (cn_last (rd_consumer r) + 1) (published s + 1)) acc,
             (rd_consumer r)\<lparr>cn_last := published s\<rparr>, sh')
     \<and> sh_world sh' = store (sy_world s) (cn_cursor (rd_consumer r)) (published s)
     \<and> sh_slots sh' = sh_slots (sy_shared s)"
  by (rule snapshot_batch_folds [OF assms])

lemma published_mono: "step pid s t \<Longrightarrow> system_ok s \<Longrightarrow> published s \<le> published t \<and> (\<exists>es. sy_hist t = sy_hist s @ es)"
proof (induction rule: step.cases)
  case (reserve s n now u p1)
  have w: "writer_ok s" using reserve by (simp add: system_ok_def)
  have "pd_cursor p1 = pd_cursor (sy_producer s)"
    using next_sequences_cases [OF gate_facts(1) [OF w reserve(3)] reserve(4,5)
        gate_facts(2-5) [OF w reserve(3)], of pid now] reserve(6) by (auto split: if_splits)
  then show ?case using reserve(1,2) by (simp add: published_def sy_world_def)
next
  case (refuse s n now e p1)
  have w: "writer_ok s" using refuse by (simp add: system_ok_def)
  have "pd_cursor p1 = pd_cursor (sy_producer s)"
    using next_sequences_cases [OF gate_facts(1) [OF w refuse(3)] refuse(4,5)
        gate_facts(2-5) [OF w refuse(3)], of pid now] refuse(6) by (auto split: if_splits)
  then show ?case using refuse(1,2) by (simp add: published_def sy_world_def)
next
  case (commit s u)
  have w: "writer_ok s" using commit by (simp add: system_ok_def)
  have "published s < u" using writer_okD(5) [OF w] w commit(3) by (auto simp: writer_ok_def Let_def)
  then show ?case using commit(1,2) by (simp add: published_def sy_world_def shared_store_def)
next
  case (finish i s r q upper c1 sh1)
  have "r \<in> set (sy_readers s)" "cells_ok s" using finish by (simp_all add: system_ok_def)
  then have "snd (cn_cursor (rd_consumer r)) \<noteq> snd (pd_cursor (sy_producer s))"
    using reader_cell_distinct by blast
  then show ?case
    using finish(1,2,7) by (auto simp: published_def sy_world_def publish_consumed_sequence_def shared_store_def)
qed (simp_all add: published_def sy_world_def)


lemma covered_run_grows:
  "covered_run pid s t \<Longrightarrow> system_ok s
   \<Longrightarrow> published s \<le> published t \<and> (\<exists>es. sy_hist t = sy_hist s @ es) \<and> system_ok t
       \<and> length (sy_readers t) = length (sy_readers s)"
proof (induction rule: covered_run.induct)
  case (step s t t')
  then have "published t \<le> published t' \<and> (\<exists>es. sy_hist t' = sy_hist t @ es)" "system_ok t'"
    using published_mono step_preserves by blast+
  moreover have "length (sy_readers t') = length (sy_readers t)"
    using step.hyps(2) by cases simp_all
  ultimately show ?case using step by auto
qed simp

text \<open>A lease on the next event keeps showing it.\<close>

lemma lease_keeps_event:
  assumes "system_ok s" "i < length (sy_readers s)" "c = rd_consumer (sy_readers s ! i)"
    and "cn_last c < published s"
    and "take_lease c (sy_shared s) (cn_last c + 1) = Some l"
    and "covered_run pid s t" "rd_consumer (sy_readers t ! i) = c"
  shows "lease_deref l (sy_shared t) = sy_hist s ! nat (cn_last c + 1)"
proof -
  note grown = covered_run_grows [OF assms(6,1)]
  have r: "sy_readers s ! i \<in> set (sy_readers s)" "sy_readers t ! i \<in> set (sy_readers t)"
    using assms(2) grown by simp_all
  have w: "writer_ok s" "writer_ok t" using assms(1) grown by (simp_all add: system_ok_def)
  note before = slot_holds_event [OF assms(1) r(1), folded assms(3), of "cn_last c + 1"]
  note after = slot_holds_event [OF conjunct1 [OF conjunct2 [OF conjunct2 [OF grown]]] r(2), unfolded assms(7), of "cn_last c + 1"]
  have s_event: "nat (cn_last c + 1) < length (sy_hist s)" using before assms(4) by simp
  have t_event: "read_slot (cn_ring c) (sh_slots (sy_shared t)) (cn_last c + 1) = Some (sy_hist t ! nat (cn_last c + 1))"
    using after assms(4) grown by simp
  have rings: "same_slots (cn_ring c) (pd_ring (sy_producer s))" "same_slots (cn_ring c) (pd_ring (sy_producer t))"
    using assms(1,3,7) r grown by (auto simp: system_ok_def reader_ok_def Let_def)
  then have "length (sh_slots (sy_shared s)) = length (sh_slots (sy_shared t))"
    using writer_okD(2) [OF w(1)] writer_okD(2) [OF w(2)] by (simp add: capacity_def same_slots_def)
  then have "slot_of (cn_ring c) (sh_slots (sy_shared t)) (cn_last c + 1) = Some (le_slot l)"
    using assms(5) by (auto simp: take_lease_def slot_of_def split: option.splits if_splits)
  then have "lease_deref l (sy_shared t) = sy_hist t ! nat (cn_last c + 1)"
    using t_event by (simp add: read_slot_def lease_deref_def)
  then show ?thesis using grown s_event by (auto simp: nth_append)
qed

lemma record_lag_counters: "\<exists>f. record_lag k a b sh = sh\<lparr>sh_counters := f\<rparr>"
  by (cases k) (auto simp: record_lag_def intro: exI [of _ "sh_counters sh"])


lemma take_run:
  assumes "i < length (sy_readers s)" "r = sy_readers s ! i" "rd_phase r = Batch q upper"
    and "q + int n \<le> upper + 1"
    and "\<And>x. q \<le> x \<Longrightarrow> x < q + int n
          \<Longrightarrow> read_slot (cn_ring (rd_consumer r)) (sh_slots (sy_shared s)) x = Some (hist ! nat x)"
  shows "run pid s (s\<lparr>sy_readers := (sy_readers s)[i :=
           r\<lparr>rd_phase := Batch (q + int n) upper, rd_seen := rd_seen r @ events hist q (q + int n)\<rparr>]\<rparr>)"
  using assms(4,5)
proof (induction n)
  case 0
  have "r\<lparr>rd_phase := Batch (q + int 0) upper, rd_seen := rd_seen r @ events hist q (q + int 0)\<rparr> = r"
    using assms(3) by (cases r) (simp add: events_def)
  then have "s\<lparr>sy_readers := (sy_readers s)[i :=
      r\<lparr>rd_phase := Batch (q + int 0) upper, rd_seen := rd_seen r @ events hist q (q + int 0)\<rparr>]\<rparr> = s"
    using assms(2) by simp
  then show ?case by (simp only: run_refl)
next
  case (Suc n)
  let ?r = "\<lambda>n. r\<lparr>rd_phase := Batch (q + int n) upper, rd_seen := rd_seen r @ events hist q (q + int n)\<rparr>"
  let ?t = "\<lambda>n. s\<lparr>sy_readers := (sy_readers s)[i := ?r n]\<rparr>"
  have IH: "run pid s (?t n)" using Suc by simp
  have "step pid (?t n) ((?t n)\<lparr>sy_readers := (sy_readers (?t n))[i :=
     (?r n)\<lparr>rd_phase := Batch (q + int n + 1) upper,
            rd_seen := rd_seen (?r n) @ [(q + int n, hist ! nat (q + int n))]\<rparr>]\<rparr>)"
    by (rule step.take_event) (use assms(1) Suc.prems in simp_all)
  moreover have "events hist q (q + int (Suc n)) = events hist q (q + int n) @ [(q + int n, hist ! nat (q + int n))]"
    using upto_rec2 [of q "q + int n"] by (simp add: events_def algebra_simps)
  then have "(?t n)\<lparr>sy_readers := (sy_readers (?t n))[i :=
     (?r n)\<lparr>rd_phase := Batch (q + int n + 1) upper,
            rd_seen := rd_seen (?r n) @ [(q + int n, hist ! nat (q + int n))]\<rparr>]\<rparr> = ?t (Suc n)"
    by (simp add: algebra_simps)
  ultimately show ?case by (simp only: run_step [OF IH])
qed

lemma add_counter_counters: "\<exists>f. add_counter k n sh = sh\<lparr>sh_counters := f\<rparr>"
  by (cases k) (auto simp: add_counter_def intro: exI [of _ "sh_counters sh"])

text \<open>C9. Batch consumption refines the protocol. A call of \<open>process_snapshot_batch\<close> is a run of the protocol in which the reader takes every
  event up to the producer's cursor and then publishes the last one; the callback is folded over exactly these
  events with their sequence numbers, in order, and the call reports their number.\<close>

theorem batch_consumption_refines:
  assumes "system_ok s" "i < length (sy_readers s)" "r = sy_readers s ! i" "rd_phase r = Idle"
    and "available_batch_bounds (rd_consumer r) (sy_world s) = Some (Some (lower, upper))"
    and "process_snapshot_batch lower upper f acc (rd_consumer r) (sy_shared s) = Some (n, acc', c', sh')"
  shows "run pid s (s\<lparr>sy_shared := sh', sy_readers := (sy_readers s)[i :=
           r\<lparr>rd_consumer := c', rd_seen := rd_seen r @ events (sy_hist s) lower (upper + 1)\<rparr>]\<rparr>)
     \<and> lower = cn_last (rd_consumer r) + 1 \<and> upper = published s \<and> cn_last c' = upper
     \<and> int n = upper - lower + 1
     \<and> acc' = fold (\<lambda>(q, e). f e q) (events (sy_hist s) lower (upper + 1)) acc
     \<and> sh_world sh' = store (sy_world s) (cn_cursor (rd_consumer r)) upper
     \<and> sh_slots sh' = sh_slots (sy_shared s)"
proof -
  let ?last = "cn_last (rd_consumer r)" and ?c = "rd_consumer r"
  have mem: "r \<in> set (sy_readers s)" using assms(2,3) by simp
  have eq: "lower = ?last + 1" "upper = published s" "?last < published s"
    using batch_bounds [OF assms(1) mem] assms(5) by (auto split: if_splits)
  obtain g where g: "record_lag (cn_lag_max ?c) lower upper (sy_shared s) = (sy_shared s)\<lparr>sh_counters := g\<rparr>"
    using record_lag_counters by blast
  let ?n = "nat (upper - lower + 1)"
  let ?sh1 = "shared_store (cn_cursor ?c) upper (sy_shared s)"
  let ?sh2 = "shared_store (cn_cursor ?c) upper ((sy_shared s)\<lparr>sh_counters := g\<rparr>)"
  obtain k where k: "add_counter (cn_events_consumed ?c) ?n ?sh2 = ?sh2\<lparr>sh_counters := k\<rparr>"
    using add_counter_counters by blast
  have out: "c' = ?c\<lparr>cn_last := upper\<rparr>" "sh' = ?sh1\<lparr>sh_counters := k\<rparr>"
    using assms(6) k
    by (auto simp: process_snapshot_batch_def Let_def g publish_consumed_sequence_def shared_store_def
        split: option.splits)
  have n: "lower + int ?n = upper + 1" using eq by simp
  have "fold_events (cn_ring ?c) (sh_slots (sy_shared s)) lower ?n f acc
      = Some (fold (\<lambda>(q, e). f e q) (events (sy_hist s) lower (lower + int ?n)) acc)"
    by (rule fold_events_history) (use slot_holds_event [OF assms(1) mem] eq in auto)
  then have folded: "n = ?n" "acc' = fold (\<lambda>(q, e). f e q) (events (sy_hist s) lower (upper + 1)) acc"
    using assms(6) unfolding n
    by (auto simp: process_snapshot_batch_def Let_def g publish_consumed_sequence_def split: option.splits)
  let ?r1 = "r\<lparr>rd_phase := Batch lower upper\<rparr>"
  let ?s1 = "s\<lparr>sy_readers := (sy_readers s)[i := ?r1]\<rparr>"
  have one: "run pid s ?s1" by (rule step_run [OF acquire]) (use assms in simp_all)
  let ?r2 = "?r1\<lparr>rd_phase := Batch (upper + 1) upper, rd_seen := rd_seen ?r1 @ events (sy_hist s) lower (upper + 1)\<rparr>"
  let ?s2 = "?s1\<lparr>sy_readers := (sy_readers ?s1)[i := ?r2]\<rparr>"
  have two: "run pid ?s1 ?s2"
    by (rule take_run [where s = ?s1 and n = ?n and q = lower, unfolded n])
      (use slot_holds_event [OF assms(1) mem] assms(2) eq in simp_all)
  let ?s3 = "?s2\<lparr>sy_shared := ?sh1, sy_readers := (sy_readers ?s2)[i := ?r2\<lparr>rd_consumer := c', rd_phase := Idle\<rparr>]\<rparr>"
  have three: "step pid ?s2 ?s3"
    using step.finish [of i ?s2 ?r2 "upper + 1" upper c' ?sh1 pid] assms(2) eq out(1)
    by (simp add: publish_consumed_sequence_def)
  have "run pid s (?s3\<lparr>sy_shared := (sy_shared ?s3)\<lparr>sh_counters := k\<rparr>\<rparr>)"
    by (rule run_step [OF run_step [OF run_trans [OF one two] three] count])
  moreover have "?s3\<lparr>sy_shared := (sy_shared ?s3)\<lparr>sh_counters := k\<rparr>\<rparr>
     = s\<lparr>sy_shared := sh', sy_readers := (sy_readers s)[i :=
           r\<lparr>rd_consumer := c', rd_seen := rd_seen r @ events (sy_hist s) lower (upper + 1)\<rparr>]\<rparr>"
    using out assms(4) by (cases s; cases r) simp
  ultimately have "run pid s (s\<lparr>sy_shared := sh', sy_readers := (sy_readers s)[i :=
           r\<lparr>rd_consumer := c', rd_seen := rd_seen r @ events (sy_hist s) lower (upper + 1)\<rparr>]\<rparr>)"
    by (simp only:)
  then show ?thesis using folded out eq by (simp add: shared_store_def sy_world_def)
qed

section \<open>A ring of eight slots\<close>

text \<open>A producer that has published the first \<open>k\<close> of eight events, a first reader that has consumed them
  all and, for \<open>n = 2\<close>, a second one that has consumed none.\<close>

definition demo_reader :: "nat \<Rightarrow> int \<Rightarrow> 'e reader" where
  "demo_reader i consumed =
     \<lparr> rd_consumer = \<lparr> cn_ring = small_ring, cn_producer = (''r_p'', 9),
         cn_cursor = ((if i = 0 then ''r_a_0_seq'' else ''r_a_1_seq''), i),
         cn_id = (if i = 0 then ''a_0'' else ''a_1''), cn_last = consumed, cn_ready = None,
         cn_events_consumed = None, cn_empty_spins = None, cn_lag_max = None \<rparr>,
       rd_phase = Idle, rd_start = consumed + 1, rd_seen = [] \<rparr>"

definition demo :: "nat \<Rightarrow> nat \<Rightarrow> barrier \<Rightarrow> 'e list \<Rightarrow> 'e system" where
  "demo n k b xs =
     \<lparr> sy_shared = \<lparr> sh_world = \<lparr> w_names = [''r_a_0_seq'' \<mapsto> 0](''r_a_1_seq'' := if n = 2 then Some 1 else None),
                               w_cells = (\<lambda>_. -1)(0 := int k - 1, 9 := int k - 1), w_next = 10 \<rparr>,
                    sh_slots = xs, sh_counters = counters_init \<rparr>,
       sy_producer = (small_producer (int k) 7)\<lparr>pd_barrier := b\<rparr>, sy_phase = Ready,
       sy_readers = demo_reader 0 (int k - 1) # (if n = 2 then [demo_reader 1 (-1)] else []),
       sy_hist = take k xs \<rparr>"

definition demo_barrier :: "(string \<times> handle) list \<Rightarrow> barrier" where
  "demo_barrier cursors = (first_tracked 0)\<lparr>cb_cursors := cursors\<rparr>"

lemma demo_simps [simp]:
  "sy_producer (demo n k b xs) = (small_producer (int k) 7)\<lparr>pd_barrier := b\<rparr>"
  "sy_phase (demo n k b xs) = Ready" "sy_hist (demo n k b xs) = take k xs"
  "sh_slots (sy_shared (demo n k b xs)) = xs"
  "sy_readers (demo n k b xs) = demo_reader 0 (int k - 1) # (if n = 2 then [demo_reader 1 (-1)] else [])"
  "attach (sy_world (demo n k b xs)) name =
     (if name = ''r_a_0_seq'' then Some (name, 0) else if name = ''r_a_1_seq'' \<and> n = 2 then Some (name, 1) else None)"
  "load (sy_world (demo n k b xs)) h = (if snd h = 0 \<or> snd h = 9 then int k - 1 else -1)"
  by (auto simp: demo_def attach_def load_def sy_world_def)

lemma demo_capacity [simp]: "capacity (demo n k b xs) = 8" "published (demo n k b xs) = int k - 1"
proof -
  have "unat (rb_size small_ring) = 8" using small_ring_wf(2) by (metis of_nat_eq_iff of_nat_numeral)
  then show "capacity (demo n k b xs) = 8" by (simp add: capacity_def)
qed (simp add: published_def)

lemma demo_writer:
  assumes "k \<le> 8" "n = 1 \<or> n = 2" "set cursors \<subseteq> set [(''a_0'', (''r_a_0_seq'', 0))] \<union> (if n = 2 then {(''a_1'', (''r_a_1_seq'', 1))} else {})"
    "distinct (map fst cursors)" "length xs = 8"
  shows "writer_ok (demo n k (demo_barrier cursors) xs)"
proof -
  let ?s = "demo n k (demo_barrier cursors) xs"
  have "barrier_ok (sy_world ?s) (demo_barrier cursors)"
    using assms(3,4) by (auto simp: barrier_ok_def demo_barrier_def first_tracked_def barrier_empty_def
        sequence_name_def split: if_splits)
  moreover have "sequences_in_range (sy_world ?s) (demo_barrier cursors)"
    using assms(1) by (auto simp: sequences_in_range_def seq_limit_def)
  moreover have "producer_in_range (small_producer (int k) 7)"
    using assms(1) by (intro small_producer_range) (simp_all add: seq_limit_def)
  ultimately show ?thesis
    using assms(1,5) first_tracked_mode [of 0]
    by (simp add: writer_ok_def Let_def demo_barrier_def producer_in_range_def ring_capacity_def)
qed

lemma demo_ok:
  assumes "k \<le> 8" "n = 1 \<or> n = 2" "set cursors \<subseteq> set [(''a_0'', (''r_a_0_seq'', 0))] \<union> (if n = 2 then {(''a_1'', (''r_a_1_seq'', 1))} else {})"
    "distinct (map fst cursors)" "length xs = 8"
  shows "system_ok (demo n k (demo_barrier cursors) xs)"
  using demo_writer [OF assms] assms(1,5)
  by (auto simp: system_ok_def window_ok_def cells_ok_def reader_handles_def reader_ok_def Let_def
      demo_reader_def read_position_def events_def)

lemma demo_fresh:
  assumes "n = 1 \<or> n = 2" "set cursors \<subseteq> set [(''a_0'', (''r_a_0_seq'', 0))] \<union> (if n = 2 then {(''a_1'', (''r_a_1_seq'', 1))} else {})"
    "distinct (map fst cursors)" "length xs = 8"
  shows "fresh (demo n 0 (demo_barrier cursors) xs)"
  using demo_writer [of 0, OF _ assms] assms(1,4)
  by (auto simp: fresh_def cells_ok_def reader_handles_def demo_reader_def)

lemma small_slot:
  assumes "0 \<le> q" "q < 100" "length slots = 8"
  shows "slot_of small_ring slots q = Some (nat q mod 8)"
proof -
  have "unat (rb_size small_ring) = 8" using small_ring_wf(2) by (metis of_nat_eq_iff of_nat_numeral)
  then show ?thesis
    using slot_of_value [OF small_ring_wf(1), of q slots] assms by (simp add: seq_limit_def)
qed

lemma covered_run_run: "covered_run pid s t \<Longrightarrow> run pid s t"
  by (induction rule: covered_run.induct) (auto intro: run.intros)

abbreviation tracked_one :: barrier where
  "tracked_one \<equiv> demo_barrier [(''a_0'', (''r_a_0_seq'', 0))]"

text \<open>One event is reserved, written, published, acquired and read.\<close>

definition demo_end :: "'e \<Rightarrow> 'e list \<Rightarrow> 'e system" where
  "demo_end e xs =
     (let s = demo 1 0 tracked_one xs; r = demo_reader 0 (-1) in
      s\<lparr>sy_shared := shared_store (''r_p'', 9) 0 ((sy_shared s)\<lparr>sh_slots := xs[0 := e]\<rparr>),
        sy_producer := (sy_producer s)\<lparr>pd_sequence := 1\<rparr>, sy_hist := [e],
        sy_readers := [r\<lparr>rd_phase := Batch 1 0, rd_seen := [(0, e)]\<rparr>]\<rparr>)"

lemma demo_covered:
  "pd_barrier (sy_producer s) = tracked_one \<Longrightarrow> reader_handles s = [(''r_a_0_seq'', 0)] \<Longrightarrow> covered s"
  by (simp add: covered_def tracked_handles_def demo_barrier_def)

lemma demo_run:
  assumes "length xs = 8"
  shows "covered_run 1 (demo 1 0 tracked_one xs) (demo_end e xs)"
proof -
  let ?s = "demo 1 0 tracked_one xs"
  let ?s1 = "?s\<lparr>sy_producer := sy_producer ?s, sy_phase := Filling 0 0\<rparr>"
  let ?s2 = "?s1\<lparr>sy_shared := (sy_shared ?s1)\<lparr>sh_slots := xs[0 := e]\<rparr>,
                sy_phase := Filling 1 0, sy_hist := [e]\<rparr>"
  let ?s3 = "?s2\<lparr>sy_shared := shared_store (''r_p'', 9) 0 (sy_shared ?s2),
                sy_producer := (sy_producer ?s2)\<lparr>pd_sequence := 1\<rparr>, sy_phase := Ready\<rparr>"
  let ?r = "demo_reader 0 (-1)"
  let ?s4 = "?s3\<lparr>sy_readers := [?r\<lparr>rd_phase := Batch 0 0\<rparr>]\<rparr>"
  have "next_sequences (sy_world ?s) 1 0 1 (sy_producer ?s) = Some (Inr 0, sy_producer ?s)"
    by (simp add: next_sequences_def last_reserved_sequence_def update_min_consumer_clearance_window_def
        i64_try_from_usize_def checked_i64_def i64_simps)
  then have "step 1 ?s ?s1"
    using step.reserve [of ?s 1 1 0 0 "sy_producer ?s"] by (simp add: seq_limit_def)
  moreover have "step 1 ?s1 ?s2"
    using step.fill [of ?s1 0 0 "\<lambda>_. e" "xs[0 := e]" e 1] small_slot [of 0 xs]
      small_slot [of 0 "xs[0 := e]"] assms
    by (simp add: update_event_def read_slot_def)
  moreover have "step 1 ?s2 ?s3"
    using step.commit [of ?s2 0 1] by simp
  moreover have "step 1 ?s3 ?s4"
    using step.acquire [of 0 ?s3 ?r 0 0 1]
    by (simp add: available_batch_bounds_def demo_reader_def shared_store_def sy_world_def Let_def wrap_i64_id i64_simps)
  moreover have "step 1 ?s4 (?s4\<lparr>sy_readers := [?r\<lparr>rd_phase := Batch 1 0, rd_seen := [(0, e)]\<rparr>]\<rparr>)"
    using step.take_event [of 0 ?s4 "?r\<lparr>rd_phase := Batch 0 0\<rparr>" 0 0 e 1] small_slot [of 0 "xs[0 := e]"] assms
    by (simp add: read_slot_def demo_reader_def shared_store_def)
  moreover have "?s4\<lparr>sy_readers := [?r\<lparr>rd_phase := Batch 1 0, rd_seen := [(0, e)]\<rparr>]\<rparr> = demo_end e xs"
    by (simp add: demo_end_def Let_def demo_def)
  ultimately have steps: "step 1 ?s ?s1" "step 1 ?s1 ?s2" "step 1 ?s2 ?s3" "step 1 ?s3 ?s4" "step 1 ?s4 (demo_end e xs)"
    by simp_all
  have c: "covered ?s" "covered ?s1" "covered ?s2" "covered ?s3" "covered ?s4" "covered (demo_end e xs)"
    by (rule demo_covered; simp add: reader_handles_def demo_reader_def demo_end_def Let_def)+
  show ?thesis
    by (rule covered_run.step [OF covered_run.step [OF covered_run.step [OF covered_run.step [OF
        covered_run.step [OF covered_run.start [OF c(1)] steps(1) c(2)] steps(2) c(3)] steps(3) c(4)]
        steps(4) c(5)] steps(5) c(6)])
qed

lemma demo_end_seen: "map rd_seen (sy_readers (demo_end e xs)) = [[(0, e)]]"
  by (simp add: demo_end_def Let_def)

lemma demo_start: "length xs = 8 \<Longrightarrow> fresh (demo 1 0 tracked_one xs)"
  by (rule demo_fresh) simp_all

lemma eight: "length [0..<8] = 8"
  by simp

theorem ring_delivers_history_witness:
  "delivers_history (demo_end (42 :: nat) [0..<8]) \<and> map rd_seen (sy_readers (demo_end (42 :: nat) [0..<8])) = [[(0, 42)]]"
  using ring_delivers_history [OF demo_start [OF eight] _ demo_run [OF eight]]
  by (simp add: demo_end_seen demo_barrier_def first_tracked_def barrier_empty_def)

theorem tracked_readers_safe_witness:
  "delivers_history (demo_end (42 :: nat) [0..<8]) \<and> all_tracked (demo 1 0 tracked_one [0..<8])"
proof -
  have "all_tracked (demo 1 0 tracked_one [0..<8])"
    by (simp add: all_tracked_def reader_handles_def demo_reader_def tracked_handles_def demo_barrier_def)
  then show ?thesis
    using tracked_readers_safe [OF demo_start [OF eight] _ covered_run_run [OF demo_run [OF eight]]] by blast
qed

theorem single_consumer_safe_witness:
  "delivers_history (demo_end (42 :: nat) [0..<8]) \<and> sole_reader (demo 1 0 tracked_one [0..<8])"
proof -
  have "sole_reader (demo 1 0 tracked_one [0..<8])"
    by (auto simp: sole_reader_def reader_handles_def demo_reader_def demo_barrier_def first_tracked_def
        barrier_empty_def sequence_name_def)
  then show ?thesis
    using single_consumer_safe [OF demo_start [OF eight] _ covered_run_run [OF demo_run [OF eight]]] by blast
qed

abbreviation second :: "nat reader" where
  "second \<equiv> demo_reader 1 (-1)"

theorem batch_publish_refines_witness:
  "\<exists>p' sh' t.
     try_batch_publish 1 0 3 (\<lambda>e i. e + 10 * i) (sy_producer (demo 1 0 tracked_one [0..<8])) (sy_shared (demo 1 0 tracked_one [0..<8]))
       = Some (Inr 2, p', sh')
     \<and> run 1 (demo 1 0 tracked_one [0..<8]) t \<and> sy_shared t = sh' \<and> sy_hist t = [0, 11, 22]"
proof -
  let ?s = "demo 1 0 tracked_one [0..<8]" and ?f = "\<lambda>e i. e + 10 * i"
  have ok: "system_ok ?s" by (rule demo_ok) simp_all
  have next3: "next_sequences (sh_world (sy_shared ?s)) 1 0 3 (sy_producer ?s) = Some (Inr 2, sy_producer ?s)"
    by (simp add: next_sequences_def last_reserved_sequence_def update_min_consumer_clearance_window_def
        i64_try_from_usize_def checked_i64_def i64_simps)
  have "\<exists>slots. update_range small_ring 0 3 ?f [0..<8] = Some slots"
    by (simp add: numeral_3_eq_3 update_event_def small_slot split: option.splits)
  then obtain p' sh' where
    r: "try_batch_publish 1 0 3 ?f (sy_producer ?s) (sy_shared ?s) = Some (Inr 2, p', sh')"
    using next3 by (auto simp: try_batch_publish_def apply_batch_updates_def i64_try_from_usize_def
        checked_i64_def i64_simps)
  from batch_publish_refines [OF ok _ _ _ r] obtain es t where t: "run 1 ?s t"
      "t = ?s\<lparr>sy_producer := p', sy_shared := sh', sy_hist := es\<rparr>"
    and es: "length es = 3" "batch_written 8 0 ?f [0..<8] (sh_slots sh') es"
    by (auto simp: seq_limit_def)
  have "es ! 0 = 0" "es ! 1 = 11" "es ! 2 = 22" using es by (simp_all add: batch_written_def)
  then have "es = [0, 11, 22]" using es(1) by (simp add: list_eq_iff_nth_eq less_Suc_eq numeral_3_eq_3 numeral_2_eq_2)
  then show ?thesis using r t by (intro exI [of _ p'] exI [of _ sh'] exI [of _ t]) simp
qed

theorem try_consume_returns_next_event_witness:
  "\<exists>c' sh'. try_consume_next (rd_consumer second) (sy_shared (demo 2 8 (first_tracked 0) [0..<8]))
      = Some (Some (0, 0), c', sh') \<and> cn_last c' = 0"
proof -
  let ?s = "demo 2 8 (demo_barrier [(''a_0'', (''r_a_0_seq'', 0))]) [0..<8]"
  have ok: "system_ok ?s" by (rule demo_ok) simp_all
  have r: "second \<in> set (sy_readers ?s)" by simp
  have "rd_consumer second = \<lparr> cn_ring = small_ring, cn_producer = (''r_p'', 9),
         cn_cursor = (''r_a_1_seq'', 1), cn_id = ''a_1'', cn_last = -1, cn_ready = None,
         cn_events_consumed = None, cn_empty_spins = None, cn_lag_max = None \<rparr>"
    by (simp add: demo_reader_def)
  moreover have "sy_shared ?s = sy_shared (demo 2 8 (first_tracked 0) [0..<8])" by (simp add: demo_def)
  ultimately show ?thesis
    using try_consume_returns_next_event [OF ok r] by (auto simp: Let_def)
qed

theorem snapshot_batch_folds_history_witness:
  "\<exists>sh'. process_snapshot_batch_with_eob 0 7 (\<lambda>e q eob acc. acc @ [(e, eob)]) [] (rd_consumer second)
        (sy_shared (demo 2 8 tracked_one [0..<8]))
      = Some (8, [(0, False), (1, False), (2, False), (3, False), (4, False), (5, False), (6, False), (7, True)],
              (rd_consumer second)\<lparr>cn_last := 7\<rparr>, sh')"
proof -
  let ?s = "demo 2 8 tracked_one [0..<8]"
  have ok: "system_ok ?s" by (rule demo_ok) simp_all
  have r: "second \<in> set (sy_readers ?s)" by simp
  have last: "cn_last (rd_consumer second) = -1" by (simp add: demo_reader_def)
  have b: "available_batch_bounds (rd_consumer second) (sy_world ?s) = Some (Some (0, 7))"
    using batch_bounds [OF ok r] last by simp
  have "[0..7::int] = [0, 1, 2, 3, 4, 5, 6, 7]" by (simp add: upto.simps)
  then have "events [0..<8] 0 8 = [(0, 0), (1, 1), (2, 2), (3, 3), (4, 4), (5, 5), (6, 6), (7, 7)]"
    by (simp add: events_def)
  then show ?thesis
    using snapshot_batch_folds_history [OF ok r b, of "\<lambda>e q eob acc. acc @ [(e, eob)]" "[]"] last by auto
qed

abbreviation tracked_both :: barrier where
  "tracked_both \<equiv> demo_barrier [(''a_0'', (''r_a_0_seq'', 0)), (''a_1'', (''r_a_1_seq'', 1))]"


text \<open>C14. An undiscovered consumer reads overwritten events. From a safe state in which the barrier tracks only the first of two consumers, the next
  reservation falls into the scan interval, is granted against the first consumer alone, and
  overwrites event 0 before the second consumer has read it: what it reads under sequence 0
  is event 8.\<close>

theorem untracked_consumer_reads_overwritten:
  "system_ok (demo 2 8 tracked_one [0..<8])
   \<and> (\<exists>t. run 1 (demo 2 8 tracked_one [0..<8]) t \<and> sy_hist t ! 0 = 0 \<and> rd_seen (sy_readers t ! 1) = [(0, 8)])"
proof
  let ?s = "demo 2 8 tracked_one [0..<8]"
  let ?p = "sy_producer ?s"
  show ok: "system_ok ?s" by (rule demo_ok) simp_all
  have w: "writer_ok ?s" using ok by (simp add: system_ok_def)
  have "get_min_consumer_sequence (sy_world ?s) 1 5 tracked_one = (7, tracked_one)"
    by (simp add: get_min_refresh refresh_discovery_def first_tracked_def barrier_empty_def demo_barrier_def
        discover_consumers_def discovery_scan_plan_def discovered_min_sequence_def i64_max_def)
  moreover have "ring_capacity ?p = 8" using gate_facts(6) [OF w] by simp
  moreover note next_sequences_cases [OF gate_facts(1) [OF w] _ _ gate_facts(2-5) [OF w], of 1 1 5]
  ultimately have "next_sequences (sy_world ?s) 1 5 1 ?p = Some (Inr 8, ?p\<lparr>pd_barrier := tracked_one, pd_clear := 15\<rparr>)"
    by (simp add: seq_limit_def)
  then have s1: "step 1 ?s (?s\<lparr>sy_producer := ?p\<lparr>pd_barrier := tracked_one, pd_clear := 15\<rparr>, sy_phase := Filling 8 8\<rparr>)"
    (is "step 1 ?s ?s1")
    using step.reserve [of ?s 1 1 5 8 "?p\<lparr>pd_barrier := tracked_one, pd_clear := 15\<rparr>"] by (simp add: seq_limit_def)
  let ?s2 = "?s1\<lparr>sy_shared := (sy_shared ?s1)\<lparr>sh_slots := [0..<8][0 := 8]\<rparr>,
                sy_phase := Filling 9 8, sy_hist := [0..<8] @ [8]\<rparr>"
  have s2: "step 1 ?s1 ?s2"
    using step.fill [of ?s1 8 8 "\<lambda>_. 8" "[0..<8][0 := 8]" 8 1] small_slot [of 8 "[0..<8]"]
      small_slot [of 8 "[0..<8][0 := 8]"]
    by (simp add: update_event_def read_slot_def)
  let ?r = "second"
  let ?s3 = "?s2\<lparr>sy_readers := [demo_reader 0 7, ?r\<lparr>rd_phase := Batch 0 7\<rparr>]\<rparr>"
  have "available_batch_bounds (rd_consumer ?r) (sy_world ?s) = Some (Some (0, 7))"
    using batch_bounds [OF ok, of ?r] by (simp add: demo_reader_def)
  then have s3: "step 1 ?s2 ?s3"
    using step.acquire [of 1 ?s2 ?r 0 7 1] by (simp add: sy_world_def demo_reader_def)
  let ?s4 = "?s3\<lparr>sy_readers := [demo_reader 0 7, ?r\<lparr>rd_phase := Batch 1 7, rd_seen := [(0, 8)]\<rparr>]\<rparr>"
  have s4: "step 1 ?s3 ?s4"
    using step.take_event [of 1 ?s3 "?r\<lparr>rd_phase := Batch 0 7\<rparr>" 0 7 8 1] small_slot [of 0 "[0..<8][0 := 8]"]
    by (simp add: read_slot_def demo_reader_def)
  have "run 1 ?s ?s4" by (rule run_step [OF run_step [OF run_step [OF step_run [OF s1] s2] s3] s4])
  then show "\<exists>t. run 1 ?s t \<and> sy_hist t ! 0 = 0 \<and> rd_seen (sy_readers t ! 1) = [(0, 8)]"
    by (intro exI [of _ ?s4]) (simp add: nth_append)
qed

theorem batch_consumption_refines_witness:
  "\<exists>t c' sh'. process_snapshot_batch 0 7 (\<lambda>e q acc. acc @ [e]) [] (rd_consumer second) (sy_shared (demo 2 8 tracked_one [0..<8]))
       = Some (8, [0..<8], c', sh') \<and> cn_last c' = 7
     \<and> run 1 (demo 2 8 tracked_one [0..<8]) t \<and> map fst (rd_seen (sy_readers t ! 1)) = [0..7]"
proof -
  let ?s = "demo 2 8 tracked_one [0..<8]" and ?f = "\<lambda>e q acc. acc @ [e]"
  have ok: "system_ok ?s" by (rule demo_ok) simp_all
  have r: "second \<in> set (sy_readers ?s)" by simp
  have phase: "rd_phase second = Idle" "rd_seen second = []" "cn_last (rd_consumer second) = -1"
    by (simp_all add: demo_reader_def)
  have b: "available_batch_bounds (rd_consumer second) (sy_world ?s) = Some (Some (0, 7))"
    using batch_bounds [OF ok r] phase by simp
  have "\<exists>out. process_snapshot_batch 0 7 ?f [] (rd_consumer second) (sy_shared ?s) = Some out"
    using snapshot_batch_folds [OF ok r b, of "\<lambda>e q eob acc. acc @ [e]" "[]"]
    by (auto simp: process_snapshot_batch_with_eob_def)
  then obtain n acc' c' sh' where
    p: "process_snapshot_batch 0 7 ?f [] (rd_consumer second) (sy_shared ?s) = Some (n, acc', c', sh')"
    by (metis prod_cases4)
  have i: "1 < length (sy_readers ?s)" "second = sy_readers ?s ! 1" by simp_all
  note refines = batch_consumption_refines [OF ok i phase(1) b p]
  have "[0..7::int] = [0, 1, 2, 3, 4, 5, 6, 7]" by (simp add: upto.simps)
  moreover have "[0..<8::nat] = [0, 1, 2, 3, 4, 5, 6, 7]" by (simp add: upt_rec)
  moreover have "sy_hist ?s = [0..<8]" by simp
  ultimately have ev: "events (sy_hist ?s) 0 (7 + 1) = [(0, 0), (1, 1), (2, 2), (3, 3), (4, 4), (5, 5), (6, 6), (7, 7)]"
    and list: "[0, 1, 2, 3, 4, 5, 6, 7] = [0..<8::nat]" by (simp_all add: events_def)
  have "int n = 7 - 0 + 1" "acc' = fold (\<lambda>(q, e). ?f e q) (events (sy_hist ?s) 0 (7 + 1)) []"
    using refines by blast+
  then have out: "n = 8" "acc' = [0..<8]" unfolding ev using list by simp_all
  let ?t = "?s\<lparr>sy_shared := sh', sy_readers := (sy_readers ?s)[1 :=
           second\<lparr>rd_consumer := c', rd_seen := rd_seen second @ events (sy_hist ?s) 0 (7 + 1)\<rparr>]\<rparr>"
  have "run 1 ?s ?t" "cn_last c' = 7" using refines by blast+
  moreover have "map fst (rd_seen (sy_readers ?t ! 1)) = [0..7]" using phase by (simp add: events_def o_def)
  ultimately show ?thesis using p unfolding out by blast
qed

end
