(* ===== verification/Builder.thy ===== *)
theory Builder
  imports Disruptor
begin

text \<open>
  The builder of the shared-memory backend (\<open>disruptor-mp/src/builder.rs\<close>): consumer ids,
  the wait strategies of automatic consumers, core selection from the environment, the
  construction of producers and consumers, and the thread that hands events to a handler until
  it is told to stop. The ring segment lives in the operating system of theory RingBuffers,
  the cursors in the world of theory Barrier; the text of a cursor error is a parameter.
\<close>

section \<open>Consumer ids\<close>

definition create_consumer_registration_cursor ::
  "string \<Rightarrow> discovery_mode \<Rightarrow> world \<Rightarrow> handle option \<times> world" where
  "create_consumer_registration_cursor base_name mode w =
     (if \<not> uses_registered_auto_ids mode then (None, w)
      else (case new_or_attach w (consumer_registration_cursor_name base_name) 0 of
              (h, w1) \<Rightarrow> (Some h, w1)))"

definition allocate_registered_consumer_id :: "string \<Rightarrow> world \<Rightarrow> string option \<times> world" where
  "allocate_registered_consumer_id base_name w =
     (case attach w (consumer_registration_cursor_name base_name) of
        None \<Rightarrow> (None, w)
      | Some registration \<Rightarrow>
          (case fetch_add w registration 1 of
             (slot, w1) \<Rightarrow> (if slot < 0 then None else Some (auto_consumer_id (nat slot)), w1)))"

text \<open>\<open>CONSUMER_COUNTER\<close> is the process-wide counter; \<open>fetch_add\<close> on it wraps.\<close>

definition legacy_consumer_id :: "nat \<Rightarrow> usize \<Rightarrow> string" where
  "legacy_consumer_id process_id consumer_counter =
     ''c'' @ show_nat (process_id mod 10000) @ ''_'' @ show_nat (unat consumer_counter)"

definition default_consumer_id :: "nat \<Rightarrow> string \<Rightarrow> world \<times> usize \<Rightarrow> string \<times> world \<times> usize" where
  "default_consumer_id process_id base_name st =
     (case st of (w, counter) \<Rightarrow>
        (case allocate_registered_consumer_id base_name w of
           (Some consumer, w1) \<Rightarrow> (consumer, w1, counter)
         | (None, w1) \<Rightarrow> (legacy_consumer_id process_id counter, w1, counter + 1)))"

section \<open>Wait strategies\<close>

datatype auto_wait_strategy =
    BusySpin
  | BusySpinWithSpinLoopHint
  | SpinThenYield nat
  | Sleep nat
  | Block

definition auto_wait_default :: auto_wait_strategy where
  "auto_wait_default = Block"

definition auto_wait_high_performance :: auto_wait_strategy where
  "auto_wait_high_performance = BusySpin"

definition auto_wait_high_performance_with_hints :: auto_wait_strategy where
  "auto_wait_high_performance_with_hints = BusySpinWithSpinLoopHint"

definition auto_wait_spin_then_yield :: "nat \<Rightarrow> auto_wait_strategy" where
  "auto_wait_spin_then_yield spins = SpinThenYield spins"

definition auto_wait_cpu_efficient :: auto_wait_strategy where
  "auto_wait_cpu_efficient = Sleep (from_micros 1)"

definition auto_wait_sleep :: "nat \<Rightarrow> auto_wait_strategy" where
  "auto_wait_sleep duration = Sleep duration"

definition auto_wait_sleep_nanos :: "nat \<Rightarrow> auto_wait_strategy" where
  "auto_wait_sleep_nanos nanos = (if nanos = 0 then BusySpinWithSpinLoopHint else Sleep nanos)"

definition auto_wait_sleep_micros :: "nat \<Rightarrow> auto_wait_strategy" where
  "auto_wait_sleep_micros micros =
     (if micros = 0 then BusySpinWithSpinLoopHint else Sleep (from_micros micros))"

definition auto_wait_from_env_or :: "environment \<Rightarrow> auto_wait_strategy \<Rightarrow> auto_wait_strategy" where
  "auto_wait_from_env_or env fallback =
     (case env_parse parse_u64 env ''MYELON_AUTO_WAIT_DELAY_NS'' of
        Some nanos \<Rightarrow> auto_wait_sleep_nanos nanos
      | None \<Rightarrow>
          (case env_parse parse_u64 env ''MYELON_AUTO_WAIT_DELAY_US'' of
             Some micros \<Rightarrow> auto_wait_sleep_micros micros
           | None \<Rightarrow> fallback))"

text \<open>How a producer that polls a deadline passes the time (\<open>apply_wait_strategy\<close>), and how the
  thread of an automatic consumer does when it found nothing.\<close>

definition apply_wait_strategy :: "sleep_config \<Rightarrow> auto_wait_strategy \<Rightarrow> wait_action list" where
  "apply_wait_strategy cfg strategy =
     (case strategy of
        BusySpin \<Rightarrow> [SpinLoopHint]
      | BusySpinWithSpinLoopHint \<Rightarrow> [SpinLoopHint]
      | SpinThenYield spins \<Rightarrow> replicate spins SpinLoopHint @ [YieldNow]
      | Block \<Rightarrow> [perform_default_block_wait cfg]
      | Sleep d \<Rightarrow> [sleep_or_yield cfg d])"

definition auto_idle_wait :: "sleep_config \<Rightarrow> auto_wait_strategy \<Rightarrow> wait_action list" where
  "auto_idle_wait cfg strategy =
     (case strategy of
        BusySpin \<Rightarrow> []
      | BusySpinWithSpinLoopHint \<Rightarrow> [SpinLoopHint]
      | SpinThenYield spins \<Rightarrow> replicate spins SpinLoopHint @ [YieldNow]
      | Block \<Rightarrow> [perform_default_block_wait cfg]
      | Sleep d \<Rightarrow> [sleep_or_yield cfg d])"

section \<open>Core selection\<close>

text \<open>\<open>std::env::var\<close> distinguishes a missing variable from one that is not Unicode. The result
  carries the messages printed on standard error.\<close>

datatype env_var = Present string | NotPresent | NotUnicode

fun resolve_core_from_env_vars :: "(string \<Rightarrow> env_var) \<Rightarrow> string list \<Rightarrow> nat option \<times> string list" where
  "resolve_core_from_env_vars env [] = (None, [])"
| "resolve_core_from_env_vars env (key # keys) =
     (case env key of
        Present raw \<Rightarrow>
          (case parse_u64 raw of
             Some core_id \<Rightarrow> (Some core_id, [])
           | None \<Rightarrow> (None, [''Invalid '' @ key @ ''='' @ quoted raw
                             @ ''. Expected a non-negative integer.'']))
      | NotPresent \<Rightarrow> resolve_core_from_env_vars env keys
      | NotUnicode \<Rightarrow> (None, [''Invalid '' @ key @ '': value is not valid Unicode.'']))"

datatype process_role = ProducerRole | ConsumerRole

definition role_env_var :: "process_role \<Rightarrow> string" where
  "role_env_var role =
     (case role of ProducerRole \<Rightarrow> ''MYELON_PRODUCER_CORE'' | ConsumerRole \<Rightarrow> ''MYELON_CONSUMER_CORE'')"

definition role_label :: "process_role \<Rightarrow> string" where
  "role_label role =
     (case role of ProducerRole \<Rightarrow> ''producer process'' | ConsumerRole \<Rightarrow> ''consumer process'')"

definition resolve_auto_consumer_core :: "(string \<Rightarrow> env_var) \<Rightarrow> nat option \<Rightarrow> nat option \<times> string list" where
  "resolve_auto_consumer_core env consumer_core =
     (case consumer_core of
        Some core_id \<Rightarrow> (Some core_id, [])
      | None \<Rightarrow> resolve_core_from_env_vars env [''MYELON_AUTO_CONSUMER_CORE''])"

definition resolve_process_core ::
  "(string \<Rightarrow> env_var) \<Rightarrow> nat option \<Rightarrow> process_role \<Rightarrow> nat option \<times> string list" where
  "resolve_process_core env process_core role =
     (case process_core of
        Some core_id \<Rightarrow> (Some core_id, [])
      | None \<Rightarrow> resolve_core_from_env_vars env [role_env_var role, ''MYELON_PROCESS_CORE''])"

text \<open>Pinning on Linux, over the answers of the affinity library; the result is whether the
  thread was pinned and the message otherwise.\<close>

definition pin_current_thread_to_core ::
  "nat list option \<Rightarrow> (nat \<Rightarrow> bool) \<Rightarrow> nat \<Rightarrow> string \<Rightarrow> bool \<times> string list" where
  "pin_current_thread_to_core core_ids set_for_current core_id thread_name =
     (let available_cores = (case core_ids of None \<Rightarrow> [] | Some ids \<Rightarrow> ids) in
      if core_id \<notin> set available_cores
      then (False, [''Could not pin '' @ thread_name @ '' to core '' @ show_nat core_id
                    @ '': core not available.''])
      else if \<not> set_for_current core_id
      then (False, [''Could not pin '' @ thread_name @ '' to core '' @ show_nat core_id @ ''.''])
      else (True, []))"

definition maybe_pin_process_to_core ::
  "(string \<Rightarrow> env_var) \<Rightarrow> nat list option \<Rightarrow> (nat \<Rightarrow> bool) \<Rightarrow> nat option \<Rightarrow> process_role
    \<Rightarrow> bool \<times> string list" where
  "maybe_pin_process_to_core env core_ids set_for_current process_core role =
     (case resolve_process_core env process_core role of
        (Some core_id, msgs) \<Rightarrow>
          (case pin_current_thread_to_core core_ids set_for_current core_id (role_label role) of
             (pinned, msgs1) \<Rightarrow> (pinned, msgs @ msgs1))
      | (None, msgs) \<Rightarrow> (False, msgs))"

section \<open>The builder and its setters\<close>

record builder =
  bd_config :: shared_memory_config
  bd_coordination_mode :: "coordination_mode option"
  bd_discovery_mode :: "discovery_mode option"
  bd_consumer_id :: "string option"
  bd_process_core :: "nat option"
  bd_consumer_core :: "nat option"
  bd_coordination_timeout :: "nat option"

definition builder_new :: "shared_memory_config \<Rightarrow> builder" where
  "builder_new config =
     \<lparr> bd_config = config, bd_coordination_mode = None, bd_discovery_mode = None,
       bd_consumer_id = None, bd_process_core = None, bd_consumer_core = None,
       bd_coordination_timeout = None \<rparr>"

definition with_coordination_timeout :: "nat \<Rightarrow> builder \<Rightarrow> builder" where
  "with_coordination_timeout timeout b = b\<lparr>bd_coordination_timeout := Some timeout\<rparr>"

definition with_coordination :: "coordination_mode \<Rightarrow> builder \<Rightarrow> builder" where
  "with_coordination mode b = b\<lparr>bd_coordination_mode := Some mode\<rparr>"

definition with_discovery :: "discovery_mode \<Rightarrow> builder \<Rightarrow> builder" where
  "with_discovery mode b = b\<lparr>bd_discovery_mode := Some mode\<rparr>"

definition disable_discovery :: "builder \<Rightarrow> builder" where
  "disable_discovery b = with_discovery Disabled b"

text \<open>The convenience setters panic (\<open>None\<close>) where the constructors of the modes assert.\<close>

definition enable_discovery :: "sleep_config \<Rightarrow> nat \<Rightarrow> builder \<Rightarrow> builder option" where
  "enable_discovery cfg max_consumers b =
     map_option (\<lambda>mode. with_discovery mode b) (discovery_enabled cfg max_consumers)"

definition discover_consumer_with_prefix :: "sleep_config \<Rightarrow> nat \<Rightarrow> string \<Rightarrow> builder \<Rightarrow> builder option" where
  "discover_consumer_with_prefix cfg max_consumers prefix b =
     map_option (\<lambda>mode. with_discovery mode b) (discovery_with_consumer_prefix cfg max_consumers prefix)"

definition with_discovery_interval :: "nat \<Rightarrow> nat \<Rightarrow> builder \<Rightarrow> builder option" where
  "with_discovery_interval max_consumers scan_interval b =
     map_option (\<lambda>mode. with_discovery mode b) (discovery_with_scan_interval max_consumers scan_interval)"

definition discover_consumer_with_prefix_and_interval ::
  "nat \<Rightarrow> string \<Rightarrow> nat \<Rightarrow> builder \<Rightarrow> builder option" where
  "discover_consumer_with_prefix_and_interval max_consumers prefix scan_interval b =
     map_option (\<lambda>mode. with_discovery mode b)
       (discovery_with_consumer_prefix_and_interval max_consumers prefix scan_interval)"

definition builder_wait_for_single_consumer :: "nat \<Rightarrow> builder \<Rightarrow> builder option" where
  "builder_wait_for_single_consumer timeout b =
     map_option (\<lambda>mode. with_coordination mode b) (wait_for_single_consumer timeout)"

definition builder_wait_for_consumers :: "int \<Rightarrow> nat \<Rightarrow> builder \<Rightarrow> builder option" where
  "builder_wait_for_consumers min_consumers timeout b =
     map_option (\<lambda>mode. with_coordination mode b) (wait_for_consumers min_consumers timeout)"

definition with_consumer_id :: "string \<Rightarrow> builder \<Rightarrow> builder" where
  "with_consumer_id consumer b = b\<lparr>bd_consumer_id := Some consumer\<rparr>"

definition with_consumer_core :: "nat \<Rightarrow> builder \<Rightarrow> builder" where
  "with_consumer_core core_id b = b\<lparr>bd_consumer_core := Some core_id\<rparr>"

definition with_process_core :: "nat \<Rightarrow> builder \<Rightarrow> builder" where
  "with_process_core core_id b = b\<lparr>bd_process_core := Some core_id\<rparr>"

definition build_shared_single_producer :: "element_type \<Rightarrow> string \<Rightarrow> nat \<Rightarrow> builder" where
  "build_shared_single_producer et name n =
     builder_new \<lparr> smc_name = name, smc_buffer_size = n, smc_element_size = unat (et_size et),
                   smc_create = True \<rparr>"

definition attach_shared_consumer :: "element_type \<Rightarrow> string \<Rightarrow> nat \<Rightarrow> builder" where
  "attach_shared_consumer et name n =
     builder_new \<lparr> smc_name = name, smc_buffer_size = n, smc_element_size = unat (et_size et),
                   smc_create = False \<rparr>"

section \<open>Building a consumer\<close>

text \<open>The state a builder works on: the segments of the operating system, the cursors, and the
  counter of the process. Cursors unlink their name when their owner drops them.\<close>

record 's build_state =
  bs_os :: 's
  bs_world :: world
  bs_counter :: usize

definition unlink_cursor :: "string \<Rightarrow> world \<Rightarrow> world" where
  "unlink_cursor name w = w\<lparr>w_names := (w_names w)(name := None)\<rparr>"

definition attach_or :: "(string \<Rightarrow> mp_error) \<Rightarrow> world \<Rightarrow> string \<Rightarrow> handle mp_result" where
  "attach_or missing w name = ok_or (missing name) (attach w name)"

definition producer_seq_name :: "string \<Rightarrow> string" where
  "producer_seq_name base = base @ ''_producer_seq''"

text \<open>The id of a new consumer: the configured one, or the next default one.\<close>

definition builder_consumer_id :: "nat \<Rightarrow> builder \<Rightarrow> world \<times> usize \<Rightarrow> string \<times> world \<times> usize" where
  "builder_consumer_id pid b st =
     (case bd_consumer_id b of
        Some custom_id \<Rightarrow> (custom_id, st)
      | None \<Rightarrow> default_consumer_id pid (smc_name (bd_config b)) st)"

text \<open>\<open>build_consumer\<close>. The consumer's own cursor is created or reopened at its last position and
  given up as an owner, so its name outlives the process.\<close>

definition build_consumer ::
  "'s shm_os \<Rightarrow> (string \<Rightarrow> mp_error) \<Rightarrow> element_type \<Rightarrow> nat \<Rightarrow> builder \<Rightarrow> 's build_state
    \<Rightarrow> (consumer mp_result \<times> 's build_state) option" where
  "build_consumer os missing et pid b st =
     (let base = smc_name (bd_config b) in
      case ring_attach os (bs_os st) et (bd_config b) of
        None \<Rightarrow> None
      | Some (Inl e) \<Rightarrow> Some (Inl e, st)
      | Some (Inr r) \<Rightarrow>
          (case attach_or missing (bs_world st) (producer_seq_name base) of
             Inl e \<Rightarrow> Some (Inl e, st\<lparr>bs_os := ring_drop os (bs_os st) r\<rparr>)
           | Inr producer_sequence \<Rightarrow>
               (case builder_consumer_id pid b (bs_world st, bs_counter st) of
                  (consumer, w1, counter) \<Rightarrow>
                    (case new_or_attach w1 (sequence_name base consumer) (-1) of
                       (h, w2) \<Rightarrow>
                         (case consumer_new w2 r producer_sequence h consumer (Some base) of
                            None \<Rightarrow> None
                          | Some (c, w3) \<Rightarrow>
                              Some (Inr c, st\<lparr>bs_world := w3, bs_counter := counter\<rparr>))))))"

section \<open>Building a producer\<close>

definition adaptive_timeout :: "nat \<Rightarrow> nat" where
  "adaptive_timeout max_consumers =
     (if max_consumers = 1 then from_secs 15
      else if max_consumers = 2 then from_secs 20
      else if 3 \<le> max_consumers \<and> max_consumers \<le> 4 then from_secs 25
      else if 5 \<le> max_consumers \<and> max_consumers \<le> 8 then from_secs 30
      else from_secs 45)"

definition effective_coordination :: "builder \<Rightarrow> discovery_mode \<Rightarrow> coordination_mode option" where
  "effective_coordination b discovery_mode =
     (case bd_coordination_mode b of
        Some mode \<Rightarrow> Some mode
      | None \<Rightarrow>
          (case discovery_mode of
             Enabled max_consumers _ _ \<Rightarrow>
               (let timeout = (case bd_coordination_timeout b of
                                 Some t \<Rightarrow> t
                               | None \<Rightarrow> adaptive_timeout max_consumers) in
                wait_for_consumers (usize_as_i64 (of_nat max_consumers)) timeout)
           | Disabled \<Rightarrow> Some coordination_default))"

text \<open>The start-up wait of \<open>build_producer\<close>, over the observations of its loop; the producer is
  handed out whether or not the consumers arrived in time.\<close>

definition coordinate_startup ::
  "nat \<Rightarrow> nat \<Rightarrow> coordination_mode \<Rightarrow> producer \<Rightarrow> observation list \<Rightarrow> (bool \<times> producer) outcome" where
  "coordinate_startup pid start mode p obs =
     (case mode of
        Immediate \<Rightarrow> Returns (True, p\<lparr>pd_coordination_completed := True\<rparr>)
      | WaitForConsumers min_consumers timeout \<Rightarrow>
          bind_outcome (wait_for_consumers_ready (pd_barrier p) pid min_consumers start timeout obs)
            (\<lambda>(coordination_ready, _).
               Returns (coordination_ready, p\<lparr>pd_coordination_completed := True\<rparr>))
      | BufferUntilConsumers _ \<Rightarrow> Returns (True, p\<lparr>pd_coordination_completed := True\<rparr>))"

text \<open>An owned registration cursor that is dropped on an error path takes its name with it.\<close>

definition drop_registration :: "world \<Rightarrow> handle option \<Rightarrow> world \<Rightarrow> world" where
  "drop_registration before registration w =
     (case registration of
        None \<Rightarrow> w
      | Some (name, _) \<Rightarrow> if w_names before name = None then unlink_cursor name w else w)"

definition build_producer ::
  "'s shm_os \<Rightarrow> (string \<Rightarrow> mp_error) \<Rightarrow> element_type \<Rightarrow> nat \<Rightarrow> nat \<Rightarrow> builder
    \<Rightarrow> (nat \<Rightarrow> u8 list) \<Rightarrow> counters_file \<Rightarrow> 's build_state \<Rightarrow> observation list
    \<Rightarrow> (producer mp_result \<times> 's build_state) outcome" where
  "build_producer os taken et pid now b factory counters st obs =
     (let base = smc_name (bd_config b);
          discovery_mode = (case bd_discovery_mode b of None \<Rightarrow> discovery_default | Some m \<Rightarrow> m);
          w0 = bs_world st in
      case create_consumer_registration_cursor base discovery_mode w0 of
        (registration, w1) \<Rightarrow>
          (case ring_new os (bs_os st) et (bd_config b) factory of
             None \<Rightarrow> Panics
           | Some (Inl e, s1) \<Rightarrow>
               Returns (Inl e, st\<lparr>bs_os := s1, bs_world := drop_registration w0 registration w1\<rparr>)
           | Some (Inr r, s1) \<Rightarrow>
               (case create w1 (producer_seq_name base) (-1) of
                  None \<Rightarrow>
                    Returns (Inl (taken (producer_seq_name base)),
                             st\<lparr>bs_os := ring_drop os s1 r,
                                bs_world := drop_registration w0 registration w1\<rparr>)
                | Some (h, w2) \<Rightarrow>
                    (case effective_coordination b discovery_mode of
                       None \<Rightarrow> Panics
                     | Some mode \<Rightarrow>
                         (case producer_new \<lparr> sh_world = w2, sh_slots = [] :: unit list,
                                               sh_counters = counters \<rparr>
                                 pid now r h base mode discovery_mode registration of
                            None \<Rightarrow> Panics
                          | Some (p, sh) \<Rightarrow>
                              bind_outcome (coordinate_startup pid now mode p obs)
                                (\<lambda>(_, p1). Returns (Inr p1, st\<lparr>bs_os := s1, bs_world := sh_world sh\<rparr>)))))))"

section \<open>The automatic consumer\<close>

text \<open>The handle to the thread, and the thread itself: one turn of its loop sees some states of
  the shared memory and, when it found nothing, the stop flag.\<close>

record auto_consumer =
  ac_joinable :: bool
  ac_shutdown :: bool

definition auto_consumer_new :: auto_consumer where
  "auto_consumer_new = \<lparr> ac_joinable = True, ac_shutdown = False \<rparr>"

definition auto_shutdown :: "auto_consumer \<Rightarrow> auto_consumer" where
  "auto_shutdown a = a\<lparr>ac_shutdown := True\<rparr>"

definition auto_join :: "auto_consumer \<Rightarrow> auto_consumer" where
  "auto_join a = a\<lparr>ac_joinable := False\<rparr>"

definition auto_shutdown_and_join :: "auto_consumer \<Rightarrow> auto_consumer" where
  "auto_shutdown_and_join a = auto_join (auto_shutdown a)"

definition auto_is_running :: "auto_consumer \<Rightarrow> bool" where
  "auto_is_running a \<longleftrightarrow> ac_joinable a \<and> \<not> ac_shutdown a"

text \<open>\<open>Drop\<close>: raise the flag and, when the thread was not joined yet, sleep and join it.\<close>

definition auto_drop :: "sleep_config \<Rightarrow> auto_consumer \<Rightarrow> wait_action list \<times> auto_consumer" where
  "auto_drop cfg a =
     (let a1 = auto_shutdown a in
      if ac_joinable a1 then ([SleepFor (shutdown_grace_duration cfg)], auto_join a1) else ([], a1))"

type_synonym 'e turn = "'e shared list \<times> bool"

fun auto_loop ::
  "sleep_config \<Rightarrow> auto_wait_strategy \<Rightarrow> ('e \<Rightarrow> int \<Rightarrow> bool \<Rightarrow> 'a \<Rightarrow> 'a) \<Rightarrow> 'a \<Rightarrow> consumer
    \<Rightarrow> 'e shared \<Rightarrow> 'e turn list \<Rightarrow> wait_action list
    \<Rightarrow> ('a \<times> consumer \<times> 'e shared \<times> wait_action list) outcome" where
  "auto_loop cfg strategy handler acc c sh [] waits = Waiting"
| "auto_loop cfg strategy handler acc c sh ((views, shutdown) # turns) waits =
     bind_outcome (process_available (\<lambda>e s. handler e s False) acc c sh views)
       (\<lambda>(processed, acc1, c1, sh1).
          let waits1 = (if processed = 0 then waits @ auto_idle_wait cfg strategy else waits) in
          if processed = 0 \<and> shutdown then Returns (acc1, c1, sh1, waits1)
          else auto_loop cfg strategy handler acc1 c1 sh1 turns waits1)"

text \<open>\<open>handle_events_batch\<close>: the same construction as \<open>build_consumer\<close>, then the thread with its
  flag clear; \<open>handle_events_with\<close> uses the default strategy.\<close>

definition handle_events_batch ::
  "'s shm_os \<Rightarrow> (string \<Rightarrow> mp_error) \<Rightarrow> element_type \<Rightarrow> nat \<Rightarrow> sleep_config \<Rightarrow> builder
    \<Rightarrow> auto_wait_strategy \<Rightarrow> ('e \<Rightarrow> int \<Rightarrow> bool \<Rightarrow> 'a \<Rightarrow> 'a) \<Rightarrow> 'a \<Rightarrow> 's build_state
    \<Rightarrow> ((auto_consumer \<times> ('e shared \<Rightarrow> 'e turn list
          \<Rightarrow> ('a \<times> consumer \<times> 'e shared \<times> wait_action list) outcome)) mp_result \<times> 's build_state) option" where
  "handle_events_batch os missing et pid cfg b strategy handler acc st =
     (case build_consumer os missing et pid b st of
        None \<Rightarrow> None
      | Some (Inl e, st1) \<Rightarrow> Some (Inl e, st1)
      | Some (Inr c, st1) \<Rightarrow>
          Some (Inr (auto_consumer_new, \<lambda>sh turns. auto_loop cfg strategy handler acc c sh turns []), st1))"

definition handle_events_with where
  "handle_events_with os missing et pid cfg b handler acc st =
     handle_events_batch os missing et pid cfg b auto_wait_default handler acc st"

section \<open>What the automatic consumer delivers\<close>

text \<open>A view of the shared memory shows a history to a consumer at position \<open>k\<close> when every slot
  from there up to the producer's cursor holds the event of the history.\<close>

definition view_limit :: "consumer \<Rightarrow> 'e shared \<Rightarrow> int" where
  "view_limit c sh = load (sh_world sh) (cn_producer c)"

definition view_shows :: "'e list \<Rightarrow> consumer \<Rightarrow> int \<Rightarrow> 'e shared \<Rightarrow> bool" where
  "view_shows hist c k sh \<longleftrightarrow>
     view_limit c sh < seq_limit
     \<and> (\<forall>q. k < q \<and> q \<le> view_limit c sh \<longrightarrow>
          nat q < length hist \<and> read_slot (cn_ring c) (sh_slots sh) q = Some (hist ! nat q))"

fun views_show :: "'e list \<Rightarrow> consumer \<Rightarrow> int \<Rightarrow> 'e shared list \<Rightarrow> bool" where
  "views_show hist c k [] \<longleftrightarrow> True"
| "views_show hist c k (v # vs) \<longleftrightarrow>
     view_shows hist c k v \<and> (k < view_limit c v \<longrightarrow> views_show hist c (view_limit c v) vs)"

text \<open>The position after one turn, \<open>None\<close> when the views run out first.\<close>

fun drained :: "consumer \<Rightarrow> int \<Rightarrow> 'e shared list \<Rightarrow> int option" where
  "drained c k [] = None"
| "drained c k (v # vs) = (if view_limit c v \<le> k then Some k else drained c (view_limit c v) vs)"

fun turns_show :: "'e list \<Rightarrow> consumer \<Rightarrow> int \<Rightarrow> 'e turn list \<Rightarrow> bool" where
  "turns_show hist c k [] \<longleftrightarrow> True"
| "turns_show hist c k ((views, shutdown) # turns) \<longleftrightarrow>
     views_show hist c k views
     \<and> (case drained c k views of None \<Rightarrow> True | Some k' \<Rightarrow> turns_show hist c k' turns)"

text \<open>Where the loop stops: the first turn that finds nothing while the flag is up.\<close>

fun stops_at :: "consumer \<Rightarrow> int \<Rightarrow> 'e turn list \<Rightarrow> int option" where
  "stops_at c k [] = None"
| "stops_at c k ((views, shutdown) # turns) =
     (case drained c k views of
        None \<Rightarrow> None
      | Some k' \<Rightarrow> if k' = k \<and> shutdown then Some k else stops_at c k' turns)"

lemma drained_ge: "drained c k views = Some k' \<Longrightarrow> k \<le> k'"
  by (induction c k views rule: drained.induct) (fastforce split: if_splits)+

lemma view_limit_last [simp]: "view_limit (c\<lparr>cn_last := k\<rparr>) = view_limit c"
  by (simp add: view_limit_def fun_eq_iff)

lemma view_shows_last [simp]: "view_shows hist (c\<lparr>cn_last := j\<rparr>) k sh = view_shows hist c k sh"
  by (simp add: view_shows_def)

lemma views_show_last [simp]: "views_show hist (c\<lparr>cn_last := j\<rparr>) k vs = views_show hist c k vs"
  by (induction c k vs rule: drained.induct) simp_all

lemma drained_last [simp]: "drained (c\<lparr>cn_last := j\<rparr>) k vs = drained c k vs"
  by (induction c k vs rule: drained.induct) simp_all

lemma turns_show_last [simp]: "turns_show hist (c\<lparr>cn_last := j\<rparr>) k ts = turns_show hist c k ts"
  by (induction hist c k ts rule: turns_show.induct) (simp_all split: option.splits)

lemma stops_at_last [simp]: "stops_at (c\<lparr>cn_last := j\<rparr>) k ts = stops_at c k ts"
  by (induction c k ts rule: stops_at.induct) (simp_all split: option.splits)

lemma events_split:
  assumes "0 \<le> a" "a \<le> b" "b \<le> d"
  shows "events hist a d = events hist a b @ events hist b d"
proof -
  have "[a..d - 1] = [a..b - 1] @ [b..d - 1]"
    using assms upto_split1 [of a b "d - 1"] by (cases "b = d") simp_all
  then show ?thesis by (simp add: events_def)
qed

lemma bounds_of_view:
  assumes "-1 \<le> cn_last c" "cn_last c < seq_limit"
  shows "available_batch_bounds c (sh_world v)
     = Some (if view_limit c v \<le> cn_last c then None else Some (cn_last c + 1, view_limit c v))"
proof -
  have "wrap_i64 (cn_last c + 1) = cn_last c + 1"
    using assms by (intro wrap_i64_id) (simp add: seq_limit_def i64_simps)
  then show ?thesis using assms by (simp add: available_batch_bounds_def view_limit_def Let_def)
qed

text \<open>One turn: the callback gets the events up to the last view's cursor, in order.\<close>

lemma drain_history:
  assumes "-1 \<le> cn_last c" "cn_last c < seq_limit" "views_show hist c (cn_last c) views"
  shows "(case drained c (cn_last c) views of
       None \<Rightarrow> drain (\<lambda>l u. process_snapshot_batch l u f) n acc c sh views = Waiting
     | Some k \<Rightarrow> \<exists>sh'. drain (\<lambda>l u. process_snapshot_batch l u f) n acc c sh views
          = Returns (n + nat (k - cn_last c),
              fold (\<lambda>(q, e). f e q) (events hist (cn_last c + 1) (k + 1)) acc, c\<lparr>cn_last := k\<rparr>, sh'))"
  using assms
proof (induction views arbitrary: n acc c sh)
  case (Cons v vs)
  note bounds = bounds_of_view [OF Cons.prems(1,2), of v]
  let ?p = "view_limit c v"
  show ?case
  proof (cases "?p \<le> cn_last c")
    case True
    then show ?thesis using bounds by (simp add: events_def)
  next
    case False
    have show_v: "view_shows hist c (cn_last c) v" and rest: "views_show hist c ?p vs"
      using Cons.prems(3) False by simp_all
    have "fold_events (cn_ring c) (sh_slots v) (cn_last c + 1) (nat (?p - cn_last c)) f acc
        = Some (fold (\<lambda>(q, e). f e q)
            (events hist (cn_last c + 1) (cn_last c + 1 + int (nat (?p - cn_last c)))) acc)"
      by (rule fold_events_history) (use show_v False in \<open>auto simp: view_shows_def\<close>)
    moreover have "cn_last c + 1 + int (nat (?p - cn_last c)) = ?p + 1" using False by simp
    ultimately have folded: "fold_events (cn_ring c) (sh_slots v) (cn_last c + 1) (nat (?p - cn_last c)) f acc
        = Some (fold (\<lambda>(q, e). f e q) (events hist (cn_last c + 1) (?p + 1)) acc)"
      by (simp only:)
    let ?c1 = "c\<lparr>cn_last := ?p\<rparr>" and ?acc1 = "fold (\<lambda>(q, e). f e q) (events hist (cn_last c + 1) (?p + 1)) acc"
    obtain sh1 where batch: "process_snapshot_batch (cn_last c + 1) ?p f acc c v
        = Some (nat (?p - cn_last c), ?acc1, ?c1, sh1)"
      using folded by (simp add: process_snapshot_batch_def Let_def publish_consumed_sequence_def)
    have range: "-1 \<le> cn_last ?c1" "cn_last ?c1 < seq_limit" "views_show hist ?c1 (cn_last ?c1) vs"
      using Cons.prems False show_v rest by (simp_all add: view_shows_def)
    note IH = Cons.IH [OF range, of "n + nat (?p - cn_last c)" ?acc1 sh1]
    show ?thesis
    proof (cases "drained c ?p vs")
      case None
      then show ?thesis using IH False bounds batch by simp
    next
      case (Some k)
      have k: "?p \<le> k" using drained_ge [OF Some] .
      have "events hist (cn_last c + 1) (k + 1)
          = events hist (cn_last c + 1) (?p + 1) @ events hist (?p + 1) (k + 1)"
        using Cons.prems(1) False k by (intro events_split) simp_all
      then show ?thesis using IH Some False bounds batch k by (auto simp: nat_diff_distrib')
    qed
  qed
qed simp

lemma process_available_history:
  assumes "-1 \<le> cn_last c" "cn_last c < seq_limit" "views_show hist c (cn_last c) views"
  shows "drained c (cn_last c) views = None \<Longrightarrow> process_available f acc c sh views = Waiting"
    and "drained c (cn_last c) views = Some k \<Longrightarrow>
      \<exists>sh'. process_available f acc c sh views
        = Returns (nat (k - cn_last c),
            fold (\<lambda>(q, e). f e q) (events hist (cn_last c + 1) (k + 1)) acc, c\<lparr>cn_last := k\<rparr>, sh')"
  using drain_history [OF assms, of f 0 acc sh] by (auto simp: process_available_def)

lemma drained_limit:
  assumes "k < seq_limit" "views_show hist c k views" "drained c k views = Some k'"
  shows "k' < seq_limit"
  using assms
  by (induction views arbitrary: k) (auto simp: view_shows_def split: if_splits)

text \<open>C27. The automatic consumer. Whatever the wait strategy, the thread never panics and hands
  the handler exactly the events of the history behind its position, in order and once each,
  with the end-of-batch flag clear on every one of them. It stops at the first turn that finds
  nothing new while the stop flag is up, with every event it could see delivered; while events
  keep arriving it does not look at the flag.\<close>

theorem auto_loop_delivers:
  assumes "-1 \<le> cn_last c" "cn_last c < seq_limit" "turns_show hist c (cn_last c) turns"
  shows "(case stops_at c (cn_last c) turns of
       None \<Rightarrow> auto_loop cfg strategy handler acc c sh turns waits = Waiting
     | Some k \<Rightarrow> \<exists>sh' waits'. auto_loop cfg strategy handler acc c sh turns waits
          = Returns (fold (\<lambda>(q, e). handler e q False) (events hist (cn_last c + 1) (k + 1)) acc,
              c\<lparr>cn_last := k\<rparr>, sh', waits') \<and> cn_last c \<le> k)"
  using assms
proof (induction turns arbitrary: acc c sh waits)
  case (Cons turn turns)
  obtain views shutdown where turn: "turn = (views, shutdown)" by (cases turn)
  have views: "views_show hist c (cn_last c) views" using Cons.prems(3) by (simp add: turn)
  note turn_result = process_available_history [OF Cons.prems(1,2) views]
  show ?case
  proof (cases "drained c (cn_last c) views")
    case None
    then show ?thesis
      using turn_result(1) [of "\<lambda>e s. handler e s False" acc sh] by (simp add: turn)
  next
    case (Some k)
    let ?acc1 = "fold (\<lambda>(q, e). handler e q False) (events hist (cn_last c + 1) (k + 1)) acc"
    obtain sh1 where sh1: "process_available (\<lambda>e s. handler e s False) acc c sh views
        = Returns (nat (k - cn_last c), ?acc1, c\<lparr>cn_last := k\<rparr>, sh1)"
      using turn_result(2) [OF Some, of "\<lambda>e s. handler e s False" acc sh] by blast
    have k: "cn_last c \<le> k" "k < seq_limit"
      using drained_ge [OF Some] drained_limit [OF Cons.prems(2) views Some] by simp_all
    show ?thesis
    proof (cases "k = cn_last c \<and> shutdown")
      case True
      then show ?thesis using Some sh1 by (simp add: turn)
    next
      case False
      define W where "W = (if nat (k - cn_last c) = 0 then waits @ auto_idle_wait cfg strategy else waits)"
      have rest: "turns_show hist c k turns" using Cons.prems(3) Some by (simp add: turn)
      have IH: "case stops_at c k turns of
          None \<Rightarrow> auto_loop cfg strategy handler ?acc1 (c\<lparr>cn_last := k\<rparr>) sh1 turns W = Waiting
        | Some k' \<Rightarrow> \<exists>sh' waits'. auto_loop cfg strategy handler ?acc1 (c\<lparr>cn_last := k\<rparr>) sh1 turns W
            = Returns (fold (\<lambda>(q, e). handler e q False) (events hist (k + 1) (k' + 1)) ?acc1,
                c\<lparr>cn_last := k'\<rparr>, sh', waits') \<and> k \<le> k'"
        using Cons.IH [of "c\<lparr>cn_last := k\<rparr>" ?acc1 sh1 W] Cons.prems k rest
        by (simp cong: option.case_cong)
      have loop: "auto_loop cfg strategy handler acc c sh (turn # turns) waits
          = auto_loop cfg strategy handler ?acc1 (c\<lparr>cn_last := k\<rparr>) sh1 turns W"
        using False sh1 k by (auto simp: turn Let_def W_def)
      have stops: "stops_at c (cn_last c) (turn # turns) = stops_at c k turns"
        using False Some by (auto simp: turn)
      show ?thesis
      proof (cases "stops_at c k turns")
        case None
        then show ?thesis using IH by (simp only: loop stops option.case)
      next
        case (Some k')
        then have k': "k \<le> k'" using IH by auto
        then have "events hist (cn_last c + 1) (k' + 1)
            = events hist (cn_last c + 1) (k + 1) @ events hist (k + 1) (k' + 1)"
          using Cons.prems(1) k by (intro events_split) simp_all
        then show ?thesis using IH k k' unfolding loop stops Some by auto
      qed
    qed
  qed
qed simp

text \<open>The memory of a safe system shows its history to each of its readers.\<close>

lemma system_view_shows:
  assumes "system_ok s" "r \<in> set (sy_readers s)"
  shows "view_shows (sy_hist s @ later) (rd_consumer r) (cn_last (rd_consumer r)) (sy_shared s)"
proof -
  have w: "writer_ok s" and r: "reader_ok s r" using assms by (simp_all add: system_ok_def)
  have limit: "view_limit (rd_consumer r) (sy_shared s) = published s"
    using r by (simp add: view_limit_def published_def reader_ok_def Let_def sy_world_def)
  have "published s < seq_limit" using writer_okD(5,7,9) [OF w] by linarith
  moreover have "nat q < length (sy_hist s @ later)
      \<and> read_slot (cn_ring (rd_consumer r)) (sh_slots (sy_shared s)) q = Some ((sy_hist s @ later) ! nat q)"
    if "cn_last (rd_consumer r) < q" "q \<le> published s" for q
    using slot_holds_event [OF assms that] by (simp add: nth_append)
  ultimately show ?thesis by (simp add: view_shows_def limit)
qed

text \<open>A consumer that finds eight events, then nothing while the flag is down, then nothing while
  it is up.\<close>

theorem auto_loop_delivers_witness:
  "\<exists>sh' waits'. auto_loop sleep_config_default (SpinThenYield 1) (\<lambda>e q eob acc. acc @ [(e, eob)]) []
        (rd_consumer second)
        (sy_shared (demo 2 8 tracked_one [0..<8]))
        [([sy_shared (demo 2 8 tracked_one [0..<8]), sy_shared (demo 2 8 tracked_one [0..<8])], True),
         ([sy_shared (demo 2 8 tracked_one [0..<8])], False),
         ([sy_shared (demo 2 8 tracked_one [0..<8])], True)] []
      = Returns ([(0, False), (1, False), (2, False), (3, False), (4, False), (5, False), (6, False), (7, False)],
          (rd_consumer second)\<lparr>cn_last := 7\<rparr>, sh', waits')"
proof -
  let ?s = "demo 2 8 tracked_one [0..<8]"
  define c where "c = rd_consumer second"
  define v where "v = sy_shared ?s"
  let ?turns = "[([v, v], True), ([v], False), ([v], True)]"
  have ok: "system_ok ?s" by (rule demo_ok) simp_all
  have mem: "second \<in> set (sy_readers ?s)" by simp
  have last: "cn_last c = -1" by (simp add: c_def demo_reader_def)
  have limit: "view_limit c v = 7"
    by (simp add: c_def v_def view_limit_def demo_reader_def demo_def load_def)
  have show_v: "view_shows [0..<8] c (-1) v"
    using system_view_shows [OF ok mem, of "[]", folded c_def v_def] last by simp
  then have show_7: "view_shows [0..<8] c 7 v" by (simp add: view_shows_def)
  have turns: "turns_show [0..<8] c (cn_last c) ?turns"
    using show_v show_7 by (simp add: last limit)
  have stop: "stops_at c (cn_last c) ?turns = Some 7" by (simp add: last limit)
  have "[0..7::int] = [0, 1, 2, 3, 4, 5, 6, 7]" by (simp add: upto.simps)
  then have evs: "events [0..<8] 0 8 = [(0, 0), (1, 1), (2, 2), (3, 3), (4, 4), (5, 5), (6, 6), (7, 7)]"
    by (simp add: events_def)
  have "-1 \<le> cn_last c" "cn_last c < seq_limit" by (simp_all add: last seq_limit_def)
  from auto_loop_delivers [OF this turns, of sleep_config_default "SpinThenYield 1"
      "\<lambda>e q eob acc. acc @ [(e, eob)]" "[]" v "[]"]
  have "\<exists>sh' waits'. auto_loop sleep_config_default (SpinThenYield 1) (\<lambda>e q eob acc. acc @ [(e, eob)]) []
        c v ?turns []
      = Returns ([(0, False), (1, False), (2, False), (3, False), (4, False), (5, False), (6, False), (7, False)],
          c\<lparr>cn_last := 7\<rparr>, sh', waits')"
    unfolding stop option.case by (simp add: evs last del: auto_loop.simps)
  then show ?thesis unfolding c_def v_def .
qed

end
