(* ===== verification/FramedTransport.thy ===== *)
theory FramedTransport
  imports Framing Naming Builder
begin

text \<open>
  The framed transport over the shared-memory ring (\<open>FramedTransportProducer\<close> and
  \<open>FramedTransportConsumer\<close> in \<open>myelon/src/transport.rs\<close>): publication of a payload as frames
  written in place, and the owned, leased and batch receivers. The frame type is given by its
  operations (the locale \<open>framed\<close> of the framing theory); the wait strategy only chooses how
  an empty ring passes the time.
\<close>

section \<open>Producer\<close>

record framed_producer =
  fp_coordination_cursor :: handle
  fp_inner :: producer

text \<open>\<open>create_with_consumers\<close>: the coordination cursor first, then a producer with slot discovery
  and no start-up wait. A coordination cursor that this call created is unlinked again when the
  build fails.\<close>

definition framed_create_with_consumers ::
  "'s shm_os \<Rightarrow> (string \<Rightarrow> mp_error) \<Rightarrow> sleep_config \<Rightarrow> element_type \<Rightarrow> nat \<Rightarrow> nat \<Rightarrow> string \<Rightarrow> nat \<Rightarrow> nat
    \<Rightarrow> (nat \<Rightarrow> u8 list) \<Rightarrow> counters_file \<Rightarrow> 's build_state \<Rightarrow> observation list
    \<Rightarrow> (framed_producer mp_result \<times> 's build_state) outcome" where
  "framed_create_with_consumers os taken cfg et pid now name depth max_consumers factory counters st obs =
     (case new_or_attach (bs_world st) (coordination_cursor_name name) 0 of
        (coordination_cursor, w1) \<Rightarrow>
          (case enable_discovery cfg max_consumers (build_shared_single_producer et name depth) of
             None \<Rightarrow> Panics
           | Some b \<Rightarrow>
               bind_outcome (build_producer os taken et pid now (with_coordination Immediate b) factory counters
                               (st\<lparr>bs_world := w1\<rparr>) obs)
                 (\<lambda>(r, st1).
                    case r of
                      Inl e \<Rightarrow>
                        Returns (Inl e, st1\<lparr>bs_world :=
                          drop_registration (bs_world st) (Some coordination_cursor) (bs_world st1)\<rparr>)
                    | Inr p \<Rightarrow>
                        Returns (Inr \<lparr> fp_coordination_cursor = coordination_cursor, fp_inner = p \<rparr>, st1))))"

definition framed_create where
  "framed_create os taken cfg et pid now name depth factory counters st obs =
     framed_create_with_consumers os taken cfg et pid now name depth 1 factory counters st obs"

text \<open>The closure \<open>|slot| slot.write_frame(..)\<close>; its assertion depends on the chunk alone and is
  tested by the caller.\<close>

definition frame_update ::
  "(u8 list \<Rightarrow> u8 \<Rightarrow> u32 \<Rightarrow> u8 \<Rightarrow> 'f \<Rightarrow> 'f option) \<Rightarrow> frame_call \<Rightarrow> 'f \<Rightarrow> 'f" where
  "frame_update write = (\<lambda>(chunk, kind, msg_id, flags) slot.
     case write chunk kind msg_id flags slot of Some f \<Rightarrow> f | None \<Rightarrow> slot)"

text \<open>The state of a publication: the producer, the views its spin loops still have, and the
  shared memory after each publication.\<close>

definition framed_publish ::
  "nat \<Rightarrow> nat \<Rightarrow> (u8 list \<Rightarrow> u8 \<Rightarrow> u32 \<Rightarrow> u8 \<Rightarrow> 'f \<Rightarrow> 'f option) \<Rightarrow> u8 list \<Rightarrow> u8
    \<Rightarrow> u32 \<times> producer \<times> 'f view list \<times> 'f shared list
    \<Rightarrow> (u32 \<times> producer \<times> 'f view list \<times> 'f shared list) outcome" where
  "framed_publish pid cap write payload kind =
     publish_framed_payload_in_place payload kind cap (\<lambda>call (p, views, outs).
       if \<not> length (fst call) \<le> cap then Panics
       else bind_outcome (publish pid (frame_update write call) p views)
              (\<lambda>(p1, sh1, rest). Returns (p1, rest, outs @ [sh1])))"

text \<open>One managed publication takes its start time, its start-up observations, the shared
  memory it finds and the views of its loop.\<close>

type_synonym 'f managed_input = "nat \<times> observation list \<times> 'f shared \<times> 'f timed_view list"

definition framed_publish_managed ::
  "nat \<Rightarrow> nat \<Rightarrow> (u8 list \<Rightarrow> u8 \<Rightarrow> u32 \<Rightarrow> u8 \<Rightarrow> 'f \<Rightarrow> 'f option) \<Rightarrow> u8 list \<Rightarrow> u8
    \<Rightarrow> u32 \<times> producer \<times> 'f managed_input list \<times> 'f shared list
    \<Rightarrow> ((required_error + unit) \<times> u32 \<times> producer \<times> 'f managed_input list \<times> 'f shared list) outcome" where
  "framed_publish_managed pid cap write payload kind =
     publish_framed_payload_result_in_place payload kind cap (\<lambda>call (p, inputs, outs).
       case inputs of
         [] \<Rightarrow> Waiting
       | (start, startup, sh, views) # rest \<Rightarrow>
           if \<not> length (fst call) \<le> cap then Panics
           else bind_outcome (publish_managed pid start (frame_update write call) p startup sh views)
                  (\<lambda>(r, p1, sh1, alerts).
                     Returns ((case r of Inl e \<Rightarrow> Inl e | Inr _ \<Rightarrow> Inr ()), p1, rest, outs @ [sh1])))"

text \<open>\<open>discover_consumers\<close>: poll the barrier until a consumer is known or the deadline is
  reached; one observation for the barrier and one clock reading for the deadline per turn.\<close>

fun framed_discover_consumers ::
  "nat \<Rightarrow> nat \<Rightarrow> producer \<Rightarrow> (nat \<times> nat \<times> world) list \<Rightarrow> (bool \<times> producer) outcome" where
  "framed_discover_consumers pid deadline p [] = Waiting"
| "framed_discover_consumers pid deadline p ((now, later, w) # views) =
     (case get_consumer_count w pid now p of
        (n, p1) \<Rightarrow>
          if 0 < n then Returns (True, p1)
          else if deadline \<le> later then Returns (False, p1)
          else framed_discover_consumers pid deadline p1 views)"

definition framed_discover_consumer_id where
  "framed_discover_consumer_id start consumer timeout p views = wait_for_consumer_id start consumer timeout p views"

definition framed_enable_required_consumer_liveness where
  "framed_enable_required_consumer_liveness now config p = enable_required_consumer_liveness now config p"

section \<open>Consumer\<close>

record framed_consumer =
  fc_inner :: consumer
  fc_wait_strategy :: myelon_wait_strategy

definition framed_attach_with ::
  "'s shm_os \<Rightarrow> (string \<Rightarrow> mp_error) \<Rightarrow> element_type \<Rightarrow> nat \<Rightarrow> builder \<Rightarrow> myelon_wait_strategy \<Rightarrow> 's build_state
    \<Rightarrow> (framed_consumer mp_result \<times> 's build_state) option" where
  "framed_attach_with os missing et pid b wait_strategy st =
     map_option (\<lambda>(r, st1).
         (map_sum id (\<lambda>c. \<lparr> fc_inner = c, fc_wait_strategy = wait_strategy \<rparr>) r, st1))
       (build_consumer os missing et pid b st)"

definition framed_attach where
  "framed_attach os missing et pid name depth wait_strategy st =
     framed_attach_with os missing et pid (attach_shared_consumer et name depth) wait_strategy st"

definition framed_attach_with_consumer_id where
  "framed_attach_with_consumer_id os missing et pid name depth consumer wait_strategy st =
     framed_attach_with os missing et pid
       (with_consumer_id consumer (attach_shared_consumer et name depth)) wait_strategy st"

definition framed_has_coordination_support :: "framed_consumer \<Rightarrow> bool" where
  "framed_has_coordination_support c = has_coordination_support (fc_inner c)"

definition next_owned ::
  "myelon_wait_strategy \<Rightarrow> consumer \<times> 'f shared list \<times> 'f shared list
    \<Rightarrow> ('f \<times> consumer \<times> 'f shared list \<times> 'f shared list) outcome" where
  "next_owned wait_strategy = (\<lambda>(c, views, outs).
     bind_outcome (case wait_strategy of MwBusySpin \<Rightarrow> consume_next c views
                                      | MwBlock \<Rightarrow> consume_next_with_sleep c views)
       (\<lambda>((seq, frame), c1, sh1, rest). Returns (frame, c1, rest, outs @ [sh1])))"

text \<open>A lease is read in the view it was taken in and then dropped, which publishes.\<close>

definition next_leased ::
  "myelon_wait_strategy \<Rightarrow> consumer \<times> 'f shared list \<times> 'f shared list
    \<Rightarrow> ('f \<times> consumer \<times> 'f shared list \<times> 'f shared list) outcome" where
  "next_leased wait_strategy = (\<lambda>(c, views, outs).
     bind_outcome (case wait_strategy of MwBusySpin \<Rightarrow> consume_next_leased c views
                                      | MwBlock \<Rightarrow> consume_next_leased_with_sleep c views)
       (\<lambda>(l, sh, rest).
          case lease_drop l c sh of (c1, sh1) \<Rightarrow> Returns (lease_deref l sh, c1, rest, outs @ [sh1])))"

definition recv_message_blocking_owned where
  "recv_message_blocking_owned clock n meta wait_strategy st =
     recv_framed_message clock n (next_owned wait_strategy) meta st"

definition recv_message_blocking_owned_with_meta where
  "recv_message_blocking_owned_with_meta clock n meta wait_strategy st =
     recv_framed_message_with_meta clock n (next_owned wait_strategy) meta st"

definition recv_message_blocking_leased_with_meta where
  "recv_message_blocking_leased_with_meta clock n meta wait_strategy handler b st =
     recv_framed_message_leased_with_meta clock n (next_leased wait_strategy) meta handler b st"

definition recv_message_blocking_leased where
  "recv_message_blocking_leased clock n meta wait_strategy handler b st =
     recv_message_blocking_leased_with_meta clock n meta wait_strategy
       (\<lambda>message_meta bytes. handler (rm_kind message_meta) bytes) b st"

definition frame_callback ::
  "(nat \<Rightarrow> u64) \<Rightarrow> ('f \<Rightarrow> frame_meta option) \<Rightarrow> (received_meta \<Rightarrow> u8 list \<Rightarrow> 'a \<Rightarrow> 'a)
    \<Rightarrow> 'f \<Rightarrow> int \<Rightarrow> (nat \<times> reassembly \<times> 'a) option \<Rightarrow> (nat \<times> reassembly \<times> 'a) option" where
  "frame_callback clock meta handler frame seq st =
     (case st of
        None \<Rightarrow> None
      | Some st1 \<Rightarrow> map_option (\<lambda>m. on_frame clock handler m st1) (meta frame))"

definition process_available_messages_with_meta ::
  "(nat \<Rightarrow> u64) \<Rightarrow> ('f \<Rightarrow> frame_meta option) \<Rightarrow> (received_meta \<Rightarrow> u8 list \<Rightarrow> 'a \<Rightarrow> 'a) \<Rightarrow> reassembly \<Rightarrow> 'a
    \<Rightarrow> consumer \<Rightarrow> 'f shared \<Rightarrow> 'f shared list \<Rightarrow> (nat \<times> reassembly \<times> 'a \<times> consumer \<times> 'f shared) outcome" where
  "process_available_messages_with_meta clock meta handler b acc c sh views =
     bind_outcome (process_available (frame_callback clock meta handler) (Some (0, b, acc)) c sh views)
       (\<lambda>(processed, st, c1, sh1).
          case st of None \<Rightarrow> Panics | Some (delivered, b1, acc1) \<Rightarrow> Returns (delivered, b1, acc1, c1, sh1))"

definition process_available_messages where
  "process_available_messages clock meta handler b acc c sh views =
     process_available_messages_with_meta clock meta (\<lambda>m bytes. handler (rm_kind m) bytes) b acc c sh views"

section \<open>Messages over the ring\<close>

lemma fold_frame_callback:
  "fold (\<lambda>(q, f). frame_callback clock meta handler f q) es st
     = (case st of None \<Rightarrow> None | Some st1 \<Rightarrow> on_frames clock meta handler (map snd es) st1)"
proof (induction es arbitrary: st)
  case (Cons e es)
  then show ?case by (cases st; cases "meta (snd e)") (auto simp: frame_callback_def split_beta)
qed (simp split: option.splits)

lemma events_snd:
  assumes "0 \<le> lower" "upper \<le> int (length hist)" "lower \<le> upper"
  shows "map snd (events hist lower upper) = take (nat (upper - lower)) (drop (nat lower) hist)"
proof (rule nth_equalityI)
  show "length (map snd (events hist lower upper)) = length (take (nat (upper - lower)) (drop (nat lower) hist))"
    using assms by (simp add: events_def)
next
  fix i assume i: "i < length (map snd (events hist lower upper))"
  then have "i < nat (upper - lower)" using assms by (simp add: events_def)
  moreover from this have "[lower..upper - 1] ! i = lower + int i" by (subst nth_upto) auto
  ultimately show "map snd (events hist lower upper) ! i = take (nat (upper - lower)) (drop (nat lower) hist) ! i"
    using assms i by (simp add: events_def nat_add_distrib)
qed

text \<open>One call of the batch receiver over the views of its loop: the callback runs over the frames
  from the consumer's position up to the last cursor value it saw.\<close>

lemma batch_receive_views:
  assumes "-1 \<le> cn_last c" "cn_last c < seq_limit" "views_show hist c (cn_last c) views"
    and "drained c (cn_last c) views = Some k"
    and "on_frames clock meta handler (map snd (events hist (cn_last c + 1) (k + 1))) (0, b, acc) = Some (d, b1, acc1)"
  shows "\<exists>sh1. process_available_messages_with_meta clock meta handler b acc c sh views
     = Returns (d, b1, acc1, c\<lparr>cn_last := k\<rparr>, sh1)"
proof -
  obtain sh1 where "process_available (frame_callback clock meta handler) (Some (0, b, acc)) c sh views
      = Returns (nat (k - cn_last c),
          fold (\<lambda>(q, e). frame_callback clock meta handler e q) (events hist (cn_last c + 1) (k + 1)) (Some (0, b, acc)),
          c\<lparr>cn_last := k\<rparr>, sh1)"
    using process_available_history(2) [OF assms(1-4), of "frame_callback clock meta handler" "Some (0, b, acc)" sh] by blast
  then show ?thesis
    using assms(5) by (simp add: process_available_messages_with_meta_def fold_frame_callback)
qed

lemma step_start: "step pid s t \<Longrightarrow> map rd_start (sy_readers t) = map rd_start (sy_readers s)"
  by (induction rule: step.induct) (auto simp: list_eq_iff_nth_eq nth_list_update)

lemma covered_run_start: "covered_run pid s t \<Longrightarrow> map rd_start (sy_readers t) = map rd_start (sy_readers s)"
  by (induction rule: covered_run.induct) (auto dest: step_start)



end
