(* ===== verification/Mmap.thy ===== *)
theory Mmap
  imports Naming Consumer
begin

text \<open>
  The mmap backend (\<open>disruptor-mp/src/backend/mmap\<close>): the barrier that discovers consumers by
  listing a directory of cursor files (\<open>barrier.rs\<close>), the producer (\<open>producer.rs\<close>) and the
  consumer (\<open>consumer.rs\<close>). A cursor file is a cell of the shared world under the text of its
  path; what the directory shows at a scan is part of the observation of that scan.
\<close>

section \<open>Files and directories\<close>

text \<open>How the operations on files fail: which paths cannot be used and with what error, and the
  outcome of mapping a ring file.\<close>

record mmap_io =
  io_fails :: "path \<Rightarrow> bool"
  io_error :: "path \<Rightarrow> mp_error"
  io_ring :: "mmap_file_config \<Rightarrow> ring mp_result"

definition file_attach :: "mmap_io \<Rightarrow> world \<Rightarrow> path \<Rightarrow> handle mp_result" where
  "file_attach io w p =
     (if io_fails io p then Inl (io_error io p) else ok_or (io_error io p) (attach w (path_display p)))"

text \<open>Creating truncates a file that exists, whose mappings then show the new value.\<close>

definition file_create :: "mmap_io \<Rightarrow> world \<Rightarrow> path \<Rightarrow> int \<Rightarrow> handle mp_result \<times> world" where
  "file_create io w p v =
     (if io_fails io p then (Inl (io_error io p), w)
      else (case attach w (path_display p) of
              Some h \<Rightarrow> (Inr h, store w h v)
            | None \<Rightarrow> (case create w (path_display p) v of
                         Some (h, w1) \<Rightarrow> (Inr h, w1)
                       | None \<Rightarrow> (Inl (io_error io p), w))))"

text \<open>The flag tells whether the cursor was created here (\<open>is_owner\<close>).\<close>

definition file_new_or_attach ::
  "mmap_io \<Rightarrow> world \<Rightarrow> path \<Rightarrow> int \<Rightarrow> (handle \<times> bool) mp_result \<times> world" where
  "file_new_or_attach io w p v =
     (if attach w (path_display p) \<noteq> None
      then (bind_result (file_attach io w p) (\<lambda>h. Inr (h, False)), w)
      else (case file_create io w p v of (r, w1) \<Rightarrow> (bind_result r (\<lambda>h. Inr (h, True)), w1)))"

text \<open>What \<open>read_dir\<close> yields for the consumers directory, in its order: an entry that cannot be
  read, a name that is not UTF-8, or a name.\<close>

datatype dir_entry = EntryError string | NotUtf8 | Named string

datatype dir_listing = DirNotFound | DirError string | DirEntries "dir_entry list"

text \<open>\<open>Path::file_stem\<close> and \<open>Path::extension\<close>: the name splits at its last dot, unless that is
  its first character.\<close>

definition split_name :: "string \<Rightarrow> string \<times> string option" where
  "split_name name =
     (let ext = rev (takeWhile (\<lambda>c. c \<noteq> CHR ''.'') (rev name));
          n = length name - length ext in
      if n \<le> 1 then (name, None) else (take (n - 1) name, Some ext))"

section \<open>The barrier\<close>

record mmap_barrier =
  mb_layout :: mmap_transport_layout
  mb_cursors :: "(string \<times> handle) list"
  mb_producer :: "handle option"
  mb_ready :: "handle option"

definition result_ok :: "'e + 'a \<Rightarrow> 'a option" where
  "result_ok r = (case r of Inr x \<Rightarrow> Some x | Inl _ \<Rightarrow> None)"

definition mmap_barrier_attach :: "mmap_io \<Rightarrow> world \<Rightarrow> mmap_transport_layout \<Rightarrow> mmap_barrier" where
  "mmap_barrier_attach io w l =
     \<lparr> mb_layout = l, mb_cursors = [],
       mb_producer = result_ok (file_attach io w (mcc_path (producer_cursor_config l False))),
       mb_ready = result_ok (file_attach io w (mcc_path (readiness_cursor_config l False))) \<rparr>"

text \<open>\<open>ensure_directories\<close>, as far as it can fail.\<close>

definition directories_ready :: "mmap_io \<Rightarrow> mmap_transport_layout \<Rightarrow> unit mp_result" where
  "directories_ready io l =
     (if io_fails io (ml_root_dir l) then Inl (io_error io (ml_root_dir l))
      else if io_fails io (ml_consumers_dir l) then Inl (io_error io (ml_consumers_dir l))
      else Inr ())"

definition mmap_barrier_new ::
  "mmap_io \<Rightarrow> world \<Rightarrow> mmap_transport_layout \<Rightarrow> mmap_barrier mp_result \<times> world" where
  "mmap_barrier_new io w l =
     (case directories_ready io l of
        Inl e \<Rightarrow> (Inl e, w)
      | Inr _ \<Rightarrow>
          (case file_create io w (mcc_path (readiness_cursor_config l True)) 0 of
             (Inl e, w1) \<Rightarrow> (Inl e, w1)
           | (Inr ready, w1) \<Rightarrow>
               (Inr \<lparr> mb_layout = l, mb_cursors = [],
                      mb_producer = result_ok (file_attach io w1 (mcc_path (producer_cursor_config l False))),
                      mb_ready = Some ready \<rparr>, w1)))"

definition mmap_set_producer_cursor :: "handle \<Rightarrow> mmap_barrier \<Rightarrow> mmap_barrier" where
  "mmap_set_producer_cursor h b = b\<lparr>mb_producer := Some h\<rparr>"

definition mmap_readiness_count :: "world \<Rightarrow> mmap_barrier \<Rightarrow> int option" where
  "mmap_readiness_count w b = map_option (load w) (mb_ready b)"

definition mmap_wait_for_consumers_ready ::
  "mmap_barrier \<Rightarrow> int \<Rightarrow> nat \<Rightarrow> nat \<Rightarrow> observation list \<Rightarrow> (bool \<times> observation list) outcome" where
  "mmap_wait_for_consumers_ready b min_consumers start timeout obs =
     (if \<not> 0 < min_consumers then Panics
      else if \<not> 0 < timeout then Panics
      else (case mb_ready b of
              None \<Rightarrow> Returns (False, obs)
            | Some h \<Rightarrow> spin_until_ready_count h min_consumers start timeout obs))"

definition mmap_known :: "mmap_barrier \<Rightarrow> string \<Rightarrow> bool" where
  "mmap_known b consumer \<longleftrightarrow> map_of (mb_cursors b) consumer \<noteq> None"

text \<open>The loop over the entries; consumers found before an error stay tracked.\<close>

fun mmap_discover_entries ::
  "mmap_io \<Rightarrow> world \<Rightarrow> dir_entry list \<Rightarrow> nat \<Rightarrow> mmap_barrier \<Rightarrow> nat mp_result \<times> mmap_barrier" where
  "mmap_discover_entries io w [] discovered b = (Inr discovered, b)"
| "mmap_discover_entries io w (EntryError e # es) discovered b = (Inl (SharedMemoryError e), b)"
| "mmap_discover_entries io w (NotUtf8 # es) discovered b = mmap_discover_entries io w es discovered b"
| "mmap_discover_entries io w (Named name # es) discovered b =
     (case split_name name of (consumer, ext) \<Rightarrow>
        if ext \<noteq> Some ''cursor'' then mmap_discover_entries io w es discovered b
        else if mmap_known b consumer then mmap_discover_entries io w es discovered b
        else (case consumer_cursor_config (mb_layout b) consumer False of
                Inl e \<Rightarrow> (Inl e, b)
              | Inr config \<Rightarrow>
                  (case file_attach io w (mcc_path config) of
                     Inl _ \<Rightarrow> mmap_discover_entries io w es discovered b
                   | Inr h \<Rightarrow>
                       mmap_discover_entries io w es (discovered + 1)
                         (b\<lparr>mb_cursors := mb_cursors b @ [(consumer, h)]\<rparr>))))"

definition mmap_discover_consumers ::
  "mmap_io \<Rightarrow> world \<Rightarrow> dir_listing \<Rightarrow> mmap_barrier \<Rightarrow> nat mp_result \<times> mmap_barrier" where
  "mmap_discover_consumers io w listing b =
     (case listing of
        DirNotFound \<Rightarrow> (Inr 0, b)
      | DirError e \<Rightarrow> (Inl (SharedMemoryError e), b)
      | DirEntries es \<Rightarrow> mmap_discover_entries io w es 0 b)"

definition mmap_discover_consumer_id :: "mmap_io \<Rightarrow> world \<Rightarrow> string \<Rightarrow> mmap_barrier \<Rightarrow> bool \<times> mmap_barrier" where
  "mmap_discover_consumer_id io w consumer b =
     (if mmap_known b consumer then (True, b)
      else (case bind_result (consumer_cursor_config (mb_layout b) consumer False)
                   (\<lambda>config. file_attach io w (mcc_path config)) of
              Inr h \<Rightarrow> (True, b\<lparr>mb_cursors := mb_cursors b @ [(consumer, h)]\<rparr>)
            | Inl _ \<Rightarrow> (False, b)))"

definition mmap_consumer_sequence :: "mmap_io \<Rightarrow> world \<Rightarrow> string \<Rightarrow> mmap_barrier \<Rightarrow> int option \<times> mmap_barrier" where
  "mmap_consumer_sequence io w consumer b =
     (case (if mmap_known b consumer then (True, b) else mmap_discover_consumer_id io w consumer b) of
        (found, b1) \<Rightarrow>
          (if found then map_option (load w) (map_of (mb_cursors b1) consumer) else None, b1))"

definition mmap_fallback_sequence :: "world \<Rightarrow> mmap_barrier \<Rightarrow> int" where
  "mmap_fallback_sequence w b = (case mb_producer b of Some h \<Rightarrow> load w h | None \<Rightarrow> -1)"

definition mmap_min_consumer_sequence ::
  "mmap_io \<Rightarrow> world \<Rightarrow> dir_listing \<Rightarrow> mmap_barrier \<Rightarrow> int mp_result \<times> mmap_barrier" where
  "mmap_min_consumer_sequence io w listing b =
     (case mmap_discover_consumers io w listing b of
        (Inl e, b1) \<Rightarrow> (Inl e, b1)
      | (Inr _, b1) \<Rightarrow>
          if mb_cursors b1 = [] then (Inr (mmap_fallback_sequence w b1), b1)
          else (Inr (fold (\<lambda>(_, h) m. min m (load w h)) (mb_cursors b1) i64_max), b1))"

definition best_effort_min_consumer_sequence ::
  "mmap_io \<Rightarrow> world \<Rightarrow> dir_listing \<Rightarrow> mmap_barrier \<Rightarrow> int \<times> mmap_barrier" where
  "best_effort_min_consumer_sequence io w listing b =
     (case mmap_min_consumer_sequence io w listing b of
        (Inr m, b1) \<Rightarrow> (m, b1)
      | (Inl _, b1) \<Rightarrow> (mmap_fallback_sequence w b1, b1))"

definition mmap_best_effort_consumer_count ::
  "mmap_io \<Rightarrow> world \<Rightarrow> dir_listing \<Rightarrow> mmap_barrier \<Rightarrow> nat \<times> mmap_barrier" where
  "mmap_best_effort_consumer_count io w listing b =
     (case mmap_discover_consumers io w listing b of (_, b1) \<Rightarrow> (length (mb_cursors b1), b1))"

definition discovered_consumer_count :: "mmap_barrier \<Rightarrow> nat" where
  "discovered_consumer_count b = length (mb_cursors b)"

section \<open>The producer\<close>

record mmap_producer =
  mp_ring :: ring
  mp_cursor :: handle
  mp_barrier :: mmap_barrier
  mp_sequence :: int
  mp_clear :: int
  mp_liveness :: "liveness option"

text \<open>The readiness cursor comes first, then the ring with its initial events, then the producer
  cursor at -1. The clone of the cursor is another mapping of the same file; \<open>None\<close> is its
  panic.\<close>

definition mmap_producer_create ::
  "mmap_io \<Rightarrow> mmap_transport_layout \<Rightarrow> nat \<Rightarrow> nat \<Rightarrow> (nat \<Rightarrow> 'e) \<Rightarrow> 'e shared
    \<Rightarrow> (mmap_producer mp_result \<times> 'e shared) option" where
  "mmap_producer_create io l buffer_size element_size event_factory sh =
     (case mmap_barrier_new io (sh_world sh) l of
        (Inl e, w1) \<Rightarrow> Some (Inl e, sh\<lparr>sh_world := w1\<rparr>)
      | (Inr b, w1) \<Rightarrow>
          (case io_ring io (ring_config l buffer_size element_size True) of
             Inl e \<Rightarrow> Some (Inl e, sh\<lparr>sh_world := w1\<rparr>)
           | Inr r \<Rightarrow>
               let slots = map event_factory [0..<buffer_size] in
               (case file_create io w1 (mcc_path (producer_cursor_config l True)) (-1) of
                  (Inl e, w2) \<Rightarrow> Some (Inl e, sh\<lparr>sh_world := w2, sh_slots := slots\<rparr>)
                | (Inr h, w2) \<Rightarrow>
                    (case clone_handle w2 h of
                       None \<Rightarrow> None
                     | Some h' \<Rightarrow>
                         Some (Inr \<lparr> mp_ring = r, mp_cursor = h, mp_barrier = mmap_set_producer_cursor h' b,
                                     mp_sequence = 0,
                                     mp_clear = wrap_i64 (usize_as_i64 (of_nat buffer_size) - 1),
                                     mp_liveness = None \<rparr>,
                               sh\<lparr>sh_world := w2, sh_slots := slots\<rparr>)))))"

definition mmap_next_sequences ::
  "mmap_io \<Rightarrow> world \<Rightarrow> dir_listing \<Rightarrow> nat \<Rightarrow> mmap_producer
    \<Rightarrow> ((missing_free_slots + int) \<times> mmap_producer) option" where
  "mmap_next_sequences io w listing k p =
     (case i64_try_from_usize k of
        None \<Rightarrow> Some (Inl (MissingFreeSlots (-1)), p)
      | Some n \<Rightarrow>
          if \<not> 0 < n then None
          else
            (case ok_or (MissingFreeSlots (-1))
                    (Option.bind (checked_i64 (mp_sequence p - 1)) (\<lambda>current. checked_i64 (current + n))) of
               Inl e \<Rightarrow> Some (Inl e, p)
             | Inr n_next \<Rightarrow>
                 if mp_clear p < n_next then
                   let last_published = wrap_i64 (mp_sequence p - 1) in
                   (case best_effort_min_consumer_sequence io w listing (mp_barrier p) of
                      (rear_sequence_read, b) \<Rightarrow>
                        let p1 = p\<lparr>mp_barrier := b\<rparr>;
                            free = free_slots (mp_ring p) last_published rear_sequence_read in
                        if free < n
                        then Some (Inl (MissingFreeSlots (i64_as_u64 (wrap_i64 (n - free)))), p1)
                        else Some (Inr n_next, p1\<lparr>mp_clear := wrap_i64 (last_published + free)\<rparr>))
                 else Some (Inr n_next, p)))"

text \<open>The ring itself asserts that sequences are not negative (\<open>None\<close> in \<open>slot_of\<close>).\<close>

definition mmap_apply_update ::
  "('e \<Rightarrow> 'e) \<Rightarrow> mmap_producer \<Rightarrow> 'e shared \<Rightarrow> (int \<times> mmap_producer \<times> 'e shared) option" where
  "mmap_apply_update update p sh =
     (let sequence = mp_sequence p in
      case update_event (mp_ring p) sequence update (sh_slots sh) of
        None \<Rightarrow> None
      | Some slots \<Rightarrow>
          Some (sequence, p\<lparr>mp_sequence := wrap_i64 (sequence + 1)\<rparr>,
                shared_store (mp_cursor p) sequence (sh\<lparr>sh_slots := slots\<rparr>)))"

definition mmap_apply_batch_updates ::
  "nat \<Rightarrow> ('e \<Rightarrow> nat \<Rightarrow> 'e) \<Rightarrow> mmap_producer \<Rightarrow> 'e shared \<Rightarrow> (int \<times> mmap_producer \<times> 'e shared) option" where
  "mmap_apply_batch_updates k update_fn p sh =
     (case i64_try_from_usize k of
        None \<Rightarrow> None
      | Some n \<Rightarrow>
          (case checked_i64 (mp_sequence p + (n - 1)) of
             None \<Rightarrow> None
           | Some upper \<Rightarrow>
               (case update_range (mp_ring p) (mp_sequence p) k update_fn (sh_slots sh) of
                  None \<Rightarrow> None
                | Some slots \<Rightarrow>
                    Some (upper, p\<lparr>mp_sequence := wrap_i64 (mp_sequence p + n)\<rparr>,
                          shared_store (mp_cursor p) upper (sh\<lparr>sh_slots := slots\<rparr>)))))"

definition mmap_enable_required_consumer_liveness ::
  "nat \<Rightarrow> liveness_config \<Rightarrow> mmap_producer \<Rightarrow> mmap_producer" where
  "mmap_enable_required_consumer_liveness now c p = p\<lparr>mp_liveness := Some (liveness_new now c)\<rparr>"

definition mmap_producer_discover :: "mmap_io \<Rightarrow> world \<Rightarrow> string \<Rightarrow> mmap_producer \<Rightarrow> bool \<times> mmap_producer" where
  "mmap_producer_discover io w consumer p =
     (case mmap_discover_consumer_id io w consumer (mp_barrier p) of (found, b) \<Rightarrow> (found, p\<lparr>mp_barrier := b\<rparr>))"

definition mmap_producer_consumer_sequence ::
  "mmap_io \<Rightarrow> world \<Rightarrow> string \<Rightarrow> mmap_producer \<Rightarrow> int option \<times> mmap_producer" where
  "mmap_producer_consumer_sequence io w consumer p =
     (case mmap_consumer_sequence io w consumer (mp_barrier p) of (s, b) \<Rightarrow> (s, p\<lparr>mp_barrier := b\<rparr>))"

definition mmap_last_published_sequence :: "world \<Rightarrow> mmap_producer \<Rightarrow> int" where
  "mmap_last_published_sequence w p = load w (mp_cursor p)"

fun mmap_ensure_ready_loop ::
  "mmap_io \<Rightarrow> nat \<Rightarrow> liveness \<Rightarrow> mmap_producer \<Rightarrow> observation list
    \<Rightarrow> ((required_error + unit) \<times> mmap_producer \<times> observation list) outcome" where
  "mmap_ensure_ready_loop io deadline st p [] = Waiting"
| "mmap_ensure_ready_loop io deadline st p ((now, w) # views) =
     (case missing_required_consumers st (\<lambda>q i. mmap_producer_discover io w i q) p of (missing, p1) \<Rightarrow>
        if missing = [] then
          (case seed_progress now (\<lambda>q i. mmap_producer_consumer_sequence io w i q) st p1 of
             None \<Rightarrow> Panics
           | Some (st1, p2) \<Rightarrow>
               Returns (Inr (), p2\<lparr>mp_liveness := Some (mark_startup_completed now st1)\<rparr>, views))
        else if deadline \<le> now then
          Returns (Inl (StartupTimeout missing), p1\<lparr>mp_liveness := Some st\<rparr>, views)
        else mmap_ensure_ready_loop io deadline st p1 views)"

definition mmap_ensure_required_consumers_ready ::
  "mmap_io \<Rightarrow> nat \<Rightarrow> mmap_producer \<Rightarrow> observation list
    \<Rightarrow> ((required_error + unit) \<times> mmap_producer \<times> observation list) outcome" where
  "mmap_ensure_required_consumers_ready io start p views =
     (case mp_liveness p of
        None \<Rightarrow> Returns (Inr (), p, views)
      | Some st \<Rightarrow>
          if ls_startup_completed st then Returns (Inr (), p, views)
          else mmap_ensure_ready_loop io (start + lv_startup_wait_timeout (ls_config st)) st p views)"

definition mmap_check_required_consumer_liveness ::
  "mmap_io \<Rightarrow> world \<Rightarrow> nat \<Rightarrow> mmap_producer \<Rightarrow> ((required_error + unit) \<times> mmap_producer \<times> alert list) option" where
  "mmap_check_required_consumer_liveness io w now p =
     (case mp_liveness p of
        None \<Rightarrow> Some (Inr (), p, [])
      | Some st \<Rightarrow>
          (case evaluate_blocked now (mmap_last_published_sequence w p)
                  (\<lambda>q i. mmap_producer_consumer_sequence io w i q) st p of
             None \<Rightarrow> None
           | Some (r, st1, p1, alerts) \<Rightarrow>
               let p2 = p1\<lparr>mp_liveness := Some st1\<rparr> in
               (case r of Some e \<Rightarrow> Some (Inl e, p2, alerts) | None \<Rightarrow> Some (Inr (), p2, alerts))))"

text \<open>One turn of a loop sees the shared memory and what the directory shows; the timed loops
  also read the clock.\<close>

type_synonym 'e mmap_view = "'e shared \<times> dir_listing"

definition mmap_try_publish ::
  "mmap_io \<Rightarrow> dir_listing \<Rightarrow> ('e \<Rightarrow> 'e) \<Rightarrow> mmap_producer \<Rightarrow> 'e shared
    \<Rightarrow> ((ring_buffer_full + int) \<times> mmap_producer \<times> 'e shared) option" where
  "mmap_try_publish io listing update p sh =
     (case mmap_next_sequences io (sh_world sh) listing 1 p of
        None \<Rightarrow> None
      | Some (Inl _, p1) \<Rightarrow> Some (Inl RingBufferFull, p1, sh)
      | Some (Inr _, p1) \<Rightarrow>
          map_option (\<lambda>(sequence, p2, sh1). (Inr sequence, p2, sh1)) (mmap_apply_update update p1 sh))"

fun mmap_publish ::
  "mmap_io \<Rightarrow> ('e \<Rightarrow> 'e) \<Rightarrow> mmap_producer \<Rightarrow> 'e mmap_view list
    \<Rightarrow> (mmap_producer \<times> 'e shared \<times> 'e mmap_view list) outcome" where
  "mmap_publish io update p [] = Waiting"
| "mmap_publish io update p ((sh, listing) # views) =
     (case mmap_next_sequences io (sh_world sh) listing 1 p of
        None \<Rightarrow> Panics
      | Some (Inl _, p1) \<Rightarrow> mmap_publish io update p1 views
      | Some (Inr _, p1) \<Rightarrow>
          (case mmap_apply_update update p1 sh of
             None \<Rightarrow> Panics
           | Some (_, p2, sh1) \<Rightarrow> Returns (p2, sh1, views)))"

fun mmap_managed_loop ::
  "mmap_io \<Rightarrow> nat \<Rightarrow> (mmap_producer \<Rightarrow> 'e shared \<Rightarrow> (int \<times> mmap_producer \<times> 'e shared) option)
    \<Rightarrow> mmap_producer \<Rightarrow> (nat \<times> 'e mmap_view) list
    \<Rightarrow> ((required_error + int) \<times> mmap_producer \<times> 'e shared \<times> alert list) outcome" where
  "mmap_managed_loop io n write p [] = Waiting"
| "mmap_managed_loop io n write p ((now, sh, listing) # views) =
     (case mmap_next_sequences io (sh_world sh) listing n p of
        None \<Rightarrow> Panics
      | Some (Inr _, p1) \<Rightarrow>
          (case write p1 sh of
             None \<Rightarrow> Panics
           | Some (sequence, p2, sh1) \<Rightarrow> Returns (Inr sequence, p2, sh1, []))
      | Some (Inl _, p1) \<Rightarrow>
          (case mmap_check_required_consumer_liveness io (sh_world sh) now p1 of
             None \<Rightarrow> Panics
           | Some (Inl e, p2, alerts) \<Rightarrow> Returns (Inl e, p2, sh, alerts)
           | Some (Inr _, p2, alerts) \<Rightarrow>
               bind_outcome (mmap_managed_loop io n write p2 views) (\<lambda>(r, p3, sh1, more_alerts).
                 Returns (r, p3, sh1, alerts @ more_alerts))))"

definition mmap_publish_managed ::
  "mmap_io \<Rightarrow> nat \<Rightarrow> ('e \<Rightarrow> 'e) \<Rightarrow> mmap_producer \<Rightarrow> observation list \<Rightarrow> 'e shared \<Rightarrow> (nat \<times> 'e mmap_view) list
    \<Rightarrow> ((required_error + int) \<times> mmap_producer \<times> 'e shared \<times> alert list) outcome" where
  "mmap_publish_managed io start update p startup sh views =
     bind_outcome (mmap_ensure_required_consumers_ready io start p startup) (\<lambda>(r, p1, _).
       case r of
         Inl e \<Rightarrow> Returns (Inl e, p1, sh, [])
       | Inr _ \<Rightarrow> mmap_managed_loop io 1 (mmap_apply_update update) p1 views)"

definition mmap_publish_batch_managed ::
  "mmap_io \<Rightarrow> nat \<Rightarrow> nat \<Rightarrow> ('e \<Rightarrow> nat \<Rightarrow> 'e) \<Rightarrow> mmap_producer \<Rightarrow> observation list \<Rightarrow> 'e shared
    \<Rightarrow> (nat \<times> 'e mmap_view) list
    \<Rightarrow> ((required_error + int) \<times> mmap_producer \<times> 'e shared \<times> alert list) outcome" where
  "mmap_publish_batch_managed io start n update_fn p startup sh views =
     (if n = 0 then Returns (Inr (wrap_i64 (mp_sequence p - 1)), p, sh, [])
      else
        bind_outcome (mmap_ensure_required_consumers_ready io start p startup) (\<lambda>(r, p1, _).
          case r of
            Inl e \<Rightarrow> Returns (Inl e, p1, sh, [])
          | Inr _ \<Rightarrow> mmap_managed_loop io n (mmap_apply_batch_updates n update_fn) p1 views))"

definition mmap_try_batch_publish ::
  "mmap_io \<Rightarrow> dir_listing \<Rightarrow> nat \<Rightarrow> ('e \<Rightarrow> nat \<Rightarrow> 'e) \<Rightarrow> mmap_producer \<Rightarrow> 'e shared
    \<Rightarrow> ((missing_free_slots + int) \<times> mmap_producer \<times> 'e shared) option" where
  "mmap_try_batch_publish io listing n update_fn p sh =
     (if n = 0 then Some (Inr (wrap_i64 (mp_sequence p - 1)), p, sh)
      else
        (case mmap_next_sequences io (sh_world sh) listing n p of
           None \<Rightarrow> None
         | Some (Inl e, p1) \<Rightarrow> Some (Inl e, p1, sh)
         | Some (Inr _, p1) \<Rightarrow>
             map_option (\<lambda>(sequence, p2, sh1). (Inr sequence, p2, sh1))
               (mmap_apply_batch_updates n update_fn p1 sh)))"

definition mmap_min_gating_sequence :: "mmap_io \<Rightarrow> world \<Rightarrow> dir_listing \<Rightarrow> mmap_producer \<Rightarrow> int \<times> mmap_producer" where
  "mmap_min_gating_sequence io w listing p =
     (case best_effort_min_consumer_sequence io w listing (mp_barrier p) of (m, b) \<Rightarrow> (m, p\<lparr>mp_barrier := b\<rparr>))"

fun mmap_wait_for_consumer_loop ::
  "mmap_io \<Rightarrow> nat \<Rightarrow> string \<Rightarrow> mmap_producer \<Rightarrow> observation list \<Rightarrow> (bool \<times> mmap_producer) outcome" where
  "mmap_wait_for_consumer_loop io deadline consumer p [] = Waiting"
| "mmap_wait_for_consumer_loop io deadline consumer p ((now, w) # views) =
     (case mmap_producer_discover io w consumer p of (found, p1) \<Rightarrow>
        if found then Returns (True, p1)
        else if deadline \<le> now then Returns (False, p1)
        else mmap_wait_for_consumer_loop io deadline consumer p1 views)"

definition mmap_wait_for_consumer_id ::
  "mmap_io \<Rightarrow> nat \<Rightarrow> string \<Rightarrow> nat \<Rightarrow> mmap_producer \<Rightarrow> observation list \<Rightarrow> (bool \<times> mmap_producer) outcome" where
  "mmap_wait_for_consumer_id io start consumer timeout p views =
     (if \<not> 0 < timeout then Panics else mmap_wait_for_consumer_loop io (start + timeout) consumer p views)"

definition mmap_is_consumed ::
  "mmap_io \<Rightarrow> world \<Rightarrow> dir_listing \<Rightarrow> int \<Rightarrow> mmap_producer \<Rightarrow> bool \<times> mmap_producer" where
  "mmap_is_consumed io w listing sequence p =
     (case mmap_min_gating_sequence io w listing p of (m, p1) \<Rightarrow> (sequence \<le> m, p1))"

text \<open>The wait strategy only fills the time between two turns.\<close>

fun mmap_wait_until_consumed ::
  "mmap_io \<Rightarrow> nat \<Rightarrow> int \<Rightarrow> mmap_producer \<Rightarrow> (nat \<times> world \<times> dir_listing) list
    \<Rightarrow> (bool \<times> mmap_producer) outcome" where
  "mmap_wait_until_consumed io deadline sequence p [] = Waiting"
| "mmap_wait_until_consumed io deadline sequence p ((test, w, listing) # views) =
     (if \<not> test < deadline then Returns (False, p)
      else
        (case mmap_is_consumed io w listing sequence p of (consumed, p1) \<Rightarrow>
           if consumed then Returns (True, p1)
           else mmap_wait_until_consumed io deadline sequence p1 views))"

definition mmap_wait_until_consumed_with_strategy ::
  "mmap_io \<Rightarrow> nat \<Rightarrow> int \<Rightarrow> nat \<Rightarrow> mmap_producer \<Rightarrow> (nat \<times> world \<times> dir_listing) list
    \<Rightarrow> (bool \<times> mmap_producer) outcome" where
  "mmap_wait_until_consumed_with_strategy io start sequence timeout p views =
     mmap_wait_until_consumed io (start + timeout) sequence p views"

definition mmap_producer_wait_ready ::
  "mmap_producer \<Rightarrow> int \<Rightarrow> nat \<Rightarrow> nat \<Rightarrow> observation list \<Rightarrow> (bool \<times> observation list) outcome" where
  "mmap_producer_wait_ready p min_consumers start timeout obs =
     mmap_wait_for_consumers_ready (mp_barrier p) min_consumers start timeout obs"

definition mmap_get_consumer_count ::
  "mmap_io \<Rightarrow> world \<Rightarrow> dir_listing \<Rightarrow> mmap_producer \<Rightarrow> nat \<times> mmap_producer" where
  "mmap_get_consumer_count io w listing p =
     (case mmap_best_effort_consumer_count io w listing (mp_barrier p) of (n, b) \<Rightarrow> (n, p\<lparr>mp_barrier := b\<rparr>))"

section \<open>The consumer\<close>

record mmap_consumer =
  mc_ring :: ring
  mc_producer :: handle
  mc_cursor :: handle
  mc_id :: string
  mc_last :: int
  mc_ready :: "handle option"

definition mmap_signal_readiness :: "mmap_consumer \<Rightarrow> world \<Rightarrow> world" where
  "mmap_signal_readiness c w = (case mc_ready c of None \<Rightarrow> w | Some h \<Rightarrow> snd (fetch_add w h 1))"

text \<open>Attaching creates the cursor at -1 or resumes at the sequence it holds; only a new consumer
  counts as ready.\<close>

definition mmap_consumer_attach ::
  "mmap_io \<Rightarrow> world \<Rightarrow> mmap_transport_layout \<Rightarrow> nat \<Rightarrow> nat \<Rightarrow> string \<Rightarrow> mmap_consumer mp_result \<times> world" where
  "mmap_consumer_attach io w l buffer_size element_size consumer =
     (case io_ring io (ring_config l buffer_size element_size False) of
        Inl e \<Rightarrow> (Inl e, w)
      | Inr r \<Rightarrow>
          (case file_attach io w (mcc_path (producer_cursor_config l False)) of
             Inl e \<Rightarrow> (Inl e, w)
           | Inr producer \<Rightarrow>
               (case consumer_cursor_config l consumer True of
                  Inl e \<Rightarrow> (Inl e, w)
                | Inr config \<Rightarrow>
                    (case file_new_or_attach io w (mcc_path config) (-1) of
                       (Inl e, w1) \<Rightarrow> (Inl e, w1)
                     | (Inr (cursor, is_new_consumer), w1) \<Rightarrow>
                         let c = \<lparr> mc_ring = r, mc_producer = producer, mc_cursor = cursor,
                                   mc_id = consumer, mc_last = load w1 cursor,
                                   mc_ready = result_ok (file_attach io w1
                                                (mcc_path (readiness_cursor_config l False))) \<rparr> in
                         (Inr c, if is_new_consumer then mmap_signal_readiness c w1 else w1)))))"

definition mmap_has_coordination_support :: "mmap_consumer \<Rightarrow> bool" where
  "mmap_has_coordination_support c \<longleftrightarrow> mc_ready c \<noteq> None"

definition mmap_batch_bounds :: "mmap_consumer \<Rightarrow> world \<Rightarrow> (int \<times> int) option" where
  "mmap_batch_bounds c w =
     (let producer_sequence = load w (mc_producer c); next_sequence = wrap_i64 (mc_last c + 1) in
      if producer_sequence < next_sequence then None else Some (next_sequence, producer_sequence))"

definition mmap_publish_consumed :: "int \<Rightarrow> mmap_consumer \<Rightarrow> 'e shared \<Rightarrow> mmap_consumer \<times> 'e shared" where
  "mmap_publish_consumed sequence c sh = (c\<lparr>mc_last := sequence\<rparr>, shared_store (mc_cursor c) sequence sh)"

definition mmap_process_snapshot_batch ::
  "int \<Rightarrow> int \<Rightarrow> ('e \<Rightarrow> int \<Rightarrow> 'a \<Rightarrow> 'a) \<Rightarrow> 'a \<Rightarrow> mmap_consumer \<Rightarrow> 'e shared
    \<Rightarrow> (nat \<times> 'a \<times> mmap_consumer \<times> 'e shared) option" where
  "mmap_process_snapshot_batch lower upper processor acc c sh =
     (let n = nat (upper - lower + 1) in
      case fold_events (mc_ring c) (sh_slots sh) lower n processor acc of
        None \<Rightarrow> None
      | Some acc1 \<Rightarrow>
          (case mmap_publish_consumed upper c sh of (c1, sh1) \<Rightarrow> Some (n, acc1, c1, sh1)))"

definition mmap_try_consume_next ::
  "mmap_consumer \<Rightarrow> 'e shared \<Rightarrow> ((int \<times> 'e) option \<times> mmap_consumer \<times> 'e shared) option" where
  "mmap_try_consume_next c sh =
     (case mmap_batch_bounds c (sh_world sh) of
        None \<Rightarrow> Some (None, c, sh)
      | Some (next_sequence, _) \<Rightarrow>
          (case read_slot (mc_ring c) (sh_slots sh) next_sequence of
             None \<Rightarrow> None
           | Some event \<Rightarrow>
               (case mmap_publish_consumed next_sequence c sh of
                  (c1, sh1) \<Rightarrow> Some (Some (next_sequence, event), c1, sh1))))"

definition mmap_take_lease :: "mmap_consumer \<Rightarrow> 'e shared \<Rightarrow> int \<Rightarrow> lease option" where
  "mmap_take_lease c sh sequence =
     map_option (\<lambda>i. \<lparr> le_sequence = sequence, le_slot = i \<rparr>) (slot_of (mc_ring c) (sh_slots sh) sequence)"

definition mmap_lease_deref :: "lease \<Rightarrow> 'e shared \<Rightarrow> 'e" where
  "mmap_lease_deref l sh = sh_slots sh ! le_slot l"

definition mmap_lease_drop :: "lease \<Rightarrow> mmap_consumer \<Rightarrow> 'e shared \<Rightarrow> mmap_consumer \<times> 'e shared" where
  "mmap_lease_drop l c sh = (c\<lparr>mc_last := le_sequence l\<rparr>, shared_store (mc_cursor c) (le_sequence l) sh)"

definition mmap_try_consume_next_leased :: "mmap_consumer \<Rightarrow> 'e shared \<Rightarrow> lease option option" where
  "mmap_try_consume_next_leased c sh =
     (case mmap_batch_bounds c (sh_world sh) of
        None \<Rightarrow> Some None
      | Some (next_sequence, _) \<Rightarrow> map_option Some (mmap_take_lease c sh next_sequence))"

definition mmap_process_available ::
  "('e \<Rightarrow> int \<Rightarrow> 'a \<Rightarrow> 'a) \<Rightarrow> 'a \<Rightarrow> mmap_consumer \<Rightarrow> 'e shared
    \<Rightarrow> (nat \<times> 'a \<times> mmap_consumer \<times> 'e shared) option" where
  "mmap_process_available processor acc c sh =
     (case mmap_batch_bounds c (sh_world sh) of
        None \<Rightarrow> Some (0, acc, c, sh)
      | Some (lower, upper) \<Rightarrow> mmap_process_snapshot_batch lower upper processor acc c sh)"

fun mmap_consume_next ::
  "mmap_consumer \<Rightarrow> 'e shared list \<Rightarrow> ((int \<times> 'e) \<times> mmap_consumer \<times> 'e shared \<times> 'e shared list) outcome" where
  "mmap_consume_next c [] = Waiting"
| "mmap_consume_next c (sh # views) =
     (case mmap_try_consume_next c sh of
        None \<Rightarrow> Panics
      | Some (Some r, c1, sh1) \<Rightarrow> Returns (r, c1, sh1, views)
      | Some (None, c1, _) \<Rightarrow> mmap_consume_next c1 views)"

definition mmap_consume_next_with_sleep where
  "mmap_consume_next_with_sleep = mmap_consume_next"

fun mmap_consume_next_leased ::
  "mmap_consumer \<Rightarrow> 'e shared list \<Rightarrow> (lease \<times> 'e shared \<times> 'e shared list) outcome" where
  "mmap_consume_next_leased c [] = Waiting"
| "mmap_consume_next_leased c (sh # views) =
     (case mmap_batch_bounds c (sh_world sh) of
        Some (next_sequence, _) \<Rightarrow>
          (case mmap_take_lease c sh next_sequence of
             None \<Rightarrow> Panics
           | Some l \<Rightarrow> Returns (l, sh, views))
      | None \<Rightarrow> mmap_consume_next_leased c views)"

definition mmap_consume_next_leased_with_sleep where
  "mmap_consume_next_leased_with_sleep = mmap_consume_next_leased"

end
