(* ===== verification/MmapTransport.thy ===== *)
theory MmapTransport
  imports FramedTransport Mmap
begin

text \<open>
  The framed transport over the memory-mapped ring (\<open>MmapFramedTransportProducer\<close> and
  \<open>MmapFramedTransportConsumer\<close> in \<open>myelon/src/transport.rs\<close>). The framing is the one of the
  shared-memory transport; the ring operations underneath are those of the mmap backend, whose
  producer lists the cursor directory on every publication and whose consumer takes a single
  snapshot of what is available.
\<close>

section \<open>Producer\<close>

record mmap_framed_producer =
  mfp_inner :: mmap_producer

definition mmap_framed_create ::
  "mmap_io \<Rightarrow> mmap_transport_layout \<Rightarrow> nat \<Rightarrow> nat \<Rightarrow> 'f \<Rightarrow> 'f shared
    \<Rightarrow> (mmap_framed_producer mp_result \<times> 'f shared) option" where
  "mmap_framed_create io l depth element_size frame_default sh =
     (case directories_ready io l of
        Inl e \<Rightarrow> Some (Inl e, sh)
      | Inr _ \<Rightarrow>
          map_option (\<lambda>(r, sh1). (map_sum id (\<lambda>p. \<lparr> mfp_inner = p \<rparr>) r, sh1))
            (mmap_producer_create io l depth element_size (\<lambda>_. frame_default) sh))"

definition mmap_framed_publish ::
  "mmap_io \<Rightarrow> nat \<Rightarrow> (u8 list \<Rightarrow> u8 \<Rightarrow> u32 \<Rightarrow> u8 \<Rightarrow> 'f \<Rightarrow> 'f option) \<Rightarrow> u8 list \<Rightarrow> u8
    \<Rightarrow> u32 \<times> mmap_producer \<times> 'f mmap_view list \<times> 'f shared list
    \<Rightarrow> (u32 \<times> mmap_producer \<times> 'f mmap_view list \<times> 'f shared list) outcome" where
  "mmap_framed_publish io cap write payload kind =
     publish_framed_payload_in_place payload kind cap (\<lambda>call (p, views, outs).
       if \<not> length (fst call) \<le> cap then Panics
       else bind_outcome (mmap_publish io (frame_update write call) p views)
              (\<lambda>(p1, sh1, rest). Returns (p1, rest, outs @ [sh1])))"

type_synonym 'f mmap_managed_input =
  "nat \<times> observation list \<times> 'f shared \<times> (nat \<times> 'f mmap_view) list"

definition mmap_framed_publish_managed ::
  "mmap_io \<Rightarrow> nat \<Rightarrow> (u8 list \<Rightarrow> u8 \<Rightarrow> u32 \<Rightarrow> u8 \<Rightarrow> 'f \<Rightarrow> 'f option) \<Rightarrow> u8 list \<Rightarrow> u8
    \<Rightarrow> u32 \<times> mmap_producer \<times> 'f mmap_managed_input list \<times> 'f shared list
    \<Rightarrow> ((required_error + unit) \<times> u32 \<times> mmap_producer \<times> 'f mmap_managed_input list \<times> 'f shared list) outcome" where
  "mmap_framed_publish_managed io cap write payload kind =
     publish_framed_payload_result_in_place payload kind cap (\<lambda>call (p, inputs, outs).
       case inputs of
         [] \<Rightarrow> Waiting
       | (start, startup, sh, views) # rest \<Rightarrow>
           if \<not> length (fst call) \<le> cap then Panics
           else bind_outcome (mmap_publish_managed io start (frame_update write call) p startup sh views)
                  (\<lambda>(r, p1, sh1, alerts).
                     Returns ((case r of Inl e \<Rightarrow> Inl e | Inr _ \<Rightarrow> Inr ()), p1, rest, outs @ [sh1])))"

definition mmap_framed_enable_required_consumer_liveness where
  "mmap_framed_enable_required_consumer_liveness now config p =
     mmap_enable_required_consumer_liveness now config p"

definition mmap_framed_discover_consumer_id where
  "mmap_framed_discover_consumer_id io start consumer timeout p views =
     mmap_wait_for_consumer_id io start consumer timeout p views"

definition mmap_framed_wait_for_consumers_ready where
  "mmap_framed_wait_for_consumers_ready p min_consumers start timeout obs =
     mmap_producer_wait_ready p min_consumers start timeout obs"

definition mmap_framed_wait_until_consumed where
  "mmap_framed_wait_until_consumed io start sequence timeout p views =
     mmap_wait_until_consumed_with_strategy io start sequence timeout p views"

section \<open>Consumer\<close>

record mmap_framed_consumer =
  mfc_inner :: mmap_consumer
  mfc_wait_strategy :: myelon_wait_strategy

definition mmap_framed_attach ::
  "mmap_io \<Rightarrow> world \<Rightarrow> mmap_transport_layout \<Rightarrow> nat \<Rightarrow> nat \<Rightarrow> string \<Rightarrow> myelon_wait_strategy
    \<Rightarrow> mmap_framed_consumer mp_result \<times> world" where
  "mmap_framed_attach io w l depth element_size consumer wait_strategy =
     (case mmap_consumer_attach io w l depth element_size consumer of
        (r, w1) \<Rightarrow> (map_sum id (\<lambda>c. \<lparr> mfc_inner = c, mfc_wait_strategy = wait_strategy \<rparr>) r, w1))"

definition mmap_framed_has_coordination_support :: "mmap_framed_consumer \<Rightarrow> bool" where
  "mmap_framed_has_coordination_support c = mmap_has_coordination_support (mfc_inner c)"

definition mmap_next_owned ::
  "myelon_wait_strategy \<Rightarrow> mmap_consumer \<times> 'f shared list \<times> 'f shared list
    \<Rightarrow> ('f \<times> mmap_consumer \<times> 'f shared list \<times> 'f shared list) outcome" where
  "mmap_next_owned wait_strategy = (\<lambda>(c, views, outs).
     bind_outcome (case wait_strategy of MwBusySpin \<Rightarrow> mmap_consume_next c views
                                      | MwBlock \<Rightarrow> mmap_consume_next_with_sleep c views)
       (\<lambda>((seq, frame), c1, sh1, rest). Returns (frame, c1, rest, outs @ [sh1])))"

definition mmap_next_leased ::
  "myelon_wait_strategy \<Rightarrow> mmap_consumer \<times> 'f shared list \<times> 'f shared list
    \<Rightarrow> ('f \<times> mmap_consumer \<times> 'f shared list \<times> 'f shared list) outcome" where
  "mmap_next_leased wait_strategy = (\<lambda>(c, views, outs).
     bind_outcome (case wait_strategy of MwBusySpin \<Rightarrow> mmap_consume_next_leased c views
                                      | MwBlock \<Rightarrow> mmap_consume_next_leased_with_sleep c views)
       (\<lambda>(l, sh, rest).
          case mmap_lease_drop l c sh of (c1, sh1) \<Rightarrow> Returns (mmap_lease_deref l sh, c1, rest, outs @ [sh1])))"

definition mmap_recv_owned where
  "mmap_recv_owned clock n meta wait_strategy st =
     recv_framed_message clock n (mmap_next_owned wait_strategy) meta st"

definition mmap_recv_owned_with_meta where
  "mmap_recv_owned_with_meta clock n meta wait_strategy st =
     recv_framed_message_with_meta clock n (mmap_next_owned wait_strategy) meta st"

definition mmap_recv_leased_with_meta where
  "mmap_recv_leased_with_meta clock n meta wait_strategy handler b st =
     recv_framed_message_leased_with_meta clock n (mmap_next_leased wait_strategy) meta handler b st"

definition mmap_recv_leased where
  "mmap_recv_leased clock n meta wait_strategy handler b st =
     mmap_recv_leased_with_meta clock n meta wait_strategy
       (\<lambda>message_meta bytes. handler (rm_kind message_meta) bytes) b st"

text \<open>The batch receivers: one snapshot, the callback of the shared-memory transport; \<open>None\<close> is a
  panic.\<close>

definition mmap_process_available_messages_with_meta ::
  "(nat \<Rightarrow> u64) \<Rightarrow> ('f \<Rightarrow> frame_meta option) \<Rightarrow> (received_meta \<Rightarrow> u8 list \<Rightarrow> 'a \<Rightarrow> 'a) \<Rightarrow> reassembly \<Rightarrow> 'a
    \<Rightarrow> mmap_consumer \<Rightarrow> 'f shared \<Rightarrow> (nat \<times> reassembly \<times> 'a \<times> mmap_consumer \<times> 'f shared) option" where
  "mmap_process_available_messages_with_meta clock meta handler b acc c sh =
     (case mmap_process_available (frame_callback clock meta handler) (Some (0, b, acc)) c sh of
        None \<Rightarrow> None
      | Some (processed, st, c1, sh1) \<Rightarrow>
          map_option (\<lambda>(delivered, b1, acc1). (delivered, b1, acc1, c1, sh1)) st)"

definition mmap_process_available_messages where
  "mmap_process_available_messages clock meta handler b acc c sh =
     mmap_process_available_messages_with_meta clock meta (\<lambda>m bytes. handler (rm_kind m) bytes) b acc c sh"

end
