(* ===== verification/TypedTransport.thy ===== *)
theory TypedTransport
  imports MmapTransport
begin

text \<open>
  Typed messages (\<open>myelon/src/codec.rs\<close> and \<open>myelon/src/typed_transport.rs\<close>): the error of a
  codec, and the typed producers and consumers over both framed transports, with the counters
  they bump. The codec of a message type is a parameter of every operation: \<open>encode\<close>,
  \<open>decode\<close> and, for zero-copy formats, \<open>access\<close>.
\<close>

section \<open>Codecs\<close>

datatype codec_error = Encode string | Decode string

definition codec_error_encode :: "string \<Rightarrow> codec_error" where
  "codec_error_encode e = Encode e"

definition codec_error_decode :: "string \<Rightarrow> codec_error" where
  "codec_error_decode e = Decode e"

definition codec_error_text :: "codec_error \<Rightarrow> string" where
  "codec_error_text e =
     (case e of Encode msg \<Rightarrow> ''codec encode: '' @ msg | Decode msg \<Rightarrow> ''codec decode: '' @ msg)"

type_synonym 'm encoder = "'m \<Rightarrow> codec_error + u8 list"
type_synonym 'm decoder = "u8 list \<Rightarrow> codec_error + 'm"

datatype typed_publish_error = CodecFailure codec_error | RequiredConsumerFailure required_error

definition typed_publish_error_text :: "(required_error \<Rightarrow> string) \<Rightarrow> typed_publish_error \<Rightarrow> string" where
  "typed_publish_error_text required_text e =
     (case e of
        CodecFailure err \<Rightarrow> codec_error_text err
      | RequiredConsumerFailure err \<Rightarrow> required_text err)"

definition from_codec_error :: "codec_error \<Rightarrow> typed_publish_error" where
  "from_codec_error e = CodecFailure e"

definition from_required_error :: "required_error \<Rightarrow> typed_publish_error" where
  "from_required_error e = RequiredConsumerFailure e"

text \<open>\<open>if let Some(h) = &counter { h.inc() }\<close> on the file the counters were registered in.\<close>

definition bump :: "nat option \<Rightarrow> counters_file \<Rightarrow> counters_file" where
  "bump counter f = (case counter of None \<Rightarrow> f | Some i \<Rightarrow> counter_inc i f)"

section \<open>The typed producer\<close>

record typed_producer =
  tp_inner :: framed_producer
  tp_frame_publish_total :: "nat option"
  tp_codec_encode_total :: "nat option"

definition typed_producer_from_raw :: "framed_producer \<Rightarrow> typed_producer" where
  "typed_producer_from_raw inner =
     \<lparr> tp_inner = inner, tp_frame_publish_total = None, tp_codec_encode_total = None \<rparr>"

definition typed_create_with_consumers where
  "typed_create_with_consumers os taken cfg et pid now name depth max_consumers factory counters st obs =
     bind_outcome (framed_create_with_consumers os taken cfg et pid now name depth max_consumers factory counters st obs)
       (\<lambda>(r, st1). Returns (map_sum id typed_producer_from_raw r, st1))"

definition typed_create where
  "typed_create os taken cfg et pid now name depth factory counters st obs =
     typed_create_with_consumers os taken cfg et pid now name depth 1 factory counters st obs"

definition typed_producer_attach_counters :: "typed_producer \<Rightarrow> counters_file \<Rightarrow> typed_producer \<times> counters_file" where
  "typed_producer_attach_counters P f =
     (case counters_register FRAME_PUBLISH_TOTAL COUNTER_FLAG_PRODUCER ''frame_publish_total'' f of (frames, f1) \<Rightarrow>
      case counters_register CODEC_ENCODE_TOTAL COUNTER_FLAG_PRODUCER ''codec_encode_total'' f1 of (codecs, f2) \<Rightarrow>
        (P\<lparr>tp_frame_publish_total := frames, tp_codec_encode_total := codecs\<rparr>, f2))"

definition set_tp_producer :: "producer \<Rightarrow> typed_producer \<Rightarrow> typed_producer" where
  "set_tp_producer p P = P\<lparr>tp_inner := (tp_inner P)\<lparr>fp_inner := p\<rparr>\<rparr>"

text \<open>\<open>publish_raw\<close> and \<open>publish\<close>, on the producer, the counters file, the next message id, the
  views of the spin loops, and the states after each frame.\<close>

type_synonym 'f publish_io = "u32 \<times> 'f view list \<times> 'f shared list"

definition typed_publish_raw ::
  "nat \<Rightarrow> nat \<Rightarrow> (u8 list \<Rightarrow> u8 \<Rightarrow> u32 \<Rightarrow> u8 \<Rightarrow> 'f \<Rightarrow> 'f option) \<Rightarrow> u8 list \<Rightarrow> u8
    \<Rightarrow> typed_producer \<times> counters_file \<times> 'f publish_io
    \<Rightarrow> (typed_producer \<times> counters_file \<times> 'f publish_io) outcome" where
  "typed_publish_raw pid cap write bytes kind = (\<lambda>(P, f, next_id, views, outs).
     bind_outcome (framed_publish pid cap write bytes kind (next_id, fp_inner (tp_inner P), views, outs))
       (\<lambda>(next1, p1, views1, outs1).
          Returns (set_tp_producer p1 P, bump (tp_frame_publish_total P) f, next1, views1, outs1)))"

definition typed_publish ::
  "nat \<Rightarrow> nat \<Rightarrow> (u8 list \<Rightarrow> u8 \<Rightarrow> u32 \<Rightarrow> u8 \<Rightarrow> 'f \<Rightarrow> 'f option) \<Rightarrow> 'm encoder \<Rightarrow> 'm \<Rightarrow> u8
    \<Rightarrow> typed_producer \<times> counters_file \<times> 'f publish_io
    \<Rightarrow> ((codec_error + unit) \<times> typed_producer \<times> counters_file \<times> 'f publish_io) outcome" where
  "typed_publish pid cap write encode msg kind = (\<lambda>(P, f, next_id, views, outs).
     case encode msg of
       Inl e \<Rightarrow> Returns (Inl e, P, f, next_id, views, outs)
     | Inr bytes \<Rightarrow>
         bind_outcome (framed_publish pid cap write bytes kind (next_id, fp_inner (tp_inner P), views, outs))
           (\<lambda>(next1, p1, views1, outs1).
              Returns (Inr (), set_tp_producer p1 P,
                       bump (tp_frame_publish_total P) (bump (tp_codec_encode_total P) f), next1, views1, outs1)))"

definition typed_discover_consumers where
  "typed_discover_consumers pid deadline P views =
     bind_outcome (framed_discover_consumers pid deadline (fp_inner (tp_inner P)) views)
       (\<lambda>(found, p1). Returns (found, set_tp_producer p1 P))"

definition typed_discover_consumer_id where
  "typed_discover_consumer_id start consumer timeout P views =
     bind_outcome (framed_discover_consumer_id start consumer timeout (fp_inner (tp_inner P)) views)
       (\<lambda>(found, p1). Returns (found, set_tp_producer p1 P))"

definition typed_enable_required_consumer_liveness where
  "typed_enable_required_consumer_liveness now config P =
     set_tp_producer (framed_enable_required_consumer_liveness now config (fp_inner (tp_inner P))) P"

definition typed_publish_managed ::
  "nat \<Rightarrow> nat \<Rightarrow> (u8 list \<Rightarrow> u8 \<Rightarrow> u32 \<Rightarrow> u8 \<Rightarrow> 'f \<Rightarrow> 'f option) \<Rightarrow> 'm encoder \<Rightarrow> 'm \<Rightarrow> u8
    \<Rightarrow> typed_producer \<times> counters_file \<times> u32 \<times> 'f managed_input list \<times> 'f shared list
    \<Rightarrow> ((typed_publish_error + unit) \<times> typed_producer \<times> counters_file \<times> u32 \<times> 'f managed_input list
         \<times> 'f shared list) outcome" where
  "typed_publish_managed pid cap write encode msg kind = (\<lambda>(P, f, next_id, inputs, outs).
     case encode msg of
       Inl e \<Rightarrow> Returns (Inl (from_codec_error e), P, f, next_id, inputs, outs)
     | Inr bytes \<Rightarrow>
         bind_outcome (framed_publish_managed pid cap write bytes kind
                         (next_id, fp_inner (tp_inner P), inputs, outs))
           (\<lambda>(r, next1, p1, inputs1, outs1).
              Returns (map_sum from_required_error id r, set_tp_producer p1 P, f, next1, inputs1, outs1)))"

section \<open>The typed consumer\<close>

record typed_consumer =
  tc_inner :: framed_consumer
  tc_frame_reassemble_count :: "nat option"
  tc_codec_decode_total :: "nat option"

definition typed_consumer_from_raw :: "framed_consumer \<Rightarrow> typed_consumer" where
  "typed_consumer_from_raw inner =
     \<lparr> tc_inner = inner, tc_frame_reassemble_count = None, tc_codec_decode_total = None \<rparr>"

definition typed_attach where
  "typed_attach os missing et pid name depth wait_strategy st =
     map_option (\<lambda>(r, st1). (map_sum id typed_consumer_from_raw r, st1))
       (framed_attach os missing et pid name depth wait_strategy st)"

definition typed_attach_with_consumer_id where
  "typed_attach_with_consumer_id os missing et pid name depth consumer wait_strategy st =
     map_option (\<lambda>(r, st1). (map_sum id typed_consumer_from_raw r, st1))
       (framed_attach_with_consumer_id os missing et pid name depth consumer wait_strategy st)"

definition typed_consumer_attach_counters :: "typed_consumer \<Rightarrow> counters_file \<Rightarrow> typed_consumer \<times> counters_file" where
  "typed_consumer_attach_counters C f =
     (case counters_register FRAME_REASSEMBLE_COUNT COUNTER_FLAG_CONSUMER ''frame_reassemble_count'' f of
        (frames, f1) \<Rightarrow>
          (case counters_register CODEC_DECODE_TOTAL COUNTER_FLAG_CONSUMER ''codec_decode_total'' f1 of
             (codecs, f2) \<Rightarrow>
               (C\<lparr>tc_frame_reassemble_count := frames, tc_codec_decode_total := codecs\<rparr>, f2)))"

definition tc_consumer :: "typed_consumer \<Rightarrow> consumer" where
  "tc_consumer C = fc_inner (tc_inner C)"

definition tc_wait :: "typed_consumer \<Rightarrow> myelon_wait_strategy" where
  "tc_wait C = fc_wait_strategy (tc_inner C)"

definition set_tc_consumer :: "consumer \<Rightarrow> typed_consumer \<Rightarrow> typed_consumer" where
  "set_tc_consumer c C = C\<lparr>tc_inner := (tc_inner C)\<lparr>fc_inner := c\<rparr>\<rparr>"

text \<open>The views an operation spins over and the states after each frame it consumed.\<close>

type_synonym 'f receive_io = "'f shared list \<times> 'f shared list"

definition recv_owned ::
  "u64 \<Rightarrow> nat \<Rightarrow> ('f \<Rightarrow> frame_meta option) \<Rightarrow> 'm decoder \<Rightarrow> typed_consumer \<times> counters_file \<times> 'f receive_io
    \<Rightarrow> ((codec_error + u8 \<times> 'm) \<times> typed_consumer \<times> counters_file \<times> 'f receive_io) outcome" where
  "recv_owned clock n meta decode = (\<lambda>(C, f, views, outs).
     bind_outcome (recv_message_blocking_owned clock n meta (tc_wait C) (tc_consumer C, views, outs))
       (\<lambda>((kind, bytes), c1, views1, outs1).
          let f1 = bump (tc_frame_reassemble_count C) f; C1 = set_tc_consumer c1 C in
          case decode bytes of
            Inl e \<Rightarrow> Returns (Inl e, C1, f1, views1, outs1)
          | Inr msg \<Rightarrow> Returns (Inr (kind, msg), C1, bump (tc_codec_decode_total C) f1, views1, outs1)))"

definition recv_owned_with_meta ::
  "u64 \<Rightarrow> nat \<Rightarrow> ('f \<Rightarrow> frame_meta option) \<Rightarrow> 'm decoder \<Rightarrow> typed_consumer \<times> 'f receive_io
    \<Rightarrow> ((codec_error + u8 \<times> 'm \<times> received_meta) \<times> typed_consumer \<times> 'f receive_io) outcome" where
  "recv_owned_with_meta clock n meta decode = (\<lambda>(C, views, outs).
     bind_outcome (recv_message_blocking_owned_with_meta clock n meta (tc_wait C) (tc_consumer C, views, outs))
       (\<lambda>((message_meta, bytes), c1, views1, outs1).
          Returns (map_sum id (\<lambda>msg. (rm_kind message_meta, msg, message_meta)) (decode bytes),
                   set_tc_consumer c1 C, views1, outs1)))"

definition recv_raw_owned where
  "recv_raw_owned clock n meta = (\<lambda>(C, views, outs).
     bind_outcome (recv_message_blocking_owned clock n meta (tc_wait C) (tc_consumer C, views, outs))
       (\<lambda>(r, c1, views1, outs1). Returns (r, set_tc_consumer c1 C, views1, outs1)))"

definition recv_raw_leased where
  "recv_raw_leased clock n meta handler b = (\<lambda>(C, views, outs).
     bind_outcome (recv_message_blocking_leased clock n meta (tc_wait C) handler b (tc_consumer C, views, outs))
       (\<lambda>(r, b1, c1, views1, outs1). Returns (r, b1, set_tc_consumer c1 C, views1, outs1)))"

definition recv_raw_leased_with_meta where
  "recv_raw_leased_with_meta clock n meta handler b = (\<lambda>(C, views, outs).
     bind_outcome (recv_message_blocking_leased_with_meta clock n meta (tc_wait C) handler b (tc_consumer C, views, outs))
       (\<lambda>(r, b1, c1, views1, outs1). Returns (r, b1, set_tc_consumer c1 C, views1, outs1)))"

definition recv_leased_with_meta ::
  "u64 \<Rightarrow> nat \<Rightarrow> ('f \<Rightarrow> frame_meta option) \<Rightarrow> 'x decoder \<Rightarrow> (received_meta \<Rightarrow> 'x \<Rightarrow> 'r) \<Rightarrow> reassembly
    \<Rightarrow> typed_consumer \<times> 'f receive_io
    \<Rightarrow> ((codec_error + 'r) \<times> reassembly \<times> typed_consumer \<times> 'f receive_io) outcome" where
  "recv_leased_with_meta clock n meta access handler b = (\<lambda>(C, views, outs).
     bind_outcome (recv_message_blocking_leased_with_meta clock n meta (tc_wait C)
                     (\<lambda>message_meta bytes. map_sum id (handler message_meta) (access bytes)) b
                     (tc_consumer C, views, outs))
       (\<lambda>(r, b1, c1, views1, outs1). Returns (r, b1, set_tc_consumer c1 C, views1, outs1)))"

definition recv_leased where
  "recv_leased clock n meta access handler b st =
     recv_leased_with_meta clock n meta access (\<lambda>message_meta archived. handler (rm_kind message_meta) archived) b st"

text \<open>The callback of the typed batch receivers: it counts its own deliveries and panics
  (\<open>None\<close>) when a message does not decode.\<close>

definition typed_callback ::
  "'m decoder \<Rightarrow> (u8 \<Rightarrow> 'm \<Rightarrow> 'a \<Rightarrow> 'a) \<Rightarrow> u8 \<Rightarrow> u8 list \<Rightarrow> (nat \<times> 'a) option \<Rightarrow> (nat \<times> 'a) option" where
  "typed_callback decode handler kind bytes st =
     (case st of
        None \<Rightarrow> None
      | Some (delivered, acc) \<Rightarrow>
          (case decode bytes of
             Inl _ \<Rightarrow> None
           | Inr msg \<Rightarrow> Some (delivered + 1, handler kind msg acc)))"

definition typed_process_available ::
  "(nat \<Rightarrow> u64) \<Rightarrow> ('f \<Rightarrow> frame_meta option) \<Rightarrow> 'm decoder \<Rightarrow> (u8 \<Rightarrow> 'm \<Rightarrow> 'a \<Rightarrow> 'a) \<Rightarrow> reassembly \<Rightarrow> 'a
    \<Rightarrow> typed_consumer \<Rightarrow> 'f shared \<Rightarrow> 'f shared list
    \<Rightarrow> (nat \<times> reassembly \<times> 'a \<times> typed_consumer \<times> 'f shared) outcome" where
  "typed_process_available clock meta decode handler b acc C sh views =
     bind_outcome (process_available_messages clock meta (typed_callback decode handler) b (Some (0, acc))
                     (tc_consumer C) sh views)
       (\<lambda>(_, b1, st, c1, sh1).
          case st of
            None \<Rightarrow> Panics
          | Some (delivered, acc1) \<Rightarrow> Returns (delivered, b1, acc1, set_tc_consumer c1 C, sh1))"

definition process_available_zero_copy where
  "process_available_zero_copy clock meta access handler b acc C sh views =
     typed_process_available clock meta access handler b acc C sh views"

section \<open>The memory-mapped typed transport\<close>

record mmap_typed_producer =
  mtp_inner :: mmap_framed_producer

definition mmap_typed_producer_from_raw :: "mmap_framed_producer \<Rightarrow> mmap_typed_producer" where
  "mmap_typed_producer_from_raw inner = \<lparr> mtp_inner = inner \<rparr>"

definition mmap_typed_create where
  "mmap_typed_create io l depth element_size frame_default sh =
     map_option (\<lambda>(r, sh1). (map_sum id mmap_typed_producer_from_raw r, sh1))
       (mmap_framed_create io l depth element_size frame_default sh)"

definition mtp_producer :: "mmap_typed_producer \<Rightarrow> mmap_producer" where
  "mtp_producer P = mfp_inner (mtp_inner P)"

definition set_mtp_producer :: "mmap_producer \<Rightarrow> mmap_typed_producer \<Rightarrow> mmap_typed_producer" where
  "set_mtp_producer p P = P\<lparr>mtp_inner := (mtp_inner P)\<lparr>mfp_inner := p\<rparr>\<rparr>"

definition mmap_typed_publish_raw where
  "mmap_typed_publish_raw io cap write bytes kind = (\<lambda>(P, next_id, views, outs).
     bind_outcome (mmap_framed_publish io cap write bytes kind (next_id, mtp_producer P, views, outs))
       (\<lambda>(next1, p1, views1, outs1). Returns (set_mtp_producer p1 P, next1, views1, outs1)))"

definition mmap_typed_publish where
  "mmap_typed_publish io cap write encode msg kind = (\<lambda>(P, next_id, views, outs).
     case encode msg of
       Inl e \<Rightarrow> Returns (Inl e, P, next_id, views, outs)
     | Inr bytes \<Rightarrow>
         bind_outcome (mmap_framed_publish io cap write bytes kind (next_id, mtp_producer P, views, outs))
           (\<lambda>(next1, p1, views1, outs1). Returns (Inr (), set_mtp_producer p1 P, next1, views1, outs1)))"

definition mmap_typed_enable_required_consumer_liveness where
  "mmap_typed_enable_required_consumer_liveness now config P =
     set_mtp_producer (mmap_framed_enable_required_consumer_liveness now config (mtp_producer P)) P"

definition mmap_typed_discover_consumer_id where
  "mmap_typed_discover_consumer_id io start consumer timeout P views =
     bind_outcome (mmap_framed_discover_consumer_id io start consumer timeout (mtp_producer P) views)
       (\<lambda>(found, p1). Returns (found, set_mtp_producer p1 P))"

definition mmap_typed_publish_managed where
  "mmap_typed_publish_managed io cap write encode msg kind = (\<lambda>(P, next_id, inputs, outs).
     case encode msg of
       Inl e \<Rightarrow> Returns (Inl (from_codec_error e), P, next_id, inputs, outs)
     | Inr bytes \<Rightarrow>
         bind_outcome (mmap_framed_publish_managed io cap write bytes kind (next_id, mtp_producer P, inputs, outs))
           (\<lambda>(r, next1, p1, inputs1, outs1).
              Returns (map_sum from_required_error id r, set_mtp_producer p1 P, next1, inputs1, outs1)))"

record mmap_typed_consumer =
  mtc_inner :: mmap_framed_consumer

definition mmap_typed_consumer_from_raw :: "mmap_framed_consumer \<Rightarrow> mmap_typed_consumer" where
  "mmap_typed_consumer_from_raw inner = \<lparr> mtc_inner = inner \<rparr>"

definition mmap_typed_attach where
  "mmap_typed_attach io w l depth element_size consumer wait_strategy =
     (case mmap_framed_attach io w l depth element_size consumer wait_strategy of
        (r, w1) \<Rightarrow> (map_sum id mmap_typed_consumer_from_raw r, w1))"

definition mtc_consumer :: "mmap_typed_consumer \<Rightarrow> mmap_consumer" where
  "mtc_consumer C = mfc_inner (mtc_inner C)"

definition mtc_wait :: "mmap_typed_consumer \<Rightarrow> myelon_wait_strategy" where
  "mtc_wait C = mfc_wait_strategy (mtc_inner C)"

definition set_mtc_consumer :: "mmap_consumer \<Rightarrow> mmap_typed_consumer \<Rightarrow> mmap_typed_consumer" where
  "set_mtc_consumer c C = C\<lparr>mtc_inner := (mtc_inner C)\<lparr>mfc_inner := c\<rparr>\<rparr>"

definition mmap_typed_recv_owned ::
  "u64 \<Rightarrow> nat \<Rightarrow> ('f \<Rightarrow> frame_meta option) \<Rightarrow> 'm decoder \<Rightarrow> mmap_typed_consumer \<times> 'f receive_io
    \<Rightarrow> ((codec_error + u8 \<times> 'm) \<times> mmap_typed_consumer \<times> 'f receive_io) outcome" where
  "mmap_typed_recv_owned clock n meta decode = (\<lambda>(C, views, outs).
     bind_outcome (mmap_recv_owned clock n meta (mtc_wait C) (mtc_consumer C, views, outs))
       (\<lambda>((kind, bytes), c1, views1, outs1).
          Returns (map_sum id (Pair kind) (decode bytes), set_mtc_consumer c1 C, views1, outs1)))"

definition mmap_typed_recv_owned_with_meta where
  "mmap_typed_recv_owned_with_meta clock n meta decode = (\<lambda>(C, views, outs).
     bind_outcome (mmap_recv_owned_with_meta clock n meta (mtc_wait C) (mtc_consumer C, views, outs))
       (\<lambda>((message_meta, bytes), c1, views1, outs1).
          Returns (map_sum id (\<lambda>msg. (rm_kind message_meta, msg, message_meta)) (decode bytes),
                   set_mtc_consumer c1 C, views1, outs1)))"

definition mmap_typed_recv_raw_owned where
  "mmap_typed_recv_raw_owned clock n meta = (\<lambda>(C, views, outs).
     bind_outcome (mmap_recv_owned clock n meta (mtc_wait C) (mtc_consumer C, views, outs))
       (\<lambda>(r, c1, views1, outs1). Returns (r, set_mtc_consumer c1 C, views1, outs1)))"

definition mmap_typed_recv_raw_leased where
  "mmap_typed_recv_raw_leased clock n meta handler b = (\<lambda>(C, views, outs).
     bind_outcome (mmap_recv_leased clock n meta (mtc_wait C) handler b (mtc_consumer C, views, outs))
       (\<lambda>(r, b1, c1, views1, outs1). Returns (r, b1, set_mtc_consumer c1 C, views1, outs1)))"

definition mmap_typed_recv_raw_leased_with_meta where
  "mmap_typed_recv_raw_leased_with_meta clock n meta handler b = (\<lambda>(C, views, outs).
     bind_outcome (mmap_recv_leased_with_meta clock n meta (mtc_wait C) handler b (mtc_consumer C, views, outs))
       (\<lambda>(r, b1, c1, views1, outs1). Returns (r, b1, set_mtc_consumer c1 C, views1, outs1)))"

definition mmap_typed_recv_leased_with_meta where
  "mmap_typed_recv_leased_with_meta clock n meta access handler b = (\<lambda>(C, views, outs).
     bind_outcome (mmap_recv_leased_with_meta clock n meta (mtc_wait C)
                     (\<lambda>message_meta bytes. map_sum id (handler message_meta) (access bytes)) b
                     (mtc_consumer C, views, outs))
       (\<lambda>(r, b1, c1, views1, outs1). Returns (r, b1, set_mtc_consumer c1 C, views1, outs1)))"

definition mmap_typed_recv_leased where
  "mmap_typed_recv_leased clock n meta access handler b st =
     mmap_typed_recv_leased_with_meta clock n meta access
       (\<lambda>message_meta archived. handler (rm_kind message_meta) archived) b st"

definition mmap_typed_process_available_zero_copy where
  "mmap_typed_process_available_zero_copy clock meta access handler b acc C sh =
     (case mmap_process_available_messages clock meta (typed_callback access handler) b (Some (0, acc))
             (mtc_consumer C) sh of
        None \<Rightarrow> None
      | Some (_, b1, st, c1, sh1) \<Rightarrow>
          map_option (\<lambda>(delivered, acc1). (delivered, b1, acc1, set_mtc_consumer c1 C, sh1)) st)"

section \<open>Typed messages over the ring\<close>

text \<open>A message the codec carries over: it encodes, and its bytes decode to it.\<close>

definition carried :: "'m encoder \<Rightarrow> 'm decoder \<Rightarrow> 'm \<Rightarrow> bool" where
  "carried encode decode m \<longleftrightarrow> (case encode m of Inl _ \<Rightarrow> False | Inr bytes \<Rightarrow> decode bytes = Inr m)"

definition encoded :: "'m encoder \<Rightarrow> 'm \<Rightarrow> u8 list" where
  "encoded encode m = (case encode m of Inl _ \<Rightarrow> [] | Inr bytes \<Rightarrow> bytes)"

lemma decode_encoded: "carried encode decode m \<Longrightarrow> decode (encoded encode m) = Inr m"
  by (simp add: carried_def encoded_def split: sum.splits)

type_synonym 'm typed_message = "'m \<times> u8 \<times> u32"

definition as_bytes :: "'m encoder \<Rightarrow> 'm typed_message \<Rightarrow> message" where
  "as_bytes encode = (\<lambda>(m, kind, msg_id). (encoded encode m, kind, msg_id))"

lemma fold_typed_callback:
  assumes "\<forall>(m, kind, msg_id) \<in> set messages. carried encode decode m"
  shows "fold (\<lambda>(payload, kind, msg_id). typed_callback decode handler kind payload)
           (map (as_bytes encode) messages) (Some (d, acc))
     = Some (d + length messages, fold (\<lambda>(m, kind, msg_id). handler kind m) messages acc)"
  using assms
proof (induction messages arbitrary: d acc)
  case (Cons x messages)
  obtain m kind msg_id where x: "x = (m, kind, msg_id)" by (cases x)
  then have "decode (encoded encode m) = Inr m" using Cons.prems by (auto intro: decode_encoded)
  then show ?case using Cons by (simp add: x as_bytes_def typed_callback_def)
qed simp

lemma fold_enumerate: "fold (\<lambda>(k, x). g x) (enumerate d xs) st = fold g xs st"
  by (induction xs arbitrary: d st) simp_all

text \<open>C12. Typed delivery. Let the frames between a consumer's position and the last cursor value
  its batch receiver sees be those of a sequence of typed messages that the codec carries over.
  Then one call of \<open>process_available\<close> returns without a panic, hands the handler exactly those
  messages, decoded, in order and with their kinds, counts them, and leaves the consumer at
  that cursor value. The receiver's reassembly buffer may hold the beginning of another message.\<close>

theorem typed_batch_delivers:
  assumes "-1 \<le> cn_last (tc_consumer C)" "cn_last (tc_consumer C) < seq_limit"
    and "views_show hist (tc_consumer C) (cn_last (tc_consumer C)) views"
    and "drained (tc_consumer C) (cn_last (tc_consumer C)) views = Some k"
    and "carries meta (map snd (events hist (cn_last (tc_consumer C) + 1) (k + 1)))
           (message_calls n (map (as_bytes encode) messages))"
    and "0 < n" "reassembly_wf b"
    and "\<forall>(m, kind, msg_id) \<in> set messages. carried encode decode m
           \<and> length (encoded encode m) + 16 \<le> usize_max"
  shows "\<exists>b1 sh1. typed_process_available clock meta decode handler b acc C sh views
     = Returns (length messages, b1, fold (\<lambda>(m, kind, msg_id). handler kind m) messages acc,
         set_tc_consumer ((tc_consumer C)\<lparr>cn_last := k\<rparr>) C, sh1)"
proof -
  let ?h = "\<lambda>message_meta bytes. typed_callback decode handler (rm_kind message_meta) bytes"
  have "\<forall>(payload, kind, msg_id) \<in> set (map (as_bytes encode) messages). length payload + 16 \<le> usize_max"
    using assms(8) by (auto simp: as_bytes_def)
  note delivered = on_frames_messages [OF assms(6,5,7) this, of clock ?h 0 "Some (0, acc)"]
  have "fold (\<lambda>(k, payload, kind, msg_id).
            ?h \<lparr> rm_kind = kind, rm_msg_id = msg_id, rm_sent = None, rm_received = clock k \<rparr> payload)
          (enumerate 0 (map (as_bytes encode) messages)) st
      = fold (\<lambda>(payload, kind, msg_id). typed_callback decode handler kind payload)
          (map (as_bytes encode) messages) st" for st
    using fold_enumerate [of "\<lambda>(payload, kind, msg_id). typed_callback decode handler kind payload" 0
        "map (as_bytes encode) messages" st]
    by (simp add: case_prod_unfold)
  with delivered
  obtain b1 where "on_frames clock meta ?h
        (map snd (events hist (cn_last (tc_consumer C) + 1) (k + 1))) (0, b, Some (0, acc))
      = Some (length messages, b1,
          Some (length messages, fold (\<lambda>(m, kind, msg_id). handler kind m) messages acc))"
    using fold_typed_callback [of messages encode decode handler 0 acc] assms(8) by (auto simp: split_beta)
  from batch_receive_views [OF assms(1-4) this, of sh] show ?thesis
    by (auto simp: typed_process_available_def process_available_messages_def)
qed

text \<open>A codec of byte triples, and two of its messages as two frames each in an eight-slot ring.\<close>

definition triple_encode :: "(u8 \<times> u8 \<times> u8) encoder" where
  "triple_encode = (\<lambda>(x, y, z). Inr [x, y, z])"

definition triple_decode :: "(u8 \<times> u8 \<times> u8) decoder" where
  "triple_decode bytes = (case bytes of [x, y, z] \<Rightarrow> Inr (x, y, z) | _ \<Rightarrow> Inl (Decode ''too short''))"

definition triple_reader :: typed_consumer where
  "triple_reader = typed_consumer_from_raw
     \<lparr> fc_inner = rd_consumer (demo_reader 1 (-1) :: fixed_frame reader), fc_wait_strategy = MwBlock \<rparr>"

theorem typed_batch_delivers_witness:
  "\<exists>fs b1 sh1. carries fixed_frame_meta fs (message_calls 2 [([1, 2, 3], 7, 1), ([4, 5, 6], 8, 2)])
     \<and> typed_process_available (\<lambda>_. 0) fixed_frame_meta triple_decode (\<lambda>kind m acc. acc @ [(kind, m)]) reassembly_new []
         triple_reader
         (sy_shared (demo 2 4 tracked_one (fs @ replicate 4 (fixed_frame_default 2))))
         [sy_shared (demo 2 4 tracked_one (fs @ replicate 4 (fixed_frame_default 2))),
          sy_shared (demo 2 4 tracked_one (fs @ replicate 4 (fixed_frame_default 2)))]
       = Returns (2, b1, [(7, (1, 2, 3)), (8, (4, 5, 6))],
           set_tc_consumer ((tc_consumer triple_reader)\<lparr>cn_last := 3\<rparr>) triple_reader, sh1)"
proof -
  let ?messages = "[((1, 2, 3), 7, 1), ((4, 5, 6), 8, 2)] :: (u8 \<times> u8 \<times> u8) typed_message list"
  let ?calls = "message_calls 2 [([1, 2, 3], 7, 1), ([4, 5, 6], 8, 2)]"
  have calls: "?calls = [([1, 2], 7, 1, frame_flags True False), ([3], 7, 1, frame_flags False True),
      ([4, 5], 8, 2, frame_flags True False), ([6], 8, 2, frame_flags False True)]"
    by (simp add: message_calls_def frame_calls_list frame_list_cases)
  have "fixed_frame_wf 2 (fixed_frame_default 2)" by (simp add: fixed_frame_wf_def fixed_frame_default_def)
  then obtain fs where fs: "carries fixed_frame_meta fs ?calls"
    using fixed.run_calls_put [of 2 "\<lambda>i. fixed_frame_default 2" ?calls "[]"] by (auto simp: calls)
  then have four: "length fs = 4" by (auto simp: calls carries_Cons)
  define xs where "xs = fs @ replicate 4 (fixed_frame_default 2)"
  define v where "v = sy_shared (demo 2 4 tracked_one xs)"
  define c where "c = rd_consumer (demo_reader 1 (-1) :: fixed_frame reader)"
  have c: "tc_consumer triple_reader = c"
    by (simp add: triple_reader_def tc_consumer_def typed_consumer_from_raw_def c_def demo_reader_def)
  have xs: "length xs = 8" "take 4 xs = fs" using four by (simp_all add: xs_def)
  have ok: "system_ok (demo 2 4 tracked_one xs)" by (rule demo_ok) (simp_all add: xs)
  have mem: "demo_reader 1 (-1) \<in> set (sy_readers (demo 2 4 tracked_one xs))" by simp
  have last: "cn_last c = -1" by (simp add: c_def demo_reader_def)
  have limit: "view_limit c v = 3"
    by (simp add: c_def v_def view_limit_def demo_reader_def demo_def load_def)
  have "view_shows fs c (-1) v"
    using system_view_shows [OF ok mem, of "[]", folded c_def v_def] last by (simp add: xs)
  then have views: "views_show fs c (cn_last c) [v, v]" using four by (auto simp: last limit view_shows_def)
  have stop: "drained c (cn_last c) [v, v] = Some 3" by (simp add: last limit)
  have "map snd (events fs 0 4) = fs" using four events_snd [of 0 4 fs] by simp
  then have frames: "carries fixed_frame_meta (map snd (events fs (cn_last c + 1) (3 + 1)))
      (message_calls 2 (map (as_bytes triple_encode) ?messages))"
    using fs by (simp add: last as_bytes_def encoded_def triple_encode_def)
  have range: "-1 \<le> cn_last c" "cn_last c < seq_limit" by (simp_all add: last seq_limit_def)
  have codec: "\<forall>(m, kind, msg_id) \<in> set ?messages. carried triple_encode triple_decode m
      \<and> length (encoded triple_encode m) + 16 \<le> usize_max"
    by (simp add: carried_def encoded_def triple_encode_def triple_decode_def usize_max_def)
  from typed_batch_delivers [of triple_reader, unfolded c, OF range views stop frames _ reassembly_new_wf codec,
      of "\<lambda>_. 0" "\<lambda>kind m acc. acc @ [(kind, m)]" "[]" v]
  obtain b1 sh1 where "typed_process_available (\<lambda>_. 0) fixed_frame_meta triple_decode (\<lambda>kind m acc. acc @ [(kind, m)])
        reassembly_new [] triple_reader v [v, v]
      = Returns (2, b1, [(7, (1, 2, 3)), (8, (4, 5, 6))],
          set_tc_consumer (c\<lparr>cn_last := 3\<rparr>) triple_reader, sh1)" by auto
  then show ?thesis using fs unfolding c v_def xs_def by blast
qed

end
