(* ===== verification/MmapProtocol.thy ===== *)
theory MmapProtocol
  imports Mmap Disruptor
begin

text \<open>
  The mmap backend as a run of the ring protocol. A system of one mmap producer and its mmap
  consumers is abstracted to a system of the shared-memory protocol whose barrier tracks every
  consumer; as long as each scan of the consumers directory shows the cursor files of all
  consumers, every step of the mmap system is a step of the abstract one, so the safety of the ring
  carries over. Two runs show what happens otherwise.
\<close>

section \<open>Systems over files\<close>

record 'e mmap_reader =
  mr_consumer :: mmap_consumer
  mr_phase :: reader_phase
  mr_start :: int
  mr_seen :: "(int \<times> 'e) list"

record 'e mmap_system =
  ms_shared :: "'e shared"
  ms_producer :: mmap_producer
  ms_phase :: writer_phase
  ms_readers :: "'e mmap_reader list"
  ms_hist :: "'e list"

definition ms_world :: "'e mmap_system \<Rightarrow> world" where
  "ms_world s = sh_world (ms_shared s)"

definition registered :: "'e mmap_system \<Rightarrow> (string \<times> handle) list" where
  "registered s = map (\<lambda>r. (mc_id (mr_consumer r), mc_cursor (mr_consumer r))) (ms_readers s)"

text \<open>An entry that can be read and, if it is a cursor file, belongs to one of the given consumers.\<close>

definition only_cursors :: "(string \<times> handle) list \<Rightarrow> dir_entry \<Rightarrow> bool" where
  "only_cursors cs e \<longleftrightarrow>
     (case e of
        EntryError _ \<Rightarrow> False
      | NotUtf8 \<Rightarrow> True
      | Named name \<Rightarrow> snd (split_name name) = Some ''cursor'' \<longrightarrow> fst (split_name name) \<in> fst ` set cs)"

text \<open>A scan that reads every entry and shows a cursor file for each registered consumer and for
  nobody else; other files may be there.\<close>

definition complete_listing :: "'e mmap_system \<Rightarrow> dir_listing \<Rightarrow> bool" where
  "complete_listing s listing \<longleftrightarrow>
     (\<exists>es. listing = DirEntries es \<and> (\<forall>e \<in> set es. only_cursors (registered s) e)
        \<and> (\<forall>consumer \<in> fst ` set (registered s). Named (consumer @ ''.cursor'') \<in> set es))"

inductive mmap_step :: "mmap_io \<Rightarrow> 'e mmap_system \<Rightarrow> 'e mmap_system \<Rightarrow> bool" for io :: mmap_io where
  reserve:
    "\<lbrakk> ms_phase s = Ready; 0 < n; mp_sequence (ms_producer s) + int n \<le> seq_limit; complete_listing s listing;
       mmap_next_sequences io (ms_world s) listing n (ms_producer s) = Some (Inr u, p1) \<rbrakk>
     \<Longrightarrow> mmap_step io s (s\<lparr>ms_producer := p1, ms_phase := Filling (mp_sequence (ms_producer s)) u\<rparr>)"
| refuse:
    "\<lbrakk> ms_phase s = Ready; 0 < n; mp_sequence (ms_producer s) + int n \<le> seq_limit; complete_listing s listing;
       mmap_next_sequences io (ms_world s) listing n (ms_producer s) = Some (Inl e, p1) \<rbrakk>
     \<Longrightarrow> mmap_step io s (s\<lparr>ms_producer := p1\<rparr>)"
| fill:
    "\<lbrakk> ms_phase s = Filling q u; q \<le> u;
       update_event (mp_ring (ms_producer s)) q f (sh_slots (ms_shared s)) = Some slots;
       read_slot (mp_ring (ms_producer s)) slots q = Some e \<rbrakk>
     \<Longrightarrow> mmap_step io s (s\<lparr>ms_shared := (ms_shared s)\<lparr>sh_slots := slots\<rparr>,
                           ms_phase := Filling (q + 1) u, ms_hist := ms_hist s @ [e]\<rparr>)"
| commit:
    "\<lbrakk> ms_phase s = Filling (u + 1) u \<rbrakk>
     \<Longrightarrow> mmap_step io s (s\<lparr>ms_shared := shared_store (mp_cursor (ms_producer s)) u (ms_shared s),
                           ms_producer := (ms_producer s)\<lparr>mp_sequence := u + 1\<rparr>, ms_phase := Ready\<rparr>)"
| acquire:
    "\<lbrakk> i < length (ms_readers s); r = ms_readers s ! i; mr_phase r = Idle;
       mmap_batch_bounds (mr_consumer r) (ms_world s) = Some (lower, upper) \<rbrakk>
     \<Longrightarrow> mmap_step io s (s\<lparr>ms_readers := (ms_readers s)[i := r\<lparr>mr_phase := Batch lower upper\<rparr>]\<rparr>)"
| take_event:
    "\<lbrakk> i < length (ms_readers s); r = ms_readers s ! i; mr_phase r = Batch q upper; q \<le> upper;
       read_slot (mc_ring (mr_consumer r)) (sh_slots (ms_shared s)) q = Some e \<rbrakk>
     \<Longrightarrow> mmap_step io s (s\<lparr>ms_readers := (ms_readers s)[i :=
           r\<lparr>mr_phase := Batch (q + 1) upper, mr_seen := mr_seen r @ [(q, e)]\<rparr>]\<rparr>)"
| finish:
    "\<lbrakk> i < length (ms_readers s); r = ms_readers s ! i; mr_phase r = Batch q upper;
       mc_last (mr_consumer r) + 1 < q;
       mmap_publish_consumed (q - 1) (mr_consumer r) (ms_shared s) = (c1, sh1) \<rbrakk>
     \<Longrightarrow> mmap_step io s (s\<lparr>ms_shared := sh1,
           ms_readers := (ms_readers s)[i := r\<lparr>mr_consumer := c1, mr_phase := Idle\<rparr>]\<rparr>)"

inductive mmap_run :: "mmap_io \<Rightarrow> 'e mmap_system \<Rightarrow> 'e mmap_system \<Rightarrow> bool" for io :: mmap_io where
  refl: "mmap_run io s s"
| step: "mmap_run io s t \<Longrightarrow> mmap_step io t t' \<Longrightarrow> mmap_run io s t'"

section \<open>The abstraction\<close>

definition abs_handle :: "string \<Rightarrow> handle \<Rightarrow> handle" where
  "abs_handle consumer h = (sequence_name [] consumer, snd h)"

definition abs_consumer :: "mmap_consumer \<Rightarrow> consumer" where
  "abs_consumer c =
     \<lparr> cn_ring = mc_ring c, cn_producer = mc_producer c, cn_cursor = abs_handle (mc_id c) (mc_cursor c),
       cn_id = mc_id c, cn_last = mc_last c, cn_ready = None, cn_events_consumed = None,
       cn_empty_spins = None, cn_lag_max = None \<rparr>"

definition abs_reader :: "'e mmap_reader \<Rightarrow> 'e reader" where
  "abs_reader r =
     \<lparr> rd_consumer = abs_consumer (mr_consumer r), rd_phase = mr_phase r, rd_start = mr_start r,
       rd_seen = mr_seen r \<rparr>"

definition abs_barrier :: "(string \<times> handle) list \<Rightarrow> barrier" where
  "abs_barrier cs =
     \<lparr> cb_cursors = map (\<lambda>(consumer, h). (consumer, abs_handle consumer h)) cs, cb_base_name = [],
       cb_last_scan = 0, cb_ready = None, cb_registration = None, cb_mode = Enabled 0 None 0,
       cb_completed = True, cb_producer = None \<rparr>"

definition abs_producer :: "(string \<times> handle) list \<Rightarrow> mmap_producer \<Rightarrow> producer" where
  "abs_producer cs p =
     \<lparr> pd_ring = mp_ring p, pd_cursor = mp_cursor p, pd_barrier = abs_barrier cs,
       pd_sequence = mp_sequence p, pd_clear = mp_clear p, pd_coordination_completed = False,
       pd_liveness = None, pd_events_published = None, pd_full_events = None \<rparr>"

definition abs_world :: "(string \<times> handle) list \<Rightarrow> world \<Rightarrow> world" where
  "abs_world cs w =
     w\<lparr>w_names := map_of (map (\<lambda>(consumer, h). (sequence_name [] consumer, snd h)) cs)\<rparr>"

definition abs_shared :: "(string \<times> handle) list \<Rightarrow> 'e shared \<Rightarrow> 'e shared" where
  "abs_shared cs sh = sh\<lparr>sh_world := abs_world cs (sh_world sh)\<rparr>"

definition abs_system :: "'e mmap_system \<Rightarrow> 'e system" where
  "abs_system s =
     (let cs = registered s in
      \<lparr> sy_shared = abs_shared cs (ms_shared s), sy_producer = abs_producer cs (ms_producer s),
        sy_phase = ms_phase s, sy_readers = map abs_reader (ms_readers s), sy_hist = ms_hist s \<rparr>)"

text \<open>The files behind a system: distinct ids, each with a usable cursor file that the consumer
  maps, and a barrier that has found only these.\<close>

definition files_ok :: "mmap_io \<Rightarrow> 'e mmap_system \<Rightarrow> bool" where
  "files_ok io s \<longleftrightarrow>
     ms_readers s \<noteq> [] \<and> distinct (map fst (registered s))
     \<and> (\<forall>(consumer, h) \<in> set (registered s).
          \<exists>config. consumer_cursor_config (mb_layout (mp_barrier (ms_producer s))) consumer False = Inr config
             \<and> file_attach io (ms_world s) (mcc_path config) = Inr h)
     \<and> set (mb_cursors (mp_barrier (ms_producer s))) \<subseteq> set (registered s)"

lemma abs_simps [simp]:
  "load (abs_world cs w) h = load w h"
  "load w (abs_handle consumer h) = load w h"
  "store (abs_world cs w) h v = abs_world cs (store w h v)"
  "store w (abs_handle consumer h) v = store w h v"
  "snd (abs_handle consumer h) = snd h"
  "sh_world (abs_shared cs sh) = abs_world cs (sh_world sh)"
  "sh_slots (abs_shared cs sh) = sh_slots sh"
  by (simp_all add: load_def store_def abs_world_def abs_handle_def abs_shared_def)

lemma abs_shared_store [simp]:
  "shared_store h v (abs_shared cs sh) = abs_shared cs (shared_store h v sh)"
  "shared_store (abs_handle consumer h) v sh = shared_store h v sh"
  by (simp_all add: shared_store_def abs_shared_def)

lemma registered_nth: "i < length (ms_readers s) \<Longrightarrow>
    registered s ! i = (mc_id (mr_consumer (ms_readers s ! i)), mc_cursor (mr_consumer (ms_readers s ! i)))"
  by (simp add: registered_def)

text \<open>Steps of readers and of the writer keep the registered consumers.\<close>

lemma mmap_step_registered:
  assumes "mmap_step io s t"
  shows "registered t = registered s"
  using assms
  by cases (auto simp: registered_def list_eq_iff_nth_eq nth_list_update mmap_publish_consumed_def)

section \<open>A complete scan finds everybody\<close>

lemma split_cursor_name:
  assumes "validate_component label consumer = Inr ()"
  shows "split_name (consumer @ ''.cursor'') = (consumer, Some ''cursor'')"
  using assms by (simp add: split_name_def validate_component_ok Let_def)

definition shown :: "dir_entry list \<Rightarrow> string \<Rightarrow> bool" where
  "shown es consumer \<longleftrightarrow> (\<exists>name. Named name \<in> set es \<and> split_name name = (consumer, Some ''cursor''))"

lemma shown_Cons [simp]:
  "shown (NotUtf8 # es) consumer = shown es consumer"
  "shown (Named name # es) consumer \<longleftrightarrow> split_name name = (consumer, Some ''cursor'') \<or> shown es consumer"
  by (auto simp: shown_def)

definition finds :: "(string \<times> handle) list \<Rightarrow> dir_entry list \<Rightarrow> (string \<times> handle) list
    \<Rightarrow> (string \<times> handle) list \<Rightarrow> bool" where
  "finds cs es old new \<longleftrightarrow>
     set new \<subseteq> set cs \<and> (\<forall>x \<in> set cs. shown es (fst x) \<longrightarrow> x \<in> set old \<union> set new)"

lemma discover_entries_complete:
  assumes "\<forall>e \<in> set es. only_cursors cs e" and "distinct (map fst cs)"
    and "\<forall>(consumer, h) \<in> set cs. \<exists>config. consumer_cursor_config (mb_layout b) consumer False = Inr config
             \<and> file_attach io w (mcc_path config) = Inr h"
    and "set (mb_cursors b) \<subseteq> set cs"
  shows "\<exists>k new. mmap_discover_entries io w es d b = (Inr k, b\<lparr>mb_cursors := mb_cursors b @ new\<rparr>)
     \<and> finds cs es (mb_cursors b) new"
  using assms
proof (induction es arbitrary: b d)
  case Nil
  show ?case by (intro exI [of _ d] exI [of _ "[]"]) (simp add: shown_def finds_def)
next
  case (Cons e es)
  have es: "\<forall>e \<in> set es. only_cursors cs e" and e: "only_cursors cs e" using Cons.prems(1) by simp_all
  obtain k new where skip: "mmap_discover_entries io w es d b = (Inr k, b\<lparr>mb_cursors := mb_cursors b @ new\<rparr>)"
    "finds cs es (mb_cursors b) new"
    using Cons.IH [OF es Cons.prems(2-4)] by blast
  show ?case
  proof (cases e)
    case (EntryError x)
    then show ?thesis using e by (simp add: only_cursors_def)
  next
    case NotUtf8
    then have "mmap_discover_entries io w (e # es) d b = (Inr k, b\<lparr>mb_cursors := mb_cursors b @ new\<rparr>)"
      "finds cs (e # es) (mb_cursors b) new" using skip by (simp_all add: finds_def)
    then show ?thesis by blast
  next
    case (Named name)
    obtain consumer ext where split: "split_name name = (consumer, ext)" by fastforce
    show ?thesis
    proof (cases "ext = Some ''cursor'' \<and> \<not> mmap_known b consumer")
      case False
      have "finds cs (e # es) (mb_cursors b) new"
      proof (cases "ext = Some ''cursor''")
        case True
        then obtain h where h: "(consumer, h) \<in> set (mb_cursors b)"
          using False by (auto simp: mmap_known_def dest: map_of_SomeD)
        have "x = (consumer, h)" if "x \<in> set cs" "fst x = consumer" for x
          using eq_key_imp_eq_value [OF Cons.prems(2), of consumer "snd x" h]
            subsetD [OF Cons.prems(4) h] that by (cases x) simp
        then have "x \<in> set (mb_cursors b)" if "x \<in> set cs" "fst x = consumer" for x
          using that h by metis
        then show ?thesis using skip(2) unfolding finds_def Named shown_Cons split by fastforce
      next
        case False
        then show ?thesis using skip(2) by (simp add: finds_def Named split)
      qed
      moreover have "mmap_discover_entries io w (e # es) d b = (Inr k, b\<lparr>mb_cursors := mb_cursors b @ new\<rparr>)"
        using False skip(1) by (auto simp: Named split)
      ultimately show ?thesis by blast
    next
      case unknown: True
      then have "consumer \<in> fst ` set cs" using e by (simp add: Named split only_cursors_def)
      then obtain h where h: "(consumer, h) \<in> set cs" by auto
      obtain config where config: "consumer_cursor_config (mb_layout b) consumer False = Inr config"
        "file_attach io w (mcc_path config) = Inr h"
        using Cons.prems(3) h by fastforce
      let ?b = "b\<lparr>mb_cursors := mb_cursors b @ [(consumer, h)]\<rparr>"
      have sub: "set (mb_cursors ?b) \<subseteq> set cs" using Cons.prems(4) h by simp
      have prem3: "\<forall>(consumer, h) \<in> set cs. \<exists>config. consumer_cursor_config (mb_layout ?b) consumer False = Inr config
             \<and> file_attach io w (mcc_path config) = Inr h" using Cons.prems(3) by simp
      obtain k new where new: "mmap_discover_entries io w es (d + 1) ?b = (Inr k, ?b\<lparr>mb_cursors := mb_cursors ?b @ new\<rparr>)"
        "finds cs es (mb_cursors ?b) new"
        using Cons.IH [OF es Cons.prems(2) prem3 sub, where d = "d + 1"] by blast
      have "x = (consumer, h)" if "x \<in> set cs" "fst x = consumer" for x
        using eq_key_imp_eq_value [OF Cons.prems(2), of consumer "snd x" h] h that by (cases x) simp
      then have "finds cs (e # es) (mb_cursors b) ((consumer, h) # new)"
        using new(2) h unfolding finds_def Named shown_Cons split by fastforce
      moreover have "mmap_discover_entries io w (e # es) d b
          = (Inr k, b\<lparr>mb_cursors := mb_cursors b @ (consumer, h) # new\<rparr>)"
        using unknown config new(1) by (simp add: Named split)
      ultimately show ?thesis by blast
    qed
  qed
qed

lemma fold_min_load:
  "fold (\<lambda>(_, h) m. min m (load w h)) xs m = Min (insert m (load w ` snd ` set xs))"
proof -
  have "fold (\<lambda>(_, h) m. min m (load w h)) xs m = fold min (map (\<lambda>x. load w (snd x)) xs) m"
  proof -
    have "(\<lambda>x m. min m (load w (snd x))) = (\<lambda>x. min (load w (snd x)))"
      by (simp add: fun_eq_iff min.commute)
    then show ?thesis unfolding fold_map comp_def split_def by (rule arg_cong [of _ _ "\<lambda>f. fold f xs m"])
  qed
  also have "\<dots> = Min (set (m # map (\<lambda>x. load w (snd x)) xs))" by (rule Min.set_eq_fold [symmetric])
  finally show ?thesis by (simp add: image_image)
qed

text \<open>The gating sequence after a complete scan is the minimum over all registered consumers.\<close>

lemma complete_scan:
  assumes "files_ok io s" "complete_listing s listing"
  shows "\<exists>b. set (mb_cursors b) = set (registered s) \<and> mb_layout b = mb_layout (mp_barrier (ms_producer s))
     \<and> best_effort_min_consumer_sequence io (ms_world s) listing (mp_barrier (ms_producer s))
       = (Min (insert i64_max (load (ms_world s) ` snd ` set (registered s))), b)"
proof -
  let ?b = "mp_barrier (ms_producer s)" and ?w = "ms_world s" and ?cs = "registered s"
  obtain es where es: "listing = DirEntries es" "\<forall>e \<in> set es. only_cursors ?cs e"
    "\<forall>consumer \<in> fst ` set ?cs. Named (consumer @ ''.cursor'') \<in> set es"
    using assms(2) by (auto simp: complete_listing_def)
  have files: "distinct (map fst ?cs)" "set (mb_cursors ?b) \<subseteq> set ?cs"
    "\<forall>(consumer, h) \<in> set ?cs. \<exists>config. consumer_cursor_config (mb_layout ?b) consumer False = Inr config
             \<and> file_attach io ?w (mcc_path config) = Inr h" "?cs \<noteq> []"
    using assms(1) by (simp_all add: files_ok_def registered_def)
  obtain k new where new: "mmap_discover_entries io ?w es 0 ?b = (Inr k, ?b\<lparr>mb_cursors := mb_cursors ?b @ new\<rparr>)"
    and found: "finds ?cs es (mb_cursors ?b) new"
    using discover_entries_complete [OF es(2) files(1,3,2)] by blast
  have "shown es (fst x)" if "x \<in> set ?cs" for x
  proof -
    have "Named (fst x @ ''.cursor'') \<in> set es" using es(3) that by force
    moreover have "validate_component ''consumer_id'' (fst x) = Inr ()"
      using files(3) that by (force simp: consumer_cursor_config_def consumer_cursor_path_def bind_result_eq_Inr)
    ultimately show ?thesis using split_cursor_name by (auto simp: shown_def)
  qed
  then have all: "set (mb_cursors ?b @ new) = set ?cs" using found files(2) by (auto simp: finds_def)
  define xs where "xs = mb_cursors ?b @ new"
  have "xs \<noteq> []" using all files(4) unfolding xs_def [symmetric] by (metis set_empty)
  then have "best_effort_min_consumer_sequence io ?w listing ?b
      = (Min (insert i64_max (load ?w ` snd ` set xs)), ?b\<lparr>mb_cursors := xs\<rparr>)"
    using new(1) unfolding xs_def [symmetric]
    by (simp add: best_effort_min_consumer_sequence_def mmap_min_consumer_sequence_def mmap_discover_consumers_def
        es(1) fold_min_load)
  then show ?thesis using all unfolding xs_def [symmetric]
    by (intro exI [of _ "?b\<lparr>mb_cursors := xs\<rparr>"]) simp
qed

section \<open>Every step is a step of the protocol\<close>

lemma abs_system_simps [simp]:
  "sy_shared (abs_system s) = abs_shared (registered s) (ms_shared s)"
  "sy_producer (abs_system s) = abs_producer (registered s) (ms_producer s)"
  "sy_phase (abs_system s) = ms_phase s" "sy_readers (abs_system s) = map abs_reader (ms_readers s)"
  "sy_hist (abs_system s) = ms_hist s" "sy_world (abs_system s) = abs_world (registered s) (ms_world s)"
  by (simp_all add: abs_system_def Let_def sy_world_def ms_world_def)

lemma abs_producer_simps [simp]:
  "pd_ring (abs_producer cs p) = mp_ring p" "pd_cursor (abs_producer cs p) = mp_cursor p"
  "pd_barrier (abs_producer cs p) = abs_barrier cs" "pd_sequence (abs_producer cs p) = mp_sequence p"
  "pd_clear (abs_producer cs p) = mp_clear p"
  by (simp_all add: abs_producer_def)

lemma abs_consumer_simps [simp]:
  "cn_ring (abs_consumer c) = mc_ring c" "cn_producer (abs_consumer c) = mc_producer c"
  "cn_cursor (abs_consumer c) = abs_handle (mc_id c) (mc_cursor c)" "cn_last (abs_consumer c) = mc_last c"
  by (simp_all add: abs_consumer_def)

lemma abs_reader_simps [simp]:
  "rd_consumer (abs_reader r) = abs_consumer (mr_consumer r)" "rd_phase (abs_reader r) = mr_phase r"
  "rd_start (abs_reader r) = mr_start r" "rd_seen (abs_reader r) = mr_seen r"
  by (simp_all add: abs_reader_def)

lemma registered_range:
  assumes "system_ok (abs_system s)" "x \<in> load (ms_world s) ` snd ` set (registered s)"
  shows "-1 \<le> x \<and> x \<le> seq_limit"
proof -
  obtain r where r: "r \<in> set (ms_readers s)" "x = load (ms_world s) (mc_cursor (mr_consumer r))"
    using assms(2) by (auto simp: registered_def)
  have "reader_ok (abs_system s) (abs_reader r)" and w: "writer_ok (abs_system s)"
    using assms(1) r(1) by (simp_all add: system_ok_def)
  then have "-1 \<le> x" "x \<le> published (abs_system s)" using r(2) by (auto simp: reader_ok_def Let_def)
  then show ?thesis using writer_okD(5,7,9) [OF w] by simp
qed

lemma abs_tracked:
  assumes "system_ok (abs_system s)"
  shows "tracked_sequences (abs_world (registered s) (ms_world s)) (abs_barrier (registered s))
     = load (ms_world s) ` snd ` set (registered s)"
proof -
  let ?S = "load (ms_world s) ` snd ` set (registered s)"
  have S: "load (abs_world (registered s) (ms_world s)) ` snd ` set (cb_cursors (abs_barrier (registered s))) = ?S"
    by (simp add: abs_barrier_def image_image split_def)
  have "{x \<in> ?S. -1 \<le> x} = ?S" using registered_range [OF assms] by blast
  then show ?thesis unfolding tracked_sequences_def S .
qed

lemma abs_barrier_gate:
  assumes "discovered_min_sequence w (abs_barrier cs) = Some m"
  shows "get_min_consumer_sequence w pid now (abs_barrier cs) = (m, abs_barrier cs)"
proof -
  have "refresh_discovery w pid now (abs_barrier cs) = abs_barrier cs"
    by (simp add: refresh_discovery_def abs_barrier_def)
  then show ?thesis by (simp only: get_min_refresh Let_def assms option.case)
qed

lemma abs_gate:
  assumes "system_ok (abs_system s)" "files_ok io s"
  shows "get_min_consumer_sequence (abs_world (registered s) (ms_world s)) pid now (abs_barrier (registered s))
     = (Min (insert i64_max (load (ms_world s) ` snd ` set (registered s))), abs_barrier (registered s))"
    (is "_ = (Min (insert i64_max ?S), _)")
proof (rule abs_barrier_gate)
  have "?S \<noteq> {}" using assms(2) by (simp add: files_ok_def registered_def)
  then obtain x where x: "x \<in> ?S" unfolding ex_in_conv [symmetric] ..
  have "Min (insert i64_max ?S) \<le> x" by (rule Min_le [OF _ insertI2 [OF x]]) simp
  moreover have "x < i64_max" using registered_range [OF assms(1) x] by (simp add: seq_limit_def i64_max_def)
  ultimately have "Min (insert i64_max ?S) \<noteq> i64_max" by linarith
  then show "discovered_min_sequence (abs_world (registered s) (ms_world s)) (abs_barrier (registered s))
      = Some (Min (insert i64_max ?S))"
    by (simp only: discovered_min_sequence_eq abs_tracked [OF assms(1)] Let_def if_False)
qed

lemma abs_next_sequences:
  assumes "system_ok (abs_system s)" "files_ok io s" "complete_listing s listing"
    and "mmap_next_sequences io (ms_world s) listing n (ms_producer s) = Some (res, p1)"
  shows "next_sequences (abs_world (registered s) (ms_world s)) pid now n (abs_producer (registered s) (ms_producer s))
       = Some (res, abs_producer (registered s) p1)
     \<and> mb_layout (mp_barrier p1) = mb_layout (mp_barrier (ms_producer s))
     \<and> set (mb_cursors (mp_barrier p1)) \<subseteq> set (registered s)"
proof -
  obtain b where b: "set (mb_cursors b) = set (registered s)" "mb_layout b = mb_layout (mp_barrier (ms_producer s))"
    "best_effort_min_consumer_sequence io (ms_world s) listing (mp_barrier (ms_producer s))
       = (Min (insert i64_max (load (ms_world s) ` snd ` set (registered s))), b)"
    using complete_scan [OF assms(2,3)] by blast
  have "set (mb_cursors (mp_barrier (ms_producer s))) \<subseteq> set (registered s)" using assms(2) by (simp add: files_ok_def)
  note sub = this
  have reserved: "ok_or (MissingFreeSlots (- 1)) (Option.bind (checked_i64 (mp_sequence (ms_producer s) - 1))
        (\<lambda>current. checked_i64 (current + m)))
      = last_reserved_sequence (abs_producer (registered s) (ms_producer s)) m" for m
    by (simp add: last_reserved_sequence_def checked_i64_def)
  show ?thesis
  proof (cases "i64_try_from_usize n")
    case None
    then show ?thesis using assms(4) sub by (simp add: mmap_next_sequences_def next_sequences_def)
  next
    case n: (Some m)
    show ?thesis
    proof (cases "last_reserved_sequence (abs_producer (registered s) (ms_producer s)) m")
      case (Inl e)
      then show ?thesis
        using assms(4) n sub reserved by (auto simp: mmap_next_sequences_def next_sequences_def split: if_splits)
    next
      case (Inr n_next)
      then show ?thesis
        using assms(4) n sub reserved b abs_gate [OF assms(1,2), of pid now]
        by (auto simp: mmap_next_sequences_def next_sequences_def update_min_consumer_clearance_window_def
            abs_producer_def Let_def split: if_splits)
    qed
  qed
qed

lemma abs_batch_bounds:
  assumes "-1 \<le> mc_last c"
  shows "available_batch_bounds (abs_consumer c) (abs_world cs w) = Some (mmap_batch_bounds c w)"
  using assms by (simp add: available_batch_bounds_def mmap_batch_bounds_def Let_def)

lemma mmap_step_refines:
  assumes "mmap_step io s t" "system_ok (abs_system s)" "files_ok io s"
  shows "step pid (abs_system s) (abs_system t)"
proof -
  note same = mmap_step_registered [OF assms(1)]
  show ?thesis
    using assms(1)
  proof cases
    case (reserve n listing u p1)
    have t: "abs_system t = (abs_system s)\<lparr>sy_producer := abs_producer (registered s) p1,
        sy_phase := Filling (pd_sequence (sy_producer (abs_system s))) u\<rparr>"
      using same by (simp add: abs_system_def Let_def reserve(1))
    show ?thesis
      unfolding t by (rule step.reserve [where n = n and now = 0])
        (use reserve abs_next_sequences [OF assms(2,3), of listing n "Inr u" p1 pid 0] in simp_all)
  next
    case (refuse n listing e p1)
    have t: "abs_system t = (abs_system s)\<lparr>sy_producer := abs_producer (registered s) p1\<rparr>"
      using same by (simp add: abs_system_def Let_def refuse(1))
    show ?thesis
      unfolding t by (rule step.refuse [where n = n and now = 0 and e = e])
        (use refuse abs_next_sequences [OF assms(2,3), of listing n "Inl e" p1 pid 0] in simp_all)
  next
    case (fill q u f slots e)
    have t: "abs_system t = (abs_system s)\<lparr>sy_shared := (sy_shared (abs_system s))\<lparr>sh_slots := slots\<rparr>,
        sy_phase := Filling (q + 1) u, sy_hist := sy_hist (abs_system s) @ [e]\<rparr>"
      using same by (simp add: abs_system_def Let_def abs_shared_def fill(1))
    show ?thesis
      unfolding t by (rule step.fill [where f = f]) (use fill in simp_all)
  next
    case (commit u)
    have t: "abs_system t = (abs_system s)\<lparr>sy_shared := shared_store (pd_cursor (sy_producer (abs_system s))) u
          (sy_shared (abs_system s)),
        sy_producer := (sy_producer (abs_system s))\<lparr>pd_sequence := u + 1\<rparr>, sy_phase := Ready\<rparr>"
      using same by (simp add: abs_system_def Let_def abs_producer_def commit(1))
    show ?thesis
      unfolding t by (rule step.commit) (use commit in simp_all)
  next
    case (acquire i r lower upper)
    have t: "abs_system t = (abs_system s)\<lparr>sy_readers := (sy_readers (abs_system s))
        [i := (abs_reader r)\<lparr>rd_phase := Batch lower upper\<rparr>]\<rparr>"
      using same by (simp add: abs_system_def Let_def map_update abs_reader_def acquire(1))
    have "reader_ok (abs_system s) (abs_reader r)"
      using assms(2) acquire(2,3) by (simp add: system_ok_def)
    then have "-1 \<le> mc_last (mr_consumer r)" by (simp add: reader_ok_def Let_def)
    then show ?thesis
      unfolding t by (intro step.acquire) (use acquire in \<open>simp_all add: abs_batch_bounds\<close>)
  next
    case (take_event i r q upper e)
    have t: "abs_system t = (abs_system s)\<lparr>sy_readers := (sy_readers (abs_system s))
        [i := (abs_reader r)\<lparr>rd_phase := Batch (q + 1) upper, rd_seen := rd_seen (abs_reader r) @ [(q, e)]\<rparr>]\<rparr>"
      using same by (simp add: abs_system_def Let_def map_update abs_reader_def take_event(1))
    show ?thesis
      unfolding t by (rule step.take_event) (use take_event in simp_all)
  next
    case (finish i r q upper c1 sh1)
    have c1: "c1 = (mr_consumer r)\<lparr>mc_last := q - 1\<rparr>"
      and sh1: "sh1 = shared_store (mc_cursor (mr_consumer r)) (q - 1) (ms_shared s)"
      using finish(6) by (simp_all add: mmap_publish_consumed_def)
    have t: "abs_system t = (abs_system s)\<lparr>sy_shared := abs_shared (registered s) sh1,
        sy_readers := (sy_readers (abs_system s))
          [i := (abs_reader r)\<lparr>rd_consumer := (abs_consumer (mr_consumer r))\<lparr>cn_last := q - 1\<rparr>, rd_phase := Idle\<rparr>]\<rparr>"
      using same by (simp add: abs_system_def Let_def map_update abs_reader_def abs_consumer_def c1 finish(1))
    show ?thesis
      unfolding t by (rule step.finish [where r = "abs_reader r" and q = q and upper = upper])
        (use finish in \<open>simp_all add: publish_consumed_sequence_def sh1\<close>)
  qed
qed

lemma mmap_step_files_ok:
  assumes "mmap_step io s t" "system_ok (abs_system s)" "files_ok io s"
  shows "files_ok io t"
proof -
  note same = mmap_step_registered [OF assms(1)]
  have "w_names (ms_world t) = w_names (ms_world s)"
    using assms(1)
    by cases (auto simp: ms_world_def shared_store_def store_def mmap_publish_consumed_def)
  then have attach: "file_attach io (ms_world t) p = file_attach io (ms_world s) p" for p
    by (simp add: file_attach_def attach_def)
  have "mb_layout (mp_barrier (ms_producer t)) = mb_layout (mp_barrier (ms_producer s))
      \<and> set (mb_cursors (mp_barrier (ms_producer t))) \<subseteq> set (registered s)"
    using assms(1)
  proof cases
    case (reserve n listing u p1)
    then show ?thesis using abs_next_sequences [OF assms(2,3) reserve(5,6)] by simp
  next
    case (refuse n listing e p1)
    then show ?thesis using abs_next_sequences [OF assms(2,3) refuse(5,6)] by simp
  qed (use assms(3) in \<open>simp_all add: files_ok_def\<close>)
  moreover have "ms_readers t \<noteq> []"
    using assms(3) arg_cong [OF same, of length] by (auto simp: files_ok_def registered_def)
  ultimately show ?thesis
    using assms(3) same attach by (simp add: files_ok_def)
qed

section \<open>What the consumers of an mmap ring read\<close>

definition mr_position :: "'e mmap_reader \<Rightarrow> int" where
  "mr_position r = (case mr_phase r of Idle \<Rightarrow> mc_last (mr_consumer r) + 1 | Batch q u \<Rightarrow> q)"

lemma abs_position [simp]: "read_position (abs_reader r) = mr_position r"
  by (cases "mr_phase r") (simp_all add: read_position_def mr_position_def)

text \<open>A system before its first event: the cursor files of all consumers are there, each cursor is at -1, and nothing
  has been written.\<close>

definition mmap_fresh :: "mmap_io \<Rightarrow> 'e mmap_system \<Rightarrow> bool" where
  "mmap_fresh io s \<longleftrightarrow>
     (let p = ms_producer s; n = unat (rb_size (mp_ring p)) in
      files_ok io s \<and> ms_phase s = Ready \<and> ms_hist s = [] \<and> ring_wf (mp_ring p) \<and> int n \<le> seq_limit
      \<and> length (sh_slots (ms_shared s)) = n \<and> mp_sequence p = 0 \<and> mp_clear p = int n - 1
      \<and> load (ms_world s) (mp_cursor p) = -1
      \<and> distinct (snd (mp_cursor p) # map (\<lambda>r. snd (mc_cursor (mr_consumer r))) (ms_readers s))
      \<and> (\<forall>r \<in> set (ms_readers s).
           mc_ring (mr_consumer r) = mp_ring p \<and> mc_producer (mr_consumer r) = mp_cursor p
           \<and> mc_last (mr_consumer r) = -1 \<and> load (ms_world s) (mc_cursor (mr_consumer r)) = -1
           \<and> mr_phase r = Idle \<and> mr_start r = 0 \<and> mr_seen r = []))"

lemma abs_attach:
  assumes "distinct (map fst cs)"
  shows "attach (abs_world cs w) name = Some h \<longleftrightarrow>
     (\<exists>(consumer, k) \<in> set cs. name = sequence_name [] consumer \<and> h = abs_handle consumer k)"
proof -
  let ?xs = "map (\<lambda>(consumer, h). (sequence_name [] consumer, snd h)) cs"
  have "map fst ?xs = map (sequence_name []) (map fst cs)" by (simp add: split_def)
  then have d: "distinct (map fst ?xs)"
    using assms by (simp add: distinct_map inj_on_def del: map_map)
  have "map_of ?xs name = Some c \<longleftrightarrow> (\<exists>(consumer, k) \<in> set cs. name = sequence_name [] consumer \<and> c = snd k)" for c
    using map_of_eq_Some_iff [OF d, of name c] by auto
  then show ?thesis
    unfolding attach_def abs_world_def by (auto simp: abs_handle_def)
qed

lemma mmap_fresh_abs:
  assumes "mmap_fresh io s"
  shows "fresh (abs_system s)" "files_ok io s"
proof -
  show files: "files_ok io s" using assms by (simp add: mmap_fresh_def Let_def)
  then have ids: "distinct (map fst (registered s))" by (simp add: files_ok_def)
  note attach = abs_attach [OF ids, of "ms_world s"]
  have "barrier_ok (abs_world (registered s) (ms_world s)) (abs_barrier (registered s))"
    using ids by (force simp: barrier_ok_def abs_barrier_def attach split_def comp_def)
  moreover have "sequences_in_range (abs_world (registered s) (ms_world s)) (abs_barrier (registered s))"
    unfolding sequences_in_range_def
  proof (intro allI impI)
    fix name h assume "attach (abs_world (registered s) (ms_world s)) name = Some h"
    then obtain consumer k where k: "(consumer, k) \<in> set (registered s)" "h = abs_handle consumer k"
      unfolding attach by blast
    then have "load (ms_world s) k = -1" using assms by (auto simp: registered_def mmap_fresh_def Let_def)
    then show "load (abs_world (registered s) (ms_world s)) h \<le> seq_limit" using k(2) by (simp add: seq_limit_def)
  qed
  moreover have limit: "(0 :: int) \<le> seq_limit" by (simp add: seq_limit_def)
  have uint_nonneg: "-1 < uint x" for x :: usize by (rule less_le_trans [of _ 0]) simp_all
  ultimately have "writer_ok (abs_system s)"
    using assms by (simp add: writer_ok_def Let_def mmap_fresh_def producer_in_range_def ring_capacity_def
        capacity_def published_def abs_barrier_def limit uint_nonneg)
  moreover have "map snd (reader_handles (abs_system s)) = map (\<lambda>r. snd (mc_cursor (mr_consumer r))) (ms_readers s)"
    by (simp add: reader_handles_def comp_def)
  then have "cells_ok (abs_system s)"
    using assms by (simp add: cells_ok_def mmap_fresh_def Let_def)
  ultimately show "fresh (abs_system s)"
    using assms by (simp add: fresh_def mmap_fresh_def Let_def capacity_def)
qed

lemma mmap_run_refines:
  assumes "mmap_run io s t" "mmap_fresh io s"
  shows "covered_run pid (abs_system s) (abs_system t) \<and> system_ok (abs_system t) \<and> files_ok io t"
  using assms
proof (induction rule: mmap_run.induct)
  case (refl s)
  then have ok: "system_ok (abs_system s)" using mmap_fresh_abs fresh_ok by blast
  have "covered (abs_system s)"
    by (auto simp: covered_def reader_handles_def tracked_handles_def abs_barrier_def registered_def image_image)
  then show ?case using refl mmap_fresh_abs ok covered_run.start by blast
next
  case (step s t t')
  then have t: "covered_run pid (abs_system s) (abs_system t)" "system_ok (abs_system t)" "files_ok io t"
    by simp_all
  have cover: "covered (abs_system t')"
    by (auto simp: covered_def reader_handles_def tracked_handles_def abs_barrier_def registered_def image_image)
  have run: "covered_run pid (abs_system s) (abs_system t')"
    using covered_run.step [OF t(1) mmap_step_refines [OF step.hyps(2) t(2,3)] cover] .
  have "system_ok (abs_system t')"
    using covered_run_preserves [OF run] mmap_fresh_abs(1) [OF step.prems] fresh_ok by blast
  then show ?case using run mmap_step_files_ok [OF step.hyps(2) t(2,3)] by simp
qed

text \<open>C3. The mmap ring refines the protocol. When the cursor files of all consumers are there before
  the first event and every scan of the directory is complete, every interleaving of the mmap producer
  and its consumers is a run of the shared-memory protocol, and each consumer has been given exactly the published
  events, in order, without a gap, a duplicate or an overwritten event.\<close>

theorem mmap_ring_refines:
  assumes "mmap_fresh io s" "mmap_run io s t"
  shows "covered_run pid (abs_system s) (abs_system t)
     \<and> (\<forall>r \<in> set (ms_readers t).
          mr_seen r = events (ms_hist t) (mr_start r) (mr_position r)
          \<and> mr_start r \<le> mr_position r \<and> mr_position r \<le> load (ms_world t) (mp_cursor (ms_producer t)) + 1
          \<and> load (ms_world t) (mp_cursor (ms_producer t)) < int (length (ms_hist t)))"
proof -
  note run = mmap_run_refines [OF assms(2,1), of pid]
  have "delivers_history (abs_system t)" using run system_ok_delivers by blast
  then show ?thesis
    using run by (simp add: delivers_history_def published_def)
qed

section \<open>A transport in a directory\<close>

text \<open>The transport \<open>q\<close> under \<open>/tmp\<close>, on a file system where everything works.\<close>

definition tmp_root :: path where
  "tmp_root = \<lparr> path_absolute = True, path_components = [''tmp''] \<rparr>"

definition tmp_layout :: mmap_transport_layout where
  "tmp_layout =
     \<lparr> ml_root_dir = tmp_root, ml_segment_name = ''q'', ml_ring_path = path_join tmp_root ''q.ring'',
       ml_producer_cursor_path = path_join tmp_root ''q.producer.cursor'',
       ml_readiness_cursor_path = path_join tmp_root ''q.ready.cursor'',
       ml_consumers_dir = path_join tmp_root ''q.consumers'' \<rparr>"

lemma tmp_layout_new: "mmap_layout_new tmp_root ''q'' = Inr tmp_layout"
proof -
  have "validate_component ''segment_name'' ''q'' = Inr ()" by code_simp
  then show ?thesis
    by (simp add: mmap_layout_new_def tmp_layout_def path_is_empty_def tmp_root_def RING_SUFFIX_def
        PRODUCER_CURSOR_SUFFIX_def READINESS_CURSOR_SUFFIX_def CONSUMERS_DIR_SUFFIX_def)
qed

definition working :: "ring \<Rightarrow> mmap_io" where
  "working r = \<lparr> io_fails = (\<lambda>_. False), io_error = (\<lambda>_. SharedMemoryError []), io_ring = (\<lambda>_. Inr r) \<rparr>"

definition no_files :: world where
  "no_files = \<lparr> w_names = (\<lambda>_. None), w_cells = (\<lambda>_. 0), w_next = 0 \<rparr>"

lemma consumer_c:
  "consumer_cursor_config tmp_layout ''c'' flag
     = Inr \<lparr> mcc_path = path_join (path_join tmp_root ''q.consumers'') ''c.cursor'', mcc_create = flag \<rparr>"
proof -
  have "validate_component ''consumer_id'' ''c'' = Inr ()" by code_simp
  then show ?thesis
    by (simp add: consumer_cursor_config_def consumer_cursor_path_def tmp_layout_def CONSUMER_CURSOR_SUFFIX_def)
qed

text \<open>The files after the producer has been created with its readiness cursor (cell 0) and its own
  cursor (cell 1), and after the consumer \<open>c\<close> has attached (cell 2).\<close>

definition producer_files :: world where
  "producer_files =
     \<lparr> w_names = [''/tmp/q.ready.cursor'' \<mapsto> 0, ''/tmp/q.producer.cursor'' \<mapsto> 1],
       w_cells = (\<lambda>_. 0)(1 := -1), w_next = 2 \<rparr>"

definition consumer_files :: "world \<Rightarrow> world" where
  "consumer_files w =
     \<lparr> w_names = (w_names w)(''/tmp/q.consumers/c.cursor'' \<mapsto> 2),
       w_cells = (w_cells w)(2 := -1, 0 := w_cells w 0 + 1), w_next = 3 \<rparr>"

definition tmp_producer :: "ring \<Rightarrow> nat \<Rightarrow> mmap_producer" where
  "tmp_producer r n =
     \<lparr> mp_ring = r, mp_cursor = (''/tmp/q.producer.cursor'', 1),
       mp_barrier = \<lparr> mb_layout = tmp_layout, mb_cursors = [],
                      mb_producer = Some (''/tmp/q.producer.cursor'', 1),
                      mb_ready = Some (''/tmp/q.ready.cursor'', 0) \<rparr>,
       mp_sequence = 0, mp_clear = int n - 1, mp_liveness = None \<rparr>"

definition tmp_consumer :: "ring \<Rightarrow> mmap_consumer" where
  "tmp_consumer r =
     \<lparr> mc_ring = r, mc_producer = (''/tmp/q.producer.cursor'', 1),
       mc_cursor = (''/tmp/q.consumers/c.cursor'', 2), mc_id = ''c'', mc_last = -1,
       mc_ready = Some (''/tmp/q.ready.cursor'', 0) \<rparr>"

lemma tmp_layout_simps [simp]:
  "ml_root_dir tmp_layout = tmp_root" "ml_consumers_dir tmp_layout = path_join tmp_root ''q.consumers''"
  "mcc_path (producer_cursor_config tmp_layout flag) = path_join tmp_root ''q.producer.cursor''"
  "mcc_path (readiness_cursor_config tmp_layout flag) = path_join tmp_root ''q.ready.cursor''"
  by (simp_all add: tmp_layout_def producer_cursor_config_def readiness_cursor_config_def)

lemma tmp_display [simp]:
  "path_display (path_join tmp_root x) = ''/tmp/'' @ x"
  "path_display (path_join (path_join tmp_root x) y) = ''/tmp/'' @ x @ ''/'' @ y"
  by (simp_all add: tmp_root_def path_join_def path_display_def)

lemma working_simps [simp]:
  "io_fails (working r) path \<longleftrightarrow> False" "io_ring (working r) config = Inr r"
  by (simp_all add: working_def)

lemma tmp_create:
  assumes "n = 1 \<or> n = 8"
  shows "mmap_producer_create (working r) tmp_layout n 8 f
       \<lparr> sh_world = no_files, sh_slots = [], sh_counters = k \<rparr>
     = Some (Inr (tmp_producer r n),
         \<lparr> sh_world = producer_files, sh_slots = map f [0..<n], sh_counters = k \<rparr>)"
proof -
  have clear: "wrap_i64 (usize_as_i64 (of_nat n) - 1) = int n - 1"
    using assms by (auto simp: usize_as_i64_def i64_simps)
  have cells: "(\<lambda>_. 0)(0 := 0, Suc 0 := v) = (\<lambda>_. 0)(Suc 0 := v)" for v :: int
    by (simp add: fun_eq_iff)
  show ?thesis
    by (simp add: mmap_producer_create_def mmap_barrier_new_def directories_ready_def file_create_def
        file_attach_def attach_def create_def no_files_def result_ok_def clone_handle_def
        mmap_set_producer_cursor_def clear tmp_producer_def producer_files_def cells)
qed

lemma tmp_attach:
  assumes "w_names w = w_names producer_files" "w_next w = 2" "in_i64 (w_cells w 0 + 1)"
  shows "mmap_consumer_attach (working r) w tmp_layout n 8 ''c'' = (Inr (tmp_consumer r), consumer_files w)"
  using assms
  by (simp add: mmap_consumer_attach_def consumer_c file_attach_def file_new_or_attach_def file_create_def attach_def
      create_def producer_files_def result_ok_def mmap_signal_readiness_def fetch_add_def load_def store_def
      tmp_consumer_def consumer_files_def fun_upd_twist)

section \<open>Runs that lose events\<close>

definition one_slot :: ring where
  "one_slot = make_ring 0 56 1 True"

lemma one_slot_wf: "ring_wf one_slot" "unat (rb_size one_slot) = 1"
  using mask_of_size [of 0] by (simp_all add: ring_wf_def one_slot_def make_ring_def is_power_of_two_def)

lemma one_slot_slot:
  assumes "0 \<le> q" "q < 100" "length xs = 1"
  shows "slot_of one_slot xs q = Some 0"
  using slot_of_value [OF one_slot_wf(1), of q xs] assms one_slot_wf(2) by (simp add: seq_limit_def)

lemma one_slot_free:
  assumes "-1 \<le> a" "a < 100" "-1 \<le> b" "b < 100"
  shows "free_slots one_slot a b = b - a + 1"
  using free_slots_value [of one_slot a b] one_slot_wf(2) assms by (simp add: i64_simps)

text \<open>C16. A consumer that attaches late. As long as no consumer file is there the mmap producer gates on
  its own sequence, so it never waits; a consumer that attaches after the ring has been lapped starts at
  sequence 0 and is given the later event \<open>b\<close> in place of the first event \<open>a\<close>. (The shared-memory producer
  waits for its first consumer: its fallback is -1.)\<close>

theorem mmap_late_consumer_misreads:
  "\<exists>sh0 p1 sh1 p2 sh2 c w c1 sh3.
     mmap_producer_create (working one_slot) tmp_layout 1 8 f \<lparr> sh_world = no_files, sh_slots = [], sh_counters = k \<rparr>
       = Some (Inr (tmp_producer one_slot 1), sh0)
     \<and> mmap_try_publish (working one_slot) (DirEntries []) (\<lambda>_. a) (tmp_producer one_slot 1) sh0 = Some (Inr 0, p1, sh1)
     \<and> mmap_try_publish (working one_slot) (DirEntries []) (\<lambda>_. b) p1 sh1 = Some (Inr 1, p2, sh2)
     \<and> mmap_consumer_attach (working one_slot) (sh_world sh2) tmp_layout 1 8 ''c'' = (Inr c, w)
     \<and> mmap_try_consume_next c (sh2\<lparr>sh_world := w\<rparr>) = Some (Some (0, b), c1, sh3)"
proof -
  let ?h = "(''/tmp/q.producer.cursor'', 1 :: nat)"
  let ?sh0 = "\<lparr> sh_world = producer_files, sh_slots = map f [0..<1], sh_counters = k \<rparr>"
  let ?p1 = "(tmp_producer one_slot 1)\<lparr>mp_sequence := 1\<rparr>"
  let ?sh1 = "\<lparr> sh_world = store producer_files ?h 0, sh_slots = [a], sh_counters = k \<rparr>"
  let ?p2 = "(tmp_producer one_slot 1)\<lparr>mp_sequence := 2, mp_clear := 1\<rparr>"
  let ?sh2 = "\<lparr> sh_world = store (store producer_files ?h 0) ?h 1, sh_slots = [b], sh_counters = k \<rparr>"
  have publish: "update_event one_slot q g [x] = Some [g x]" if "0 \<le> q" "q < 100" for q g and x :: 'a
    using that one_slot_slot [of q "[x]"] by (simp add: update_event_def)
  have "mmap_try_publish (working one_slot) (DirEntries []) (\<lambda>_. a) (tmp_producer one_slot 1) ?sh0 = Some (Inr 0, ?p1, ?sh1)"
    by (simp add: mmap_try_publish_def mmap_next_sequences_def mmap_apply_update_def tmp_producer_def publish
        i64_try_from_usize_def checked_i64_def i64_simps shared_store_def)
  moreover have "mmap_try_publish (working one_slot) (DirEntries []) (\<lambda>_. b) ?p1 ?sh1 = Some (Inr 1, ?p2, ?sh2)"
    by (simp add: mmap_try_publish_def mmap_next_sequences_def mmap_apply_update_def tmp_producer_def publish
        i64_try_from_usize_def checked_i64_def i64_simps shared_store_def Let_def one_slot_free
        best_effort_min_consumer_sequence_def mmap_min_consumer_sequence_def mmap_discover_consumers_def
        mmap_fallback_sequence_def)
  moreover have "mmap_consumer_attach (working one_slot) (sh_world ?sh2) tmp_layout 1 8 ''c''
      = (Inr (tmp_consumer one_slot), consumer_files (sh_world ?sh2))"
    by (rule tmp_attach) (simp_all add: store_def producer_files_def i64_simps)
  moreover have "\<exists>c1 sh3. mmap_try_consume_next (tmp_consumer one_slot) (?sh2\<lparr>sh_world := consumer_files (sh_world ?sh2)\<rparr>)
      = Some (Some (0, b), c1, sh3)"
    by (simp add: mmap_try_consume_next_def mmap_batch_bounds_def tmp_consumer_def consumer_files_def load_def store_def
        Let_def read_slot_def one_slot_slot mmap_publish_consumed_def i64_simps)
  ultimately show ?thesis using tmp_create [of 1 one_slot f k] by blast
qed

lemma discover_entries_stray:
  assumes "\<not> mmap_known b stray" "validate_component ''consumer_id'' stray = Inl e"
    and "split_name name = (stray, Some ''cursor'')" "Named name \<in> set es"
  shows "\<exists>e' b'. mmap_discover_entries io w es d b = (Inl e', b') \<and> mb_producer b' = mb_producer b"
  using assms
proof (induction es arbitrary: b d)
  case (Cons x es)
  have invalid: "consumer_cursor_config l stray flag = Inl e" for l flag
    using Cons.prems(2) by (simp add: consumer_cursor_config_def consumer_cursor_path_def)
  show ?case
  proof (cases "x = Named name")
    case True
    then show ?thesis using Cons.prems(1,3) invalid by simp
  next
    case False
    then have rest: "Named name \<in> set es" using Cons.prems(4) by simp
    note IH = Cons.IH [OF _ Cons.prems(2,3) rest]
    show ?thesis
    proof (cases x)
      case (Named other)
      obtain consumer ext where split: "split_name other = (consumer, ext)" by fastforce
      show ?thesis
      proof (cases "ext = Some ''cursor'' \<and> \<not> mmap_known b consumer")
        case False
        then have "mmap_discover_entries io w (x # es) d b = mmap_discover_entries io w es d b"
          by (auto simp: Named split)
        then show ?thesis using IH [OF Cons.prems(1)] by simp
      next
        case new: True
        show ?thesis
        proof (cases "consumer_cursor_config (mb_layout b) consumer False")
          case (Inl e')
          then show ?thesis using new by (simp add: Named split)
        next
          case (Inr config)
          then have "consumer \<noteq> stray" using invalid by auto
          then have unknown: "\<not> mmap_known (b\<lparr>mb_cursors := mb_cursors b @ [(consumer, h)]\<rparr>) stray" for h
            using Cons.prems(1) by (simp add: mmap_known_def map_add_def split: option.split)
          show ?thesis
          proof (cases "file_attach io w (mcc_path config)")
            case (Inl e')
            then show ?thesis using new Inr IH [OF Cons.prems(1)] by (simp add: Named split)
          next
            case h: (Inr h)
            then show ?thesis using new Inr IH [OF unknown, of "d + 1" h] by (simp add: Named split)
          qed
        qed
      qed
    qed (use IH [OF Cons.prems(1)] in auto)
  qed
qed simp

text \<open>C15. A stray file. When a scan of the consumers directory meets a file with the cursor extension
  whose stem is not a valid consumer id, the scan fails and the gating sequence falls back to the producer's own:
  any batch that fits the ring is then granted, whatever the tracked consumers have read.\<close>

theorem stray_file_disables_gating:
  assumes "ring_wf (mp_ring p)" "int (unat (rb_size (mp_ring p))) \<le> seq_limit"
    and "0 \<le> mp_sequence p" "mp_sequence p + int n \<le> seq_limit"
    and "mb_producer (mp_barrier p) = Some h" "load w h = mp_sequence p - 1"
    and "\<not> mmap_known (mp_barrier p) stray" "validate_component ''consumer_id'' stray = Inl e"
    and "split_name name = (stray, Some ''cursor'')" "Named name \<in> set es"
    and "0 < n" "n \<le> unat (rb_size (mp_ring p))"
  shows "\<exists>p'. mmap_next_sequences io w (DirEntries es) n p = Some (Inr (mp_sequence p + int n - 1), p')"
proof -
  let ?cap = "int (unat (rb_size (mp_ring p)))" and ?seq = "mp_sequence p"
  obtain b where gate: "best_effort_min_consumer_sequence io w (DirEntries es) (mp_barrier p) = (?seq - 1, b)"
    using discover_entries_stray [OF assms(7-10), of io w 0] assms(5,6)
    by (auto simp: best_effort_min_consumer_sequence_def mmap_min_consumer_sequence_def
        mmap_discover_consumers_def mmap_fallback_sequence_def)
  have range: "?cap \<le> 2305843009213693952" "0 < ?cap" "?seq + int n \<le> 2305843009213693952"
    using assms(2,4) ring_wf_size_pos [OF assms(1)] by (simp_all only: seq_limit_def of_nat_0_less_iff)
  then have "unat (rb_size (mp_ring p)) \<le> 2305843009213693952" by linarith
  then have "unat (rb_size (mp_ring p)) < 2 ^ 63" by simp
  then have free: "free_slots (mp_ring p) (?seq - 1) (?seq - 1) = ?cap"
    using free_slots_value [of "mp_ring p" "?seq - 1" "?seq - 1"] range assms(3) by (simp add: i64_simps)
  have last: "wrap_i64 (?seq - 1) = ?seq - 1" using range assms(3,11) by (intro wrap_i64_id) (simp add: i64_simps)
  have n: "i64_try_from_usize n = Some (int n)" "checked_i64 (?seq - 1) = Some (?seq - 1)"
    "checked_i64 (?seq - 1 + int n) = Some (?seq - 1 + int n)"
    using range assms(3,11) by (simp_all add: i64_try_from_usize_def i64_simps)
  have "int n \<le> ?cap" using assms(12) by (simp only: of_nat_le_iff)
  then show ?thesis
    using assms(11) by (simp add: mmap_next_sequences_def n last gate free Let_def)
qed

text \<open>The consumer \<open>c\<close> is tracked and has read nothing; its directory also holds \<open>bad.id.cursor\<close>.\<close>

theorem stray_file_disables_gating_witness:
  "\<exists>w p p' e q.
     mb_cursors (mp_barrier p) = [(''c'', (''/tmp/q.consumers/c.cursor'', 2))] \<and> mp_sequence p = 1
     \<and> load w (''/tmp/q.consumers/c.cursor'', 2) = -1
     \<and> mmap_next_sequences (working one_slot) w (DirEntries [Named ''c.cursor'']) 1 p = Some (Inl e, q)
     \<and> mmap_next_sequences (working one_slot) w (DirEntries [Named ''c.cursor'', Named ''bad.id.cursor'']) 1 p
         = Some (Inr 1, p')"
proof -
  let ?h = "(''/tmp/q.producer.cursor'', 1 :: nat)" and ?c = "(''c'', (''/tmp/q.consumers/c.cursor'', 2 :: nat))"
  let ?w = "store (consumer_files producer_files) ?h 0"
  let ?p = "(tmp_producer one_slot 1)\<lparr>mp_sequence := 1,
      mp_barrier := (mp_barrier (tmp_producer one_slot 1))\<lparr>mb_cursors := [?c]\<rparr>\<rparr>"
  have names: "split_name ''c.cursor'' = (''c'', Some ''cursor'')"
    "split_name ''bad.id.cursor'' = (''bad.id'', Some ''cursor'')" by code_simp+
  have "(case validate_component ''consumer_id'' ''bad.id'' of Inl _ \<Rightarrow> True | Inr _ \<Rightarrow> False)" by code_simp
  then obtain e where bad: "validate_component ''consumer_id'' ''bad.id'' = Inl e" by (auto split: sum.splits)
  have w: "load ?w (snd ?c) = -1" "load ?w ?h = 0"
    by (simp_all add: load_def store_def consumer_files_def)
  have p: "mp_ring ?p = one_slot" "mp_sequence ?p = 1" "mp_clear ?p = 0" "mb_cursors (mp_barrier ?p) = [?c]"
    "mb_producer (mp_barrier ?p) = Some ?h"
    by (simp_all add: tmp_producer_def)
  have "best_effort_min_consumer_sequence (working one_slot) ?w (DirEntries [Named ''c.cursor'']) (mp_barrier ?p)
      = (-1, mp_barrier ?p)"
    using w(1) by (simp add: best_effort_min_consumer_sequence_def mmap_min_consumer_sequence_def
        mmap_discover_consumers_def names mmap_known_def i64_max_def)
  then have "\<exists>e q. mmap_next_sequences (working one_slot) ?w (DirEntries [Named ''c.cursor'']) 1 ?p = Some (Inl e, q)"
    using p(1-3) by (simp add: mmap_next_sequences_def i64_try_from_usize_def checked_i64_def i64_simps one_slot_free Let_def)
  moreover have "\<exists>p'. mmap_next_sequences (working one_slot) ?w (DirEntries [Named ''c.cursor'', Named ''bad.id.cursor'']) 1 ?p
      = Some (Inr (mp_sequence ?p + int 1 - 1), p')"
    by (rule stray_file_disables_gating [where h = ?h and stray = "''bad.id''" and name = "''bad.id.cursor''" and e = e])
      (use one_slot_wf w p bad names in \<open>simp_all add: seq_limit_def mmap_known_def\<close>)
  ultimately obtain e q p' where
    "mmap_next_sequences (working one_slot) ?w (DirEntries [Named ''c.cursor'']) 1 ?p = Some (Inl e, q)"
    "mmap_next_sequences (working one_slot) ?w (DirEntries [Named ''c.cursor'', Named ''bad.id.cursor'']) 1 ?p
      = Some (Inr 1, p')" using p(2) by auto
  then show ?thesis using w(1) p(2,4) by (intro exI [of _ ?w] exI [of _ ?p] exI [of _ p'] exI [of _ e] exI [of _ q]) simp
qed

section \<open>A run of one event\<close>

definition tmp_reader :: "'e mmap_reader" where
  "tmp_reader = \<lparr> mr_consumer = tmp_consumer one_slot, mr_phase = Idle, mr_start = 0, mr_seen = [] \<rparr>"

definition tmp_start :: "'e \<Rightarrow> 'e mmap_system" where
  "tmp_start x =
     \<lparr> ms_shared = \<lparr> sh_world = consumer_files producer_files, sh_slots = [x], sh_counters = counters_init \<rparr>,
       ms_producer = tmp_producer one_slot 1, ms_phase = Ready, ms_readers = [tmp_reader], ms_hist = [] \<rparr>"

lemma tmp_fresh: "mmap_fresh (working one_slot) (tmp_start x)"
proof -
  have "file_attach (working one_slot) (consumer_files producer_files)
      (path_join (path_join tmp_root ''q.consumers'') ''c.cursor'') = Inr (''/tmp/q.consumers/c.cursor'', 2)"
    by (simp add: file_attach_def attach_def consumer_files_def)
  then show ?thesis
    using one_slot_wf(1) consumer_c
    by (simp add: one_slot_wf(2) arg_cong [OF one_slot_wf(2), of int, simplified] producer_files_def mmap_fresh_def Let_def files_ok_def registered_def tmp_start_def tmp_reader_def tmp_consumer_def
        tmp_producer_def ms_world_def load_def consumer_files_def seq_limit_def)
qed

theorem mmap_ring_refines_witness:
  "\<exists>t. mmap_run (working one_slot) (tmp_start (0 :: nat)) t \<and> map mr_seen (ms_readers t) = [[(0, 42)]]
     \<and> ms_hist t = [42]"
proof -
  let ?io = "working one_slot" and ?h = "(''/tmp/q.producer.cursor'', 1 :: nat)"
  let ?s = "tmp_start (0 :: nat)" and ?r = "tmp_reader :: nat mmap_reader"
  let ?s1 = "?s\<lparr>ms_producer := ms_producer ?s, ms_phase := Filling 0 0\<rparr>"
  let ?s2 = "?s1\<lparr>ms_shared := (ms_shared ?s1)\<lparr>sh_slots := [42]\<rparr>, ms_phase := Filling 1 0, ms_hist := [42]\<rparr>"
  let ?s3 = "?s2\<lparr>ms_shared := shared_store ?h 0 (ms_shared ?s2), ms_producer := (ms_producer ?s2)\<lparr>mp_sequence := 1\<rparr>,
                ms_phase := Ready\<rparr>"
  let ?s4 = "?s3\<lparr>ms_readers := [?r\<lparr>mr_phase := Batch 0 0\<rparr>]\<rparr>"
  let ?s5 = "?s4\<lparr>ms_readers := [?r\<lparr>mr_phase := Batch 1 0, mr_seen := [(0, 42)]\<rparr>]\<rparr>"
  have listing: "complete_listing ?s (DirEntries [Named ''c.cursor''])"
  proof -
    have "split_name ''c.cursor'' = (''c'', Some ''cursor'')" by code_simp
    then show ?thesis
      by (simp add: complete_listing_def only_cursors_def registered_def tmp_start_def tmp_reader_def tmp_consumer_def)
  qed
  have "mmap_next_sequences ?io (ms_world ?s) (DirEntries [Named ''c.cursor'']) 1 (ms_producer ?s)
      = Some (Inr 0, ms_producer ?s)"
    by (simp add: mmap_next_sequences_def tmp_start_def tmp_producer_def i64_try_from_usize_def checked_i64_def i64_simps)
  then have "mmap_step ?io ?s ?s1"
    using mmap_step.reserve [of ?s 1 "DirEntries [Named ''c.cursor'']" ?io 0 "ms_producer ?s"] listing
    by (simp add: tmp_start_def tmp_producer_def seq_limit_def)
  moreover have "mmap_step ?io ?s1 ?s2"
    using mmap_step.fill [of ?s1 0 0 "\<lambda>_. 42" "[42]" 42 ?io] one_slot_slot [of 0 "[0 :: nat]"] one_slot_slot [of 0 "[42 :: nat]"]
    by (simp add: update_event_def read_slot_def tmp_start_def tmp_producer_def)
  moreover have "mmap_step ?io ?s2 ?s3"
    using mmap_step.commit [of ?s2 0 ?io] by (simp add: tmp_start_def tmp_producer_def)
  moreover have "mmap_step ?io ?s3 ?s4"
    using mmap_step.acquire [of 0 ?s3 ?r 0 0 ?io]
    by (simp add: mmap_batch_bounds_def tmp_start_def tmp_reader_def tmp_consumer_def shared_store_def ms_world_def
        store_def load_def Let_def i64_simps)
  moreover have "mmap_step ?io ?s4 ?s5"
    using mmap_step.take_event [of 0 ?s4 "?r\<lparr>mr_phase := Batch 0 0\<rparr>" 0 0 42 ?io] one_slot_slot [of 0 "[42 :: nat]"]
    by (simp add: read_slot_def tmp_start_def tmp_reader_def tmp_consumer_def shared_store_def)
  ultimately have run: "mmap_run ?io ?s ?s5" by (meson mmap_run.intros)
  have "\<forall>r \<in> set (ms_readers ?s5). mr_seen r = events (ms_hist ?s5) (mr_start r) (mr_position r)"
    using mmap_ring_refines [OF tmp_fresh run] by blast
  then show ?thesis using run by (intro exI [of _ ?s5]) (simp add: tmp_start_def)
qed

end
