(* ===== verification/BuilderProtocol.thy ===== *)
theory BuilderProtocol
  imports Builder
begin

text \<open>
  What the builder constructs satisfies what the protocol of theory Disruptor needs: the ids
  and cursors of consumers built with default settings, the producer the builder returns, and
  the ring they form, in which the producer finds every registered consumer before it
  publishes past one turn of the ring.
\<close>

section \<open>Worlds of cursors\<close>

text \<open>Two names never share a cell, and the next cell is free.\<close>

definition world_ok :: "world \<Rightarrow> bool" where
  "world_ok w \<longleftrightarrow>
     (\<forall>name i. w_names w name = Some i \<longrightarrow> i < w_next w)
     \<and> (\<forall>a b i. w_names w a = Some i \<and> w_names w b = Some i \<longrightarrow> a = b)"

lemma attach_cell: "attach w name = Some h \<longleftrightarrow> (\<exists>i. w_names w name = Some i \<and> h = (name, i))"
  by (auto simp: attach_def)

lemma attach_cells_distinct:
  "world_ok w \<Longrightarrow> attach w a = Some h \<Longrightarrow> attach w b = Some k \<Longrightarrow> a \<noteq> b \<Longrightarrow> snd h \<noteq> snd k"
  by (auto simp: attach_cell world_ok_def)

lemma world_ok_store [simp]: "world_ok (store w h v) = world_ok w"
  by (simp add: world_ok_def store_def)

lemma create_world:
  assumes "world_ok w" "create w name v = Some (h, w')"
  shows "world_ok w'" "attach w name = None" "attach w' name = Some h" "load w' h = v"
    "n \<noteq> name \<Longrightarrow> attach w' n = attach w n"
    "attach w n = Some k \<Longrightarrow> attach w' n = Some k \<and> load w' k = load w k"
proof -
  have none: "w_names w name = None" and h: "h = (name, w_next w)"
    and w': "w' = w\<lparr>w_names := (w_names w)(name \<mapsto> w_next w),
                    w_cells := (w_cells w)(w_next w := v), w_next := Suc (w_next w)\<rparr>"
    using assms(2) by (auto simp: create_def split: option.splits)
  show "attach w name = None" "attach w' name = Some h" "load w' h = v"
    using none by (simp_all add: h w' attach_def load_def)
  show "n \<noteq> name \<Longrightarrow> attach w' n = attach w n" by (simp add: w' attach_def)
  have fresh: "i < w_next w" if "w_names w n = Some i" for n i
    using assms(1) that by (auto simp: world_ok_def)
  show "world_ok w'"
    using assms(1) fresh by (fastforce simp: world_ok_def w' less_Suc_eq split: if_splits)
  show "attach w' n = Some k \<and> load w' k = load w k" if "attach w n = Some k"
    using that none fresh by (fastforce simp: attach_cell w' attach_def load_def)
qed

lemma create_free: "attach w name = None \<Longrightarrow> \<exists>h w'. create w name v = Some (h, w')"
  by (simp add: attach_def create_def)

lemma new_or_attach_free:
  "attach w name = None \<Longrightarrow> create w name v = Some (h, w') \<Longrightarrow> new_or_attach w name v = (h, w')"
  by (simp add: new_or_attach_def)

section \<open>Names of a ring\<close>

lemma name_distinct [simp]:
  "sequence_name base (auto_consumer_id j) \<noteq> producer_seq_name base"
  "sequence_name base (auto_consumer_id j) \<noteq> consumer_registration_cursor_name base"
  "sequence_name base (auto_consumer_id j) \<noteq> consumer_readiness_cursor_name base"
  "producer_seq_name base \<noteq> consumer_registration_cursor_name base"
  "producer_seq_name base \<noteq> consumer_readiness_cursor_name base"
  "consumer_registration_cursor_name base \<noteq> consumer_readiness_cursor_name base"
  by (simp_all add: sequence_name_def producer_seq_name_def consumer_registration_cursor_name_def
      consumer_readiness_cursor_name_def auto_consumer_id_def)

lemmas name_distinct_sym [simp] = name_distinct [symmetric]

section \<open>Consumers with registered ids\<close>

text \<open>The cursors of a ring with \<open>k\<close> registered consumers, none of which has consumed yet.\<close>

definition registered :: "string \<Rightarrow> nat \<Rightarrow> world \<Rightarrow> bool" where
  "registered base k w \<longleftrightarrow>
     world_ok w
     \<and> (\<exists>h. attach w (consumer_registration_cursor_name base) = Some h \<and> load w h = int k)
     \<and> (\<exists>h. attach w (producer_seq_name base) = Some h \<and> load w h = -1)
     \<and> (\<forall>j < k. \<exists>h. attach w (sequence_name base (auto_consumer_id j)) = Some h \<and> load w h = -1)
     \<and> (\<forall>j \<ge> k. attach w (sequence_name base (auto_consumer_id j)) = None)"

lemma signal_readiness_world:
  assumes "world_ok w" "cn_ready c = attach w (consumer_readiness_cursor_name base)"
  shows "world_ok (signal_readiness c w)" "attach (signal_readiness c w) n = attach w n"
    "n \<noteq> consumer_readiness_cursor_name base \<Longrightarrow> attach w n = Some h \<Longrightarrow>
      load (signal_readiness c w) h = load w h"
proof -
  show "world_ok (signal_readiness c w)" "attach (signal_readiness c w) n = attach w n"
    using assms by (simp_all add: signal_readiness_def fetch_add_def split: option.splits)
  show "n \<noteq> consumer_readiness_cursor_name base \<Longrightarrow> attach w n = Some h \<Longrightarrow>
      load (signal_readiness c w) h = load w h"
    using assms attach_cells_distinct [OF assms(1), of n h "consumer_readiness_cursor_name base"]
    by (auto simp: signal_readiness_def fetch_add_def split: option.splits)
qed

text \<open>What one more \<open>build_consumer\<close> does to the cursors, given the ring it maps.\<close>

lemma build_consumer_registered:
  assumes reg: "registered base k (bs_world st)" and k: "int k < i64_max"
    and b: "bd_consumer_id b = None" "smc_name (bd_config b) = base"
    and ring: "ring_attach os (bs_os st) et (bd_config b) = Some (Inr r)"
  shows "\<exists>c w. build_consumer os missing et pid b st = Some (Inr c, st\<lparr>bs_world := w\<rparr>)
     \<and> registered base (Suc k) w \<and> cn_ring c = r \<and> cn_id c = auto_consumer_id k \<and> cn_last c = -1
     \<and> attach w (producer_seq_name base) = Some (cn_producer c)
     \<and> attach w (sequence_name base (auto_consumer_id k)) = Some (cn_cursor c)
     \<and> (\<forall>name h. attach (bs_world st) name = Some h \<longrightarrow> attach w name = Some h)"
proof -
  let ?w = "bs_world st"
  let ?id = "auto_consumer_id k" and ?regname = "consumer_registration_cursor_name base"
  obtain hr hp where ok: "world_ok ?w" and hr: "attach ?w ?regname = Some hr" "load ?w hr = int k"
    and hp: "attach ?w (producer_seq_name base) = Some hp" "load ?w hp = -1"
    and old: "\<forall>j < k. \<exists>h. attach ?w (sequence_name base (auto_consumer_id j)) = Some h \<and> load ?w h = -1"
    and new: "\<forall>j \<ge> k. attach ?w (sequence_name base (auto_consumer_id j)) = None"
    using reg by (auto simp: registered_def)
  define w1 where "w1 = store ?w hr (int k + 1)"
  have wrap: "wrap_i64 (int k + 1) = int k + 1" using k by (intro wrap_i64_id) (simp add: i64_simps i64_max_def)
  have alloc: "allocate_registered_consumer_id base ?w = (Some ?id, w1)"
    using hr by (simp add: allocate_registered_consumer_id_def fetch_add_def w1_def wrap)
  have id: "builder_consumer_id pid b (?w, bs_counter st) = (?id, w1, bs_counter st)"
    using b alloc by (simp add: builder_consumer_id_def default_consumer_id_def)
  have w1: "world_ok w1" "\<And>n. attach w1 n = attach ?w n" using ok by (simp_all add: w1_def)
  have w1_load: "load w1 h = load ?w h" if "attach ?w n = Some h" "n \<noteq> ?regname" for n h
    using attach_cells_distinct [OF ok that(1) hr(1)] that(2) by (simp add: w1_def)
  obtain h w2 where create: "create w1 (sequence_name base ?id) (-1) = Some (h, w2)"
    using create_free [of w1 "sequence_name base ?id" "-1"] w1(2) new by auto
  note w2 = create_world [OF w1(1) create]
  have noa: "new_or_attach w1 (sequence_name base ?id) (-1) = (h, w2)"
    by (rule new_or_attach_free [OF w2(2) create])
  define c where "c = \<lparr> cn_ring = r, cn_producer = hp, cn_cursor = h, cn_id = ?id, cn_last = load w2 h,
      cn_ready = attach w2 (base @ ''_cr''), cn_events_consumed = None, cn_empty_spins = None,
      cn_lag_max = None \<rparr>"
  have ready: "cn_ready c = attach w2 (consumer_readiness_cursor_name base)"
    by (simp add: c_def consumer_readiness_cursor_name_def)
  let ?w3 = "signal_readiness c w2"
  note w3 = signal_readiness_world [OF w2(1) ready]
  have "?id \<noteq> []" by (simp add: auto_consumer_id_def)
  then have "consumer_new w2 r hp h ?id (Some base) = Some (c, ?w3)"
    by (simp add: consumer_new_def c_def Let_def)
  then have built: "build_consumer os missing et pid b st = Some (Inr c, st\<lparr>bs_world := ?w3\<rparr>)"
    using b ring id noa hp by (simp add: build_consumer_def Let_def attach_or_def ok_or_def)
  have keep: "attach ?w3 n = Some x \<and> (n \<noteq> ?regname \<and> n \<noteq> consumer_readiness_cursor_name base
      \<longrightarrow> load ?w3 x = load ?w x)" if "attach ?w n = Some x" for n x
    using that w1(2) w1_load w2(6) [of n x] w3(2) w3(3) [of n x] by auto
  have reg_load: "load ?w3 hr = int k + 1"
  proof -
    have "load w1 hr = int k + 1" by (simp add: w1_def)
    moreover have "attach w2 ?regname = Some hr \<and> load w2 hr = load w1 hr"
      using w2(6) w1(2) hr(1) by simp
    ultimately show ?thesis using w3(3) [of ?regname hr] by simp
  qed
  have mine: "attach ?w3 (sequence_name base ?id) = Some h" "load ?w3 h = -1"
    using w2(3,4) w3(2) w3(3) [OF name_distinct(3) w2(3)] by simp_all
  have "\<exists>x. attach ?w3 (sequence_name base (auto_consumer_id j)) = Some x \<and> load ?w3 x = -1" if j: "j < Suc k" for j
  proof (cases "j = k")
    case False
    then obtain x where "attach ?w (sequence_name base (auto_consumer_id j)) = Some x" "load ?w x = -1"
      using old j by (metis less_SucE)
    then show ?thesis using keep by simp
  qed (use mine in simp)
  moreover have "attach ?w3 (sequence_name base (auto_consumer_id j)) = None" if "Suc k \<le> j" for j
    using that new w1(2) w2(5) w3(2) by simp
  moreover have "\<exists>x. attach ?w3 ?regname = Some x \<and> load ?w3 x = int (Suc k)"
    using keep [OF hr(1)] reg_load by (simp add: add.commute)
  moreover have "\<exists>x. attach ?w3 (producer_seq_name base) = Some x \<and> load ?w3 x = -1"
    using keep [OF hp(1)] hp(2) by simp
  ultimately have "registered base (Suc k) ?w3" using w3(1) by (simp add: registered_def)
  moreover have "cn_ring c = r" "cn_id c = ?id" "cn_last c = -1" "cn_producer c = hp" "cn_cursor c = h"
    using w2(4) by (simp_all add: c_def)
  ultimately show ?thesis using built mine keep hp(1) by blast
qed

text \<open>One process after another builds a consumer with the same settings; each has its own counter.\<close>

fun build_consumers ::
  "'s shm_os \<Rightarrow> (string \<Rightarrow> mp_error) \<Rightarrow> element_type \<Rightarrow> builder \<Rightarrow> (nat \<times> usize) list
    \<Rightarrow> 's build_state \<Rightarrow> (consumer list \<times> 's build_state) option" where
  "build_consumers os missing et b [] st = Some ([], st)"
| "build_consumers os missing et b ((pid, counter) # processes) st =
     (case build_consumer os missing et pid b (st\<lparr>bs_counter := counter\<rparr>) of
        Some (Inr c, st1) \<Rightarrow> map_option (\<lambda>(cs, st2). (c # cs, st2)) (build_consumers os missing et b processes st1)
      | _ \<Rightarrow> None)"

definition consumer_of_slot :: "string \<Rightarrow> ring \<Rightarrow> world \<Rightarrow> nat \<Rightarrow> consumer \<Rightarrow> bool" where
  "consumer_of_slot base r w j c \<longleftrightarrow>
     cn_ring c = r \<and> cn_id c = auto_consumer_id j \<and> cn_last c = -1
     \<and> attach w (producer_seq_name base) = Some (cn_producer c)
     \<and> attach w (sequence_name base (auto_consumer_id j)) = Some (cn_cursor c)"

text \<open>Registered consumers. Processes that build a consumer without an id of its own, after a
  producer with slot-based discovery, get the ids \<open>ad_0\<close>, \<open>ad_1\<close>, ... in the order in which they
  register, each with a cursor of its own at -1, and the registration counter counts them.\<close>

lemma build_consumers_registered:
  assumes "registered base k (bs_world st)" "int k + int (length processes) \<le> i64_max"
    and "bd_consumer_id b = None" "smc_name (bd_config b) = base"
    and "ring_attach os (bs_os st) et (bd_config b) = Some (Inr r)"
  shows "\<exists>cs st'. build_consumers os missing et b processes st = Some (cs, st')
     \<and> length cs = length processes \<and> registered base (k + length processes) (bs_world st')
     \<and> (\<forall>j < length cs. consumer_of_slot base r (bs_world st') (k + j) (cs ! j))
     \<and> (\<forall>name h. attach (bs_world st) name = Some h \<longrightarrow> attach (bs_world st') name = Some h)"
  using assms
proof (induction processes arbitrary: k st)
  case (Cons p ps)
  obtain pid counter where p: "p = (pid, counter)" by (cases p)
  let ?st = "st\<lparr>bs_counter := counter\<rparr>"
  have one: "registered base k (bs_world ?st)" "int k < i64_max"
    "ring_attach os (bs_os ?st) et (bd_config b) = Some (Inr r)"
    using Cons.prems(1,2,5) by simp_all
  obtain c w where c: "build_consumer os missing et pid b ?st = Some (Inr c, ?st\<lparr>bs_world := w\<rparr>)"
    "registered base (Suc k) w" "cn_ring c = r \<and> cn_id c = auto_consumer_id k \<and> cn_last c = -1"
    "attach w (producer_seq_name base) = Some (cn_producer c)"
    "attach w (sequence_name base (auto_consumer_id k)) = Some (cn_cursor c)"
    "\<forall>name h. attach (bs_world ?st) name = Some h \<longrightarrow> attach w name = Some h"
    using build_consumer_registered [OF one(1,2) Cons.prems(3,4) one(3)] by blast
  let ?st1 = "?st\<lparr>bs_world := w\<rparr>"
  have rest: "registered base (Suc k) (bs_world ?st1)" "int (Suc k) + int (length ps) \<le> i64_max"
    "ring_attach os (bs_os ?st1) et (bd_config b) = Some (Inr r)"
    using c(2) Cons.prems(2,5) by simp_all
  obtain cs st' where cs: "build_consumers os missing et b ps ?st1 = Some (cs, st')"
    "length cs = length ps" "registered base (Suc k + length ps) (bs_world st')"
    "\<forall>j < length cs. consumer_of_slot base r (bs_world st') (Suc k + j) (cs ! j)"
    "\<forall>name h. attach (bs_world ?st1) name = Some h \<longrightarrow> attach (bs_world st') name = Some h"
    using Cons.IH [OF rest(1,2) Cons.prems(3,4) rest(3)] by blast
  have first: "consumer_of_slot base r (bs_world st') k c"
    using c(3-5) cs(5) by (simp add: consumer_of_slot_def del: split_paired_All)
  have "consumer_of_slot base r (bs_world st') (k + j) ((c # cs) ! j)" if "j < length (c # cs)" for j
    using that first cs(4) by (cases j) simp_all
  moreover have "build_consumers os missing et b (p # ps) st = Some (c # cs, st')"
    using c(1) cs(1) by (simp add: p)
  ultimately show ?case using cs(2,3,5) c(6) by (intro exI [of _ "c # cs"] exI [of _ st']) simp
qed simp

section \<open>The producer\<close>

text \<open>A name space in which nothing was created for the ring yet.\<close>

definition unused :: "string \<Rightarrow> world \<Rightarrow> bool" where
  "unused base w \<longleftrightarrow> (\<forall>suffix. w_names w (base @ ''_'' @ suffix) = None)"

lemma discover_all_nothing:
  "(\<And>n. n \<in> set names \<Longrightarrow> attach w (sequence_name (cb_base_name b) n) = None)
    \<Longrightarrow> discover_all w names b = b"
proof (induction names)
  case (Cons n ns)
  then have "snd (discover_consumer_id w n b) = b" by (simp add: discover_consumer_id_def)
  then show ?case using Cons by simp
qed simp

text \<open>A pass over a world without sequence cursors tracks nothing.\<close>

lemma discover_consumers_nothing:
  assumes "\<And>n. n \<noteq> ''producer'' \<Longrightarrow> attach w (sequence_name (cb_base_name b) n) = None"
    and "cb_mode b = Enabled m None i" "0 < m" "cb_cursors b = []" "\<not> cb_completed b"
    and "\<forall>h. (cb_registration b = Some h \<or> cb_registration b = None
            \<and> attach w (consumer_registration_cursor_name (cb_base_name b)) = Some h) \<longrightarrow> load w h = 0"
  shows "\<exists>reg. discover_consumers w pid now b = b\<lparr>cb_last_scan := now, cb_registration := reg\<rparr>"
proof -
  let ?b = "b\<lparr>cb_last_scan := now\<rparr>"
  have pids: "n \<noteq> ''producer''" if "n \<in> set (pid_names pid k)" for n k
    using that by (auto simp: pid_names_def)
  have none: "discover_all w (pid_names pid k) (b\<lparr>cb_last_scan := now, cb_registration := reg\<rparr>)
      = b\<lparr>cb_last_scan := now, cb_registration := reg\<rparr>" for k reg
    by (rule discover_all_nothing) (use assms(1) pids in auto)
  have "\<exists>reg. discover_with_registered_slots w m ?b = (0, ?b\<lparr>cb_registration := reg\<rparr>)"
  proof (cases "cb_registration b")
    case None
    then show ?thesis
      using assms(6)
      by (cases "attach w (consumer_registration_cursor_name (cb_base_name b))")
        (auto simp: discover_with_registered_slots_def assms(2) uses_registered_auto_ids_def Let_def)
  next
    case (Some h)
    then show ?thesis
      using assms(6)
      by (intro exI [of _ "cb_registration b"])
        (simp add: discover_with_registered_slots_def Let_def del: split_paired_All)
  qed
  then obtain reg where slots: "discover_with_registered_slots w m ?b = (0, ?b\<lparr>cb_registration := reg\<rparr>)" ..
  have "scan w pid m None ?b = ?b\<lparr>cb_registration := reg\<rparr>"
    using none by (simp add: scan_def slots discover_with_pid_based_scanning_def Let_def)
  moreover have "discovery_scan_plan now b = (True, m, None)"
    using assms(2-5) by (simp add: discovery_scan_plan_def Let_def)
  ultimately have "discover_consumers w pid now b = ?b\<lparr>cb_registration := reg\<rparr>"
    using assms(3,4) by (simp add: discover_consumers_def Let_def)
  then show ?thesis by auto
qed

text \<open>The cursors right after the producer created its own.\<close>

definition producer_world :: "string \<Rightarrow> handle \<Rightarrow> handle \<Rightarrow> world \<Rightarrow> bool" where
  "producer_world base hr hp w \<longleftrightarrow>
     world_ok w
     \<and> attach w (consumer_registration_cursor_name base) = Some hr \<and> load w hr = 0
     \<and> attach w (producer_seq_name base) = Some hp \<and> load w hp = -1
     \<and> (\<forall>n. n \<noteq> ''producer'' \<longrightarrow> attach w (sequence_name base n) = None)"

lemma sequence_name_producer:
  "sequence_name base n = producer_seq_name base \<longleftrightarrow> n = ''producer''"
proof -
  have "n @ ''_seq'' = ''producer'' @ ''_seq'' \<longleftrightarrow> n = ''producer''" by (rule append_same_eq)
  then show ?thesis by (simp add: sequence_name_def producer_seq_name_def)
qed

lemma append_seq_long: "n @ ''_seq'' \<noteq> [a, b]"
  by (cases n) simp_all

lemma sequence_name_others [simp]:
  "sequence_name base n \<noteq> consumer_registration_cursor_name base"
  "sequence_name base n \<noteq> consumer_readiness_cursor_name base"
  using append_seq_long
  by (simp_all add: sequence_name_def consumer_registration_cursor_name_def consumer_readiness_cursor_name_def)

lemma unused_names:
  assumes "unused base w"
  shows "attach w (consumer_registration_cursor_name base) = None"
    "attach w (producer_seq_name base) = None" "attach w (sequence_name base n) = None"
  using assms spec [of _ "''ci''"] spec [of _ "''producer_seq''"] spec [of _ "n @ ''_seq''"]
  by (fastforce simp: unused_def attach_def consumer_registration_cursor_name_def
      producer_seq_name_def sequence_name_def)+

lemma producer_world_store [simp]:
  "producer_world base hr hp w \<Longrightarrow> producer_world base hr hp (store w hp (-1))"
proof -
  assume w: "producer_world base hr hp w"
  then have "snd hr \<noteq> snd hp"
    using attach_cells_distinct [of w "consumer_registration_cursor_name base" hr "producer_seq_name base" hp]
    by (simp add: producer_world_def)
  then show "producer_world base hr hp (store w hp (-1))" using w by (simp add: producer_world_def)
qed

lemma producer_world_create:
  assumes "producer_world base hr hp w" "create w (consumer_readiness_cursor_name base) v = Some (h, w')"
  shows "producer_world base hr hp w'"
proof -
  have ok: "world_ok w" using assms(1) by (simp add: producer_world_def)
  note new = create_world [OF ok assms(2)]
  show ?thesis
    using assms(1) new(1) new(5) new(6) [of "consumer_registration_cursor_name base" hr]
      new(6) [of "producer_seq_name base" hp]
    by (simp add: producer_world_def)
qed

lemma producer_world_registered: "producer_world base hr hp w \<Longrightarrow> registered base 0 w"
  by (auto simp: producer_world_def registered_def auto_consumer_id_def)

text \<open>The barrier of a new producer with slot-based discovery: nothing tracked yet, nothing ruled
  out.\<close>

definition slot_barrier :: "string \<Rightarrow> nat \<Rightarrow> nat \<Rightarrow> barrier \<Rightarrow> bool" where
  "slot_barrier base m i b \<longleftrightarrow>
     cb_base_name b = base \<and> cb_mode b = Enabled m None i \<and> cb_cursors b = [] \<and> \<not> cb_completed b"

lemma discover_slot_barrier:
  assumes "producer_world base hr hp w" "0 < m" "b = barrier_empty base (Enabled m None i) now ready"
  shows "slot_barrier base m i (discover_consumers w pid now b)"
proof -
  have b: "cb_base_name b = base" "cb_mode b = Enabled m None i" "cb_cursors b = []" "\<not> cb_completed b"
    "cb_registration b = None"
    by (simp_all add: assms(3) barrier_empty_def)
  have "\<exists>reg. discover_consumers w pid now b = b\<lparr>cb_last_scan := now, cb_registration := reg\<rparr>"
    by (rule discover_consumers_nothing)
      (use assms(1,2) b in \<open>simp_all add: producer_world_def\<close>)
  then show ?thesis using b by (auto simp: slot_barrier_def)
qed

lemma producer_new_slots:
  assumes "producer_world base hr hp (sh_world sh)" "0 < m" "base \<noteq> []"
    and "producer_new sh pid now r hp base mode (Enabled m None i) (Some hr) = Some (p, sh')"
  shows "producer_world base hr hp (sh_world sh')
     \<and> slot_barrier base m i (pd_barrier p) \<and> cb_registration (pd_barrier p) = Some hr
     \<and> pd_ring p = r \<and> pd_cursor p = hp \<and> pd_sequence p = 0
     \<and> pd_clear p = wrap_i64 (usize_as_i64 (rb_size r) - 1)"
proof -
  let ?w0 = "store (sh_world sh) hp (-1)"
  have w0: "producer_world base hr hp ?w0" using assms(1) by simp
  have plain: "\<exists>b. new_with_discovery ?w0 pid now base (Enabled m None i) = Some b \<and> slot_barrier base m i b"
    using discover_slot_barrier [OF w0 assms(2) refl] assms(3)
    by (simp add: new_with_discovery_def Let_def)
  define built where "built =
    (case mode of
       WaitForConsumers _ _ \<Rightarrow>
         (case new_with_coordination_and_discovery ?w0 pid now base (Enabled m None i) of
            None \<Rightarrow> None
          | Some (Inr (b, w)) \<Rightarrow> Some (b, w)
          | Some (Inl _) \<Rightarrow> map_option (\<lambda>b. (b, ?w0)) (new_with_discovery ?w0 pid now base (Enabled m None i)))
     | _ \<Rightarrow> map_option (\<lambda>b. (b, ?w0)) (new_with_discovery ?w0 pid now base (Enabled m None i)))"
  have built: "\<exists>b w. built = Some (b, w) \<and> slot_barrier base m i b \<and> producer_world base hr hp w"
  proof (cases mode)
    case (WaitForConsumers k t)
    show ?thesis
    proof (cases "create ?w0 (consumer_readiness_cursor_name base) 0")
      case None
      then show ?thesis
        using plain w0 assms(3)
        by (auto simp: built_def WaitForConsumers new_with_coordination_and_discovery_def)
    next
      case (Some hw)
      obtain h w where hw: "hw = (h, w)" by (cases hw)
      have "producer_world base hr hp w" using producer_world_create [OF w0] Some hw by simp
      with discover_slot_barrier [OF this assms(2) refl] show ?thesis
        using Some hw assms(3)
        by (auto simp: built_def WaitForConsumers new_with_coordination_and_discovery_def)
    qed
  qed (use plain w0 in \<open>auto simp: built_def\<close>)
  then obtain b w where bw: "built = Some (b, w)" "slot_barrier base m i b" "producer_world base hr hp w"
    by blast
  have "Some (p, sh') =
    (case built of None \<Rightarrow> None
     | Some (b, w) \<Rightarrow>
         (case clone_handle w hp of None \<Rightarrow> None
          | Some h \<Rightarrow> Some (\<lparr> pd_ring = r, pd_cursor = hp,
              pd_barrier = set_producer_sequence h (set_consumer_registration hr b),
              pd_sequence = 0, pd_clear = wrap_i64 (usize_as_i64 (rb_size r) - 1),
              pd_coordination_completed = False, pd_liveness = None,
              pd_events_published = None, pd_full_events = None \<rparr>, sh\<lparr>sh_world := w\<rparr>)))"
    using assms(4) unfolding producer_new_def Let_def option.case built_def by simp
  then have "(case clone_handle w hp of None \<Rightarrow> None
          | Some h \<Rightarrow> Some (\<lparr> pd_ring = r, pd_cursor = hp,
              pd_barrier = set_producer_sequence h (set_consumer_registration hr b),
              pd_sequence = 0, pd_clear = wrap_i64 (usize_as_i64 (rb_size r) - 1),
              pd_coordination_completed = False, pd_liveness = None,
              pd_events_published = None, pd_full_events = None \<rparr>, sh\<lparr>sh_world := w\<rparr>))
     = Some (p, sh')"
    by (simp add: bw(1))
  then show ?thesis
    using bw(2,3)
    by (auto simp: slot_barrier_def set_producer_sequence_def set_consumer_registration_def
        split: option.splits)
qed

lemma build_producer_initial:
  assumes "world_ok (bs_world st)" "unused base (bs_world st)" "smc_name (bd_config b) = base" "base \<noteq> []"
    and "bd_discovery_mode b = Some (Enabled m None i)" "0 < m"
    and "ring_new os (bs_os st) et (bd_config b) factory = Some (Inr r, s1)"
    and "build_producer os taken et pid now b factory counters st obs = Returns (res, st')"
  shows "\<exists>p hr. res = Inr p \<and> bs_os st' = s1 \<and> producer_world base hr (pd_cursor p) (bs_world st')
     \<and> slot_barrier base m i (pd_barrier p) \<and> cb_registration (pd_barrier p) = Some hr
     \<and> pd_ring p = r \<and> pd_sequence p = 0 \<and> pd_clear p = wrap_i64 (usize_as_i64 (rb_size r) - 1)
     \<and> pd_coordination_completed p"
proof -
  note free = unused_names [OF assms(2)]
  obtain hr w1 where c1: "create (bs_world st) (consumer_registration_cursor_name base) 0 = Some (hr, w1)"
    using create_free [OF free(1)] by blast
  note w1 = create_world [OF assms(1) c1]
  have reg: "create_consumer_registration_cursor base (Enabled m None i) (bs_world st) = (Some hr, w1)"
    using new_or_attach_free [OF free(1) c1]
    by (simp add: create_consumer_registration_cursor_def uses_registered_auto_ids_def)
  have "attach w1 (producer_seq_name base) = None" using free(2) w1(5) by simp
  then obtain hp w2 where c2: "create w1 (producer_seq_name base) (-1) = Some (hp, w2)"
    using create_free by blast
  note w2 = create_world [OF w1(1) c2]
  have w2_ok: "producer_world base hr hp w2"
    using w2(1,3,4) w2(6) [OF w1(3)] w1(4,5) free(3) w2(5)
    by (simp add: producer_world_def sequence_name_producer)
  obtain mode p0 sh where mode: "effective_coordination b (Enabled m None i) = Some mode"
    and p0: "producer_new \<lparr> sh_world = w2, sh_slots = [] :: unit list, sh_counters = counters \<rparr>
        pid now r hp base mode (Enabled m None i) (Some hr) = Some (p0, sh)"
    and fin: "bind_outcome (coordinate_startup pid now mode p0 obs)
        (\<lambda>(_, p1). Returns (Inr p1, st\<lparr>bs_os := s1, bs_world := sh_world sh\<rparr>)) = Returns (res, st')"
    using assms(8) unfolding build_producer_def Let_def assms(3,5) option.case reg prod.case assms(7)
      sum.case c2
    by (auto split: option.splits)
  have facts: "producer_world base hr hp (sh_world sh)
     \<and> slot_barrier base m i (pd_barrier p0) \<and> cb_registration (pd_barrier p0) = Some hr
     \<and> pd_ring p0 = r \<and> pd_cursor p0 = hp \<and> pd_sequence p0 = 0
     \<and> pd_clear p0 = wrap_i64 (usize_as_i64 (rb_size r) - 1)"
    by (rule producer_new_slots [OF _ assms(6,4) p0]) (simp add: w2_ok)
  obtain ok p1 where p1: "coordinate_startup pid now mode p0 obs = Returns (ok, p1)"
    using fin by (cases "coordinate_startup pid now mode p0 obs") auto
  have p1_eq: "p1 = p0\<lparr>pd_coordination_completed := True\<rparr>"
    using p1 by (auto simp: coordinate_startup_def bind_outcome_def split: coordination_mode.splits outcome.splits)
  have "res = Inr p1 \<and> st' = st\<lparr>bs_os := s1, bs_world := sh_world sh\<rparr>" using fin p1 by simp
  then show ?thesis using facts p1_eq by (auto simp del: split_paired_Ex)
qed

section \<open>The ring the builders form\<close>

definition built_system :: "producer \<Rightarrow> consumer list \<Rightarrow> 'e list \<Rightarrow> counters_file \<Rightarrow> world \<Rightarrow> 'e system" where
  "built_system p cs slots f w =
     \<lparr> sy_shared = \<lparr> sh_world = w, sh_slots = slots, sh_counters = f \<rparr>, sy_producer = p,
       sy_phase = Ready,
       sy_readers = map (\<lambda>c. \<lparr> rd_consumer = c, rd_phase = Idle, rd_start = 0, rd_seen = [] \<rparr>) cs,
       sy_hist = [] \<rparr>"

lemma built_system_simps [simp]:
  "sy_world (built_system p cs slots f w) = w" "sy_producer (built_system p cs slots f w) = p"
  "sy_phase (built_system p cs slots f w) = Ready" "sy_hist (built_system p cs slots f w) = []"
  "sh_slots (sy_shared (built_system p cs slots f w)) = slots"
  "reader_handles (built_system p cs slots f w) = map cn_cursor cs"
  "length (sy_readers (built_system p cs slots f w)) = length cs"
  by (simp_all add: built_system_def sy_world_def reader_handles_def)

text \<open>One discovery pass over \<open>n\<close> registered slots tracks all of them.\<close>

lemma tracked_handle:
  assumes "barrier_ok w b" "known b n" "attach w (sequence_name (cb_base_name b) n) = Some h"
  shows "h \<in> tracked_handles b"
proof -
  obtain h' where "map_of (cb_cursors b) n = Some h'" using assms(2) by (auto simp: known_def)
  then have "(n, h') \<in> set (cb_cursors b)" by (rule map_of_SomeD)
  moreover from this have "h' = h" using assms(1,3) by (auto simp: barrier_ok_def)
  ultimately show ?thesis by (force simp: tracked_handles_def)
qed

lemma discover_all_keeps:
  "barrier_ok w b \<Longrightarrow> set (cb_cursors b) \<subseteq> set (cb_cursors (discover_all w names b))"
  using discover_all_ok [of w b names] by (auto simp: extends_def)

lemma discover_slots:
  assumes "barrier_ok w b" "cb_mode b = Enabled m None i" "0 < m" "n \<le> m"
    and "cb_cursors b = []" "\<not> cb_completed b" "cb_registration b = Some hr" "load w hr = int n"
    and "j < n" "attach w (sequence_name (cb_base_name b) (auto_consumer_id j)) = Some h"
  shows "h \<in> tracked_handles (discover_consumers w pid now b)"
proof -
  let ?b = "b\<lparr>cb_last_scan := now\<rparr>"
  let ?b1 = "discover_all w (map auto_consumer_id [0..<n]) ?b"
  have "nat (min (max 0 (int n)) (int m)) = n" using assms(4) by simp
  then have slots: "discover_with_registered_slots w m ?b = (n, ?b1)"
    using assms(7,8) by (simp add: discover_with_registered_slots_def Let_def)
  have ok: "barrier_ok w ?b" using assms(1) by simp
  have known: "known ?b1 (auto_consumer_id j)"
    by (rule discover_all_complete [of _ _ _ _ h]) (use assms(9,10) in auto)
  have b1: "barrier_ok w ?b1" "extends b ?b1" using discover_all_ok [OF ok] by simp_all
  have found: "h \<in> tracked_handles ?b1"
    by (rule tracked_handle [OF b1(1) known]) (use assms(10) b1(2) in \<open>simp add: extends_def\<close>)
  have "set (cb_cursors ?b1) \<subseteq> set (cb_cursors (scan w pid m None ?b))"
    using discover_all_keeps [OF b1(1)]
    by (simp add: scan_def slots discover_with_pid_based_scanning_def Let_def)
  moreover have "discovery_scan_plan now b = (True, m, None)"
    using assms(2,3,5,6) by (simp add: discovery_scan_plan_def Let_def)
  ultimately show ?thesis using found by (auto simp: discover_consumers_def Let_def tracked_handles_def)
qed

lemma discover_all_registration [simp]: "cb_registration (discover_all w names b) = cb_registration b"
  by (induction names arbitrary: b)
    (simp_all add: discover_consumer_id_def split: option.splits)

lemma discover_keeps_registration:
  "cb_registration b = Some hr \<Longrightarrow> cb_registration (discover_consumers w pid now b) = Some hr"
  by (auto simp: discover_consumers_def scan_def discovery_defs Let_def
      split: prod.splits option.splits if_splits)

text \<open>A step changes the barrier only by a discovery pass, and stores only into the cursors of the
  producer and the readers.\<close>

lemma step_barrier:
  assumes "step pid s t" "system_ok s"
  shows "pd_barrier (sy_producer t) = pd_barrier (sy_producer s)
     \<or> (\<exists>now. pd_barrier (sy_producer t)
          = refresh_discovery (sy_world s) pid now (pd_barrier (sy_producer s)))"
    and "pd_cursor (sy_producer t) = pd_cursor (sy_producer s)"
proof -
  have w: "writer_ok s" using assms(2) by (simp add: system_ok_def)
  have res: "(pd_barrier p1 = pd_barrier (sy_producer s)
     \<or> (\<exists>now. pd_barrier p1 = refresh_discovery (sy_world s) pid now (pd_barrier (sy_producer s))))
     \<and> pd_cursor p1 = pd_cursor (sy_producer s)"
    if "sy_phase s = Ready" "0 < n" "pd_sequence (sy_producer s) + int n \<le> seq_limit"
      "next_sequences (sy_world s) pid now n (sy_producer s) = Some (res, p1)" for now n p1 res
  proof -
    note facts = gate_facts [OF w that(1)]
    obtain m b where gate: "get_min_consumer_sequence (sy_world s) pid now (pd_barrier (sy_producer s)) = (m, b)"
      by fastforce
    then have "b = refresh_discovery (sy_world s) pid now (pd_barrier (sy_producer s))"
      by (auto simp: get_min_refresh Let_def)
    then show ?thesis
      using next_sequences_cases [OF facts(1) that(2,3) facts(2-5), of pid now] gate that(4)
      by (auto split: if_splits)
  qed
  show "pd_barrier (sy_producer t) = pd_barrier (sy_producer s)
     \<or> (\<exists>now. pd_barrier (sy_producer t)
          = refresh_discovery (sy_world s) pid now (pd_barrier (sy_producer s)))"
    "pd_cursor (sy_producer t) = pd_cursor (sy_producer s)"
    using assms(1) res by (cases; auto)+
qed

lemma reader_handle: "i < length (sy_readers s) \<Longrightarrow> cn_cursor (rd_consumer (sy_readers s ! i)) \<in> set (reader_handles s)"
  by (simp add: reader_handles_def)

lemma step_stores:
  assumes "step pid s t" "snd h \<noteq> snd (pd_cursor (sy_producer s))" "snd h \<notin> snd ` set (reader_handles s)"
  shows "load (sy_world t) h = load (sy_world s) h"
  using assms(1)
proof cases
  case (finish i r q upper c1 sh1)
  then have "snd h \<noteq> snd (cn_cursor (rd_consumer r))"
    using assms(3) reader_handle [of i s] by auto
  then show ?thesis
    using finish by (auto simp: sy_world_def shared_store_def publish_consumed_sequence_def)
qed (use assms(2) in \<open>simp_all add: sy_world_def shared_store_def\<close>)

text \<open>The state of slot-based discovery during a run: nothing tracked yet and the registration
  counter still counts the readers, or all of them tracked.\<close>

definition slots_ready :: "string \<Rightarrow> nat \<Rightarrow> nat \<Rightarrow> handle \<Rightarrow> 'e system \<Rightarrow> bool" where
  "slots_ready base m n hr s \<longleftrightarrow>
     (let b = pd_barrier (sy_producer s) in
      cb_base_name b = base \<and> (\<exists>i. cb_mode b = Enabled m None i) \<and> cb_registration b = Some hr
      \<and> load (sy_world s) hr = int n
      \<and> snd hr \<noteq> snd (pd_cursor (sy_producer s)) \<and> snd hr \<notin> snd ` set (reader_handles s)
      \<and> (\<forall>h \<in> set (reader_handles s). \<exists>j < n.
           attach (sy_world s) (sequence_name base (auto_consumer_id j)) = Some h)
      \<and> (cb_cursors b = [] \<and> \<not> cb_completed b \<or> all_tracked s))"

lemma slots_ready_covered: "slots_ready base m n hr s \<Longrightarrow> covered s"
  by (auto simp: slots_ready_def covered_def all_tracked_def tracked_handles_def Let_def)

lemma refresh_slots:
  assumes "slots_ready base m n hr s" "system_ok s" "0 < m" "n \<le> m"
    and "cb_cursors (pd_barrier (sy_producer s)) = []" "\<not> cb_completed (pd_barrier (sy_producer s))"
  shows "set (reader_handles s)
     \<subseteq> tracked_handles (refresh_discovery (sy_world s) pid now (pd_barrier (sy_producer s)))"
proof
  fix h assume "h \<in> set (reader_handles s)"
  then obtain j where j: "j < n" "attach (sy_world s) (sequence_name base (auto_consumer_id j)) = Some h"
    using assms(1) by (auto simp: slots_ready_def Let_def)
  let ?b = "pd_barrier (sy_producer s)"
  obtain i where b: "cb_base_name ?b = base" "cb_mode ?b = Enabled m None i" "cb_registration ?b = Some hr"
    "load (sy_world s) hr = int n"
    using assms(1) by (auto simp: slots_ready_def Let_def)
  have "barrier_ok (sy_world s) ?b" using assms(2) by (simp add: system_ok_def writer_ok_def Let_def)
  from discover_slots [OF this b(2) assms(3,4,5,6) b(3,4) j(1)] j(2) b(1)
  show "h \<in> tracked_handles (refresh_discovery (sy_world s) pid now ?b)"
    using assms(6) by (simp add: refresh_discovery_def b(2))
qed

lemma step_slots_ready:
  assumes "step pid s t" "system_ok s" "slots_ready base m n hr s" "0 < m" "n \<le> m"
  shows "slots_ready base m n hr t"
proof -
  let ?b = "pd_barrier (sy_producer s)" and ?b' = "pd_barrier (sy_producer t)"
  note kept = step_tracked [OF assms(1,2)]
  obtain i where b: "cb_base_name ?b = base" "cb_mode ?b = Enabled m None i" "cb_registration ?b = Some hr"
    "load (sy_world s) hr = int n" "snd hr \<noteq> snd (pd_cursor (sy_producer s))"
    "snd hr \<notin> snd ` set (reader_handles s)"
    "\<forall>h \<in> set (reader_handles s). \<exists>j < n.
       attach (sy_world s) (sequence_name base (auto_consumer_id j)) = Some h"
    and phase: "cb_cursors ?b = [] \<and> \<not> cb_completed ?b \<or> all_tracked s"
    using assms(3) by (auto simp: slots_ready_def Let_def)
  have bok: "barrier_ok (sy_world s) ?b" using assms(2) by (simp add: system_ok_def writer_ok_def Let_def)
  have cursor: "pd_cursor (sy_producer t) = pd_cursor (sy_producer s)"
    using step_barrier(2) [OF assms(1,2)] .
  have names: "attach (sy_world t) x = attach (sy_world s) x" for x
    using kept(3) by (simp add: attach_def)
  have mode: "cb_mode ?b' = Enabled m None i \<and> cb_registration ?b' = Some hr"
    using step_barrier(1) [OF assms(1,2)] refresh_discovery_ok [OF bok, of pid] b(2,3)
      discover_keeps_registration [OF b(3), of "sy_world s" pid]
    by (auto simp: extends_def refresh_discovery_def)
  have "cb_cursors ?b' = [] \<and> \<not> cb_completed ?b' \<or> all_tracked t"
  proof (cases "all_tracked s")
    case True
    then show ?thesis using kept(1,2) by (auto simp: all_tracked_def)
  next
    case False
    then have empty: "cb_cursors ?b = []" "\<not> cb_completed ?b" using phase by simp_all
    show ?thesis
      using step_barrier(1) [OF assms(1,2)]
    proof
      assume "?b' = ?b"
      then show ?thesis using empty by simp
    next
      assume "\<exists>now. ?b' = refresh_discovery (sy_world s) pid now ?b"
      then obtain now where "?b' = refresh_discovery (sy_world s) pid now ?b" ..
      then have "set (reader_handles t) \<subseteq> tracked_handles ?b'"
        using refresh_slots [OF assms(3,2,4,5) empty, of pid now] kept(2) by simp
      then show ?thesis by (simp add: all_tracked_def)
    qed
  qed
  then show ?thesis
    using b mode kept(2,4) names cursor step_stores [OF assms(1) b(5,6)]
    by (simp add: slots_ready_def Let_def)
qed

lemma slots_run_ok:
  assumes "run pid s t" "system_ok s" "slots_ready base m n hr s" "0 < m" "n \<le> m"
  shows "system_ok t \<and> slots_ready base m n hr t"
  using assms
proof (induction rule: run.induct)
  case (run_step s t t')
  then have ok: "system_ok t" "slots_ready base m n hr t" by simp_all
  have ready: "slots_ready base m n hr t'"
    by (rule step_slots_ready [OF run_step.hyps(2) ok run_step.prems(3,4)])
  show ?case
    using step_preserves [OF run_step.hyps(2) ok(1) slots_ready_covered [OF ready]] ready by simp
qed simp

lemma built_cells_distinct:
  assumes "world_ok w" "attach w (producer_seq_name base) = Some hp"
    and "\<forall>j < length cs. consumer_of_slot base r w j (cs ! j)"
  shows "distinct (snd hp # map snd (map cn_cursor cs))"
proof -
  have own: "attach w (sequence_name base (auto_consumer_id j)) = Some (cn_cursor (cs ! j))" if "j < length cs" for j
    using assms(3) that by (simp add: consumer_of_slot_def)
  have different: "snd (cn_cursor (cs ! j)) \<noteq> snd (cn_cursor (cs ! k))" if "j < length cs" "k < length cs" "j \<noteq> k" for j k
    using attach_cells_distinct [OF assms(1) own [OF that(1)] own [OF that(2)]] that(3) by simp
  have "snd hp \<noteq> snd (cn_cursor (cs ! j))" if "j < length cs" for j
    using attach_cells_distinct [OF assms(1,2) own [OF that]] by simp
  then have "snd hp \<notin> set (map (\<lambda>c. snd (cn_cursor c)) cs)"
    by (fastforce simp: in_set_conv_nth)
  moreover have "distinct (map (\<lambda>c. snd (cn_cursor c)) cs)"
    using different by (simp add: distinct_conv_nth)
  ultimately show ?thesis by (simp add: comp_def)
qed

lemma small_capacity: "int n \<le> seq_limit \<Longrightarrow> n < 2 ^ 63"
  by (simp add: seq_limit_def)

lemma seq_limit_pos: "0 \<le> seq_limit"
  by (simp add: seq_limit_def)

lemma wrap_capacity: "n < 2 ^ 63 \<Longrightarrow> 0 < n \<Longrightarrow> wrap_i64 (int n - 1) = int n - 1"
  by (intro wrap_i64_id) (simp add: i64_simps)

text \<open>A producer and registered consumers over one ring start a safe run.\<close>

lemma built_system_fresh:
  assumes "registered base n w" "\<forall>j < length cs. consumer_of_slot base r' w j (cs ! j)"
    and "attach w (producer_seq_name base) = Some (pd_cursor p)"
    and "slot_barrier base m i (pd_barrier p)" "pd_sequence p = 0"
    and "pd_clear p = wrap_i64 (usize_as_i64 (rb_size (pd_ring p)) - 1)"
    and "ring_wf (pd_ring p)" "ring_capacity p \<le> seq_limit" "same_slots r' (pd_ring p)"
    and "length slots = unat (rb_size (pd_ring p))" "sequences_in_range w (pd_barrier p)"
  shows "fresh (built_system p cs slots f w)"
proof -
  let ?s = "built_system p cs slots f w"
  obtain hp where hp: "attach w (producer_seq_name base) = Some hp" "load w hp = -1" and ok: "world_ok w"
    and old: "\<forall>j < n. \<exists>h. attach w (sequence_name base (auto_consumer_id j)) = Some h \<and> load w h = -1"
    and new: "\<forall>j \<ge> n. attach w (sequence_name base (auto_consumer_id j)) = None"
    using assms(1) by (auto simp: registered_def)
  have cursor: "load w (pd_cursor p) = -1" using assms(3) hp by simp
  have small: "unat (rb_size (pd_ring p)) < 2 ^ 63" "0 < unat (rb_size (pd_ring p))"
    using small_capacity [of "unat (rb_size (pd_ring p))"] assms(8) ring_wf_size_pos [OF assms(7)]
    unfolding ring_capacity_def by blast+
  then have clear: "pd_clear p = int (unat (rb_size (pd_ring p))) - 1"
    unfolding assms(6) usize_as_i64_def sint_of_small [OF small(1)] by (rule wrap_capacity)
  have "barrier_ok w (pd_barrier p)" "cb_mode (pd_barrier p) \<noteq> Disabled"
    using assms(4) by (simp_all add: slot_barrier_def barrier_ok_def)
  moreover have nonneg: "- 1 < uint (rb_size (pd_ring p))"
    by (rule order_less_le_trans [of _ 0]) simp_all
  ultimately have writer: "writer_ok ?s"
    using assms(5,7,8,10,11) cursor clear small
      nonneg seq_limit_pos
    by (simp add: writer_ok_def Let_def producer_in_range_def capacity_def published_def)
  have cells: "cells_ok ?s"
    using built_cells_distinct [OF ok assms(3,2)] by (simp add: cells_ok_def)
  have readers: "same_slots (cn_ring c) (pd_ring p) \<and> cn_producer c = pd_cursor p \<and> cn_last c = -1
      \<and> load w (cn_cursor c) = -1" if mem: "c \<in> set cs" for c
  proof -
    obtain j where "j < length cs" "c = cs ! j" using mem by (auto simp: in_set_conv_nth)
    then have c: "consumer_of_slot base r' w j c" using assms(2) by simp
    have "j < n" using c new by (metis consumer_of_slot_def linorder_not_less option.distinct(1))
    then have "load w (cn_cursor c) = -1" using c old by (auto simp: consumer_of_slot_def)
    then show ?thesis using c assms(3,9) by (simp add: consumer_of_slot_def)
  qed
  show ?thesis
    using writer cells readers clear
    by (auto simp: fresh_def capacity_def built_system_def sy_world_def)
qed

lemma built_slots_ready:
  assumes "registered base n w" "length cs = n" "\<forall>j < length cs. consumer_of_slot base r' w j (cs ! j)"
    and "attach w (consumer_registration_cursor_name base) = Some hr"
    and "attach w (producer_seq_name base) = Some (pd_cursor p)"
    and "slot_barrier base m i (pd_barrier p)" "cb_registration (pd_barrier p) = Some hr"
  shows "slots_ready base m n hr (built_system p cs slots f w)"
proof -
  have ok: "world_ok w" and count: "load w hr = int n"
    using assms(1,4) by (auto simp: registered_def)
  have own: "attach w (sequence_name base (auto_consumer_id j)) = Some (cn_cursor (cs ! j))" if "j < length cs" for j
    using assms(3) that by (simp add: consumer_of_slot_def)
  have handles: "\<exists>j < n. attach w (sequence_name base (auto_consumer_id j)) = Some h"
    if "h \<in> set (map cn_cursor cs)" for h
  proof -
    obtain k where "k < length cs" "h = cn_cursor (cs ! k)" using \<open>h \<in> set (map cn_cursor cs)\<close>
      by (auto simp: in_set_conv_nth)
    then show ?thesis using own assms(2) by blast
  qed
  have apart: "snd hr \<noteq> snd (pd_cursor p)"
    using attach_cells_distinct [OF ok assms(4,5)] by simp
  have "snd hr \<noteq> snd h" if "h \<in> set (map cn_cursor cs)" for h
    using handles [OF that] attach_cells_distinct [OF ok assms(4)] by fastforce
  then have "snd hr \<notin> snd ` set (map cn_cursor cs)" by blast
  then show ?thesis
    using assms(6,7) count handles apart by (simp add: slots_ready_def Let_def slot_barrier_def)
qed

lemma ring_attach_create [simp]:
  "ring_attach os s et (config\<lparr>smc_create := x\<rparr>) = ring_attach os s et config"
  by (simp add: ring_attach_def Let_def)

lemma attach_builder:
  "bd_consumer_id (attach_shared_consumer et name cap) = None"
  "bd_config (attach_shared_consumer et name cap)
     = (bd_config (build_shared_single_producer et name cap))\<lparr>smc_create := False\<rparr>"
  "smc_name (bd_config (build_shared_single_producer et name cap)) = name"
  "smc_create (bd_config (build_shared_single_producer et name cap))"
  by (simp_all add: attach_shared_consumer_def build_shared_single_producer_def builder_new_def)

lemma build_producer_ring:
  assumes "build_producer os taken et pid now b factory counters st obs = Returns (Inr p, st1)"
  shows "\<exists>r s1. ring_new os (bs_os st) et (bd_config b) factory = Some (Inr r, s1)"
proof (rule ccontr)
  assume no: "\<not> ?thesis"
  obtain reg w1 where c: "create_consumer_registration_cursor (smc_name (bd_config b))
      (case bd_discovery_mode b of None \<Rightarrow> discovery_default | Some m \<Rightarrow> m) (bs_world st) = (reg, w1)"
    by fastforce
  consider "ring_new os (bs_os st) et (bd_config b) factory = None"
    | e s1 where "ring_new os (bs_os st) et (bd_config b) factory = Some (Inl e, s1)"
    using no by (cases "ring_new os (bs_os st) et (bd_config b) factory") (auto, metis sum.exhaust)
  then show False using assms by cases (simp_all add: build_producer_def Let_def c)
qed


text \<open>A producer and consumers over the operating system of theory RingBuffers.\<close>

definition empty_world :: world where
  "empty_world = \<lparr> w_names = (\<lambda>_. None), w_cells = (\<lambda>_. 0), w_next = 0 \<rparr>"

definition tiny_state :: "table_state build_state" where
  "tiny_state = \<lparr> bs_os = table_empty, bs_world = empty_world, bs_counter = 0 \<rparr>"

definition tiny_builder :: builder where
  "tiny_builder = with_coordination Immediate
     (with_discovery (Enabled 2 None 0) (build_shared_single_producer tiny_element ''ring'' 4))"

abbreviation tiny_build ::
  "(nat \<Rightarrow> u8 list) \<Rightarrow> (producer mp_result \<times> table_state build_state) outcome" where
  "tiny_build factory \<equiv>
     build_producer table_os SegmentNotFound tiny_element 1 0 tiny_builder factory counters_init tiny_state []"

lemma tiny_builder_simps:
  "bd_config tiny_builder = tiny_config" "bd_discovery_mode tiny_builder = Some (Enabled 2 None 0)"
  "bd_coordination_mode tiny_builder = Some Immediate"
  "bd_config (build_shared_single_producer tiny_element ''ring'' 4) = tiny_config"
  by (simp_all add: tiny_builder_def with_coordination_def with_discovery_def
      build_shared_single_producer_def builder_new_def tiny_config_def tiny_element_def)

lemma tiny_et: "et_size tiny_element = 2"
  by (simp add: tiny_element_def)

lemma tiny_producer:
  "\<exists>p st1. tiny_build factory = Returns (Inr p, st1) \<and> ring_capacity p = 4"
proof -
  obtain r s1 where r: "ring_new table_os table_empty tiny_element tiny_config factory = Some (Inr r, s1)"
    "unat (rb_size r) = 4"
    using tiny_ring_new by blast
  have name: "smc_name tiny_config = ''ring''" by (simp add: tiny_config_def)
  have "\<exists>p st1. tiny_build factory = Returns (Inr p, st1) \<and> pd_ring p = r"
    by (simp add: build_producer_def Let_def tiny_builder_simps name r(1) tiny_state_def
        create_consumer_registration_cursor_def uses_registered_auto_ids_def new_or_attach_def create_def
        empty_world_def consumer_registration_cursor_name_def producer_seq_name_def
        effective_coordination_def producer_new_def new_with_discovery_def clone_handle_def attach_def
        store_def coordinate_startup_def)
  then show ?thesis using r(2) unfolding ring_capacity_def by (metis of_nat_numeral)
qed

lemma tiny_world: "world_ok empty_world" "unused name empty_world"
  by (simp_all add: world_ok_def unused_def empty_world_def)


section \<open>Ids that collide\<close>

lemma build_consumer_open:
  assumes "build_consumer os missing et pid b st = Some (Inr c, st')"
  shows "\<exists>producer w1 counter w2. attach (bs_world st) (producer_seq_name (smc_name (bd_config b))) = Some producer
     \<and> builder_consumer_id pid b (bs_world st, bs_counter st) = (cn_id c, w1, counter)
     \<and> new_or_attach w1 (sequence_name (smc_name (bd_config b)) (cn_id c)) (-1) = (cn_cursor c, w2)
     \<and> cn_producer c = producer \<and> cn_last c = load w2 (cn_cursor c)
     \<and> bs_world st' = signal_readiness c w2"
  using assms
  by (auto simp: build_consumer_def Let_def attach_or_def ok_or_def consumer_new_def
      split: option.splits sum.splits prod.splits if_splits)

lemma new_or_attach_names:
  "new_or_attach w name v = (h, w') \<Longrightarrow> n \<noteq> name \<Longrightarrow> attach w' n = attach w n"
  by (auto simp: new_or_attach_def create_def attach_def split: option.splits)

lemma signal_names [simp]: "attach (signal_readiness c w) n = attach w n"
  by (simp add: signal_readiness_def fetch_add_def split: option.splits)

text \<open>C28. Colliding process ids. Without a registration cursor the default id keeps only the last four digits of the
  process id, so the first consumers of two processes whose ids differ by a multiple of 10000
  get the same id, and the second one opens the cursor of the first instead of its own.\<close>

theorem legacy_ids_share_cursor:
  assumes "pid mod 10000 = pid' mod 10000" "bd_consumer_id b = None"
    and "attach (bs_world st) (consumer_registration_cursor_name (smc_name (bd_config b))) = None"
    and "build_consumer os missing et pid b st = Some (Inr c, st1)"
    and "build_consumer os missing et pid' b (st1\<lparr>bs_counter := bs_counter st\<rparr>) = Some (Inr c', st2)"
  shows "cn_id c' = cn_id c \<and> cn_cursor c' = cn_cursor c"
proof -
  let ?base = "smc_name (bd_config b)"
  have legacy: "builder_consumer_id p b (w, n) = (legacy_consumer_id p n, w, n + 1)"
    if "attach w (consumer_registration_cursor_name ?base) = None" for p w n
    using that assms(2)
    by (simp add: builder_consumer_id_def default_consumer_id_def allocate_registered_consumer_id_def)
  obtain h w2 where one: "cn_id c = legacy_consumer_id pid (bs_counter st)"
    "new_or_attach (bs_world st) (sequence_name ?base (cn_id c)) (-1) = (cn_cursor c, w2)"
    "bs_world st1 = signal_readiness c w2"
    using build_consumer_open [OF assms(4)] legacy [OF assms(3)] by auto
  have open_one: "attach (bs_world st1) (sequence_name ?base (cn_id c)) = Some (cn_cursor c)"
    using new_or_attach_opens [OF one(2)] one(3) by simp
  have "attach (bs_world st1) (consumer_registration_cursor_name ?base) = None"
    using new_or_attach_names [OF one(2), of "consumer_registration_cursor_name ?base"] assms(3) one(3)
    by (simp del: sequence_name_others add: sequence_name_others [symmetric])
  then obtain w3 where two: "cn_id c' = legacy_consumer_id pid' (bs_counter st)"
    "new_or_attach (bs_world st1) (sequence_name ?base (cn_id c')) (-1) = (cn_cursor c', w3)"
    using build_consumer_open [OF assms(5)] legacy by auto
  have same: "cn_id c' = cn_id c" using one(1) two(1) assms(1) by (simp add: legacy_consumer_id_def)
  have "w_names (bs_world st1) (sequence_name ?base (cn_id c)) \<noteq> None"
    using open_one by (auto simp: attach_def)
  then have "create (bs_world st1) (sequence_name ?base (cn_id c)) (-1) = None"
    by (auto simp: create_def)
  then show ?thesis using two(2) same open_one by (simp add: new_or_attach_def)
qed

lemma build_consumer_total:
  assumes "ring_attach os (bs_os st) et (bd_config b) = Some (Inr r)"
    and "attach (bs_world st) (producer_seq_name (smc_name (bd_config b))) = Some hp"
    and "fst (builder_consumer_id pid b (bs_world st, bs_counter st)) \<noteq> []"
  shows "\<exists>c st'. build_consumer os missing et pid b st = Some (Inr c, st') \<and> bs_os st' = bs_os st"
  using assms
  by (auto simp: build_consumer_def Let_def attach_or_def ok_or_def consumer_new_def split: prod.splits)

text \<open>A ring whose producer did not enable discovery.\<close>

definition plain_world :: world where
  "plain_world = \<lparr> w_names = [''ring_producer_seq'' \<mapsto> 0], w_cells = (\<lambda>_. -1), w_next = 1 \<rparr>"

lemma tiny_attach:
  "\<exists>s1 r. ring_attach table_os s1 tiny_element tiny_config = Some (Inr r)"
proof -
  obtain r s1 where "ring_new table_os table_empty tiny_element tiny_config (\<lambda>i. [0, 0]) = Some (Inr r, s1)"
    using tiny_ring_new by blast
  from new_then_attach [OF table_os_promises this]
  have "ring_attach table_os s1 tiny_element tiny_config = Some (Inr (r\<lparr>rb_is_owner := False\<rparr>))"
    by (simp add: tiny_et tiny_config_def)
  then show ?thesis by (intro exI)
qed

lemma plain_names [simp]:
  "attach plain_world (producer_seq_name ''ring'') = Some (''ring_producer_seq'', 0)"
  "attach plain_world (consumer_registration_cursor_name ''ring'') = None"
  by (simp_all add: plain_world_def attach_def producer_seq_name_def consumer_registration_cursor_name_def)

lemma build_keeps_producer_name:
  assumes "build_consumer os missing et pid b st = Some (Inr c, st')"
    and "attach (bs_world st) (consumer_registration_cursor_name (smc_name (bd_config b))) = None"
    and "attach (bs_world st) (producer_seq_name (smc_name (bd_config b))) = Some hp"
  shows "attach (bs_world st') (producer_seq_name (smc_name (bd_config b))) = Some hp"
proof -
  let ?base = "smc_name (bd_config b)"
  obtain w1 counter w2 where o: "builder_consumer_id pid b (bs_world st, bs_counter st) = (cn_id c, w1, counter)"
    "new_or_attach w1 (sequence_name ?base (cn_id c)) (-1) = (cn_cursor c, w2)"
    "bs_world st' = signal_readiness c w2"
    using build_consumer_open [OF assms(1)] by (elim exE conjE) (rule that)
  have "w1 = bs_world st"
    using o(1) assms(2)
    by (auto simp: builder_consumer_id_def default_consumer_id_def allocate_registered_consumer_id_def
        split: option.splits)
  moreover have "attach w2 (producer_seq_name ?base) = Some hp"
  proof (cases "producer_seq_name ?base = sequence_name ?base (cn_id c)")
    case True
    then have "w_names (bs_world st) (sequence_name ?base (cn_id c)) \<noteq> None"
      using assms(3) by (auto simp: attach_def)
    then show ?thesis
      using o(2) True assms(3) \<open>w1 = bs_world st\<close>
      by (auto simp: new_or_attach_def create_def split: option.splits)
  next
    case False
    then show ?thesis using new_or_attach_names [OF o(2) False] assms(3) \<open>w1 = bs_world st\<close> by simp
  qed
  ultimately show ?thesis using o(3) by simp
qed

theorem legacy_ids_share_cursor_witness:
  "\<exists>s1 c st1 c' st2.
     build_consumer table_os SegmentNotFound tiny_element 2345 (attach_shared_consumer tiny_element ''ring'' 4)
       \<lparr> bs_os = s1, bs_world = plain_world, bs_counter = 0 \<rparr> = Some (Inr c, st1)
     \<and> build_consumer table_os SegmentNotFound tiny_element 12345 (attach_shared_consumer tiny_element ''ring'' 4)
         (st1\<lparr>bs_counter := 0\<rparr>) = Some (Inr c', st2)
     \<and> cn_cursor c' = cn_cursor c"
proof -
  let ?b = "attach_shared_consumer tiny_element ''ring'' 4"
  obtain s1 r where r: "ring_attach table_os s1 tiny_element (bd_config ?b) = Some (Inr r)"
    using tiny_attach by (auto simp: attach_builder tiny_builder_simps)
  have name: "smc_name (bd_config ?b) = ''ring''" and none: "bd_consumer_id ?b = None"
    by (simp_all add: attach_builder)
  have id: "fst (builder_consumer_id pid ?b (w, n)) \<noteq> []" for pid w n
    by (simp add: builder_consumer_id_def none default_consumer_id_def legacy_consumer_id_def
        allocate_registered_consumer_id_def fetch_add_def auto_consumer_id_def split: option.split)
  let ?st = "\<lparr> bs_os = s1, bs_world = plain_world, bs_counter = 0 \<rparr>"
  have "\<exists>c st'. build_consumer table_os SegmentNotFound tiny_element 2345 ?b ?st = Some (Inr c, st')
      \<and> bs_os st' = bs_os ?st"
    by (rule build_consumer_total) (simp_all add: r name id)
  then obtain c st1 where c: "build_consumer table_os SegmentNotFound tiny_element 2345 ?b ?st = Some (Inr c, st1)"
    "bs_os st1 = s1" by auto
  have kept: "attach (bs_world st1) (producer_seq_name ''ring'') = Some (''ring_producer_seq'', 0)"
    using build_keeps_producer_name [OF c(1)] by (simp add: name)
  have "\<exists>c' st'. build_consumer table_os SegmentNotFound tiny_element 12345 ?b (st1\<lparr>bs_counter := 0\<rparr>)
      = Some (Inr c', st') \<and> bs_os st' = bs_os (st1\<lparr>bs_counter := 0\<rparr>)"
    by (rule build_consumer_total) (simp_all add: r name id c(2) kept)
  then obtain c' st2 where c': "build_consumer table_os SegmentNotFound tiny_element 12345 ?b
      (st1\<lparr>bs_counter := bs_counter ?st\<rparr>) = Some (Inr c', st2)" by auto
  have "cn_id c' = cn_id c \<and> cn_cursor c' = cn_cursor c"
    by (rule legacy_ids_share_cursor [OF _ none _ c(1) c']) (simp_all add: name)
  then have same: "cn_cursor c' = cn_cursor c" ..
  have "bs_counter ?st = 0" by simp
  from c' [unfolded this] show ?thesis using c(1) same by (intro exI conjI)
qed

text \<open>A reserved id. A consumer with the custom id \<open>producer\<close> gets the producer's own cursor as its own:
  consuming one of several published events moves the producer's cursor back.\<close>

theorem producer_id_rewinds_cursor:
  assumes "bd_consumer_id b = Some ''producer''" "build_consumer os missing et pid b st = Some (Inr c, st1)"
  shows "cn_cursor c = cn_producer c
     \<and> (\<forall>(sh :: 'e shared) q e c' sh'. try_consume_next c sh = Some (Some (q, e), c', sh')
          \<longrightarrow> load (sh_world sh') (cn_producer c) = q)"
proof -
  let ?base = "smc_name (bd_config b)"
  have id: "builder_consumer_id pid b s = (''producer'', s)" for s
    using assms(1) by (simp add: builder_consumer_id_def)
  obtain w2 where c: "attach (bs_world st) (producer_seq_name ?base) = Some (cn_producer c)"
    "cn_id c = ''producer''"
    "new_or_attach (bs_world st) (sequence_name ?base (cn_id c)) (-1) = (cn_cursor c, w2)"
    using build_consumer_open [OF assms(2)] id by auto
  have "sequence_name ?base (cn_id c) = producer_seq_name ?base"
    using c(2) sequence_name_producer by simp
  moreover have "w_names (bs_world st) (producer_seq_name ?base) \<noteq> None"
    using c(1) by (auto simp: attach_def)
  ultimately have same: "cn_cursor c = cn_producer c"
    using c(1,3) by (auto simp: new_or_attach_def create_def)
  have "load (sh_world sh') (cn_producer c) = q"
    if "try_consume_next c sh = Some (Some (q, e), c', sh')" for q :: int and e c' and sh sh' :: "'e shared"
    using that same
    by (auto simp: try_consume_next_def publish_consumed_sequence_def shared_store_def
        split: option.splits)
  then show ?thesis using same by blast
qed

theorem producer_id_rewinds_cursor_witness:
  "\<exists>s1 c st1. build_consumer table_os SegmentNotFound tiny_element 7
       (with_consumer_id ''producer'' (attach_shared_consumer tiny_element ''ring'' 4))
       \<lparr> bs_os = s1, bs_world = plain_world, bs_counter = 0 \<rparr> = Some (Inr c, st1)
     \<and> cn_cursor c = cn_producer c"
proof -
  let ?b = "with_consumer_id ''producer'' (attach_shared_consumer tiny_element ''ring'' 4)"
  have b: "bd_config ?b = tiny_config\<lparr>smc_create := False\<rparr>" "bd_consumer_id ?b = Some ''producer''"
    by (simp_all add: with_consumer_id_def attach_builder tiny_builder_simps)
  obtain s1 r where r: "ring_attach table_os s1 tiny_element (bd_config ?b) = Some (Inr r)"
    using tiny_attach by (auto simp: b)
  have name: "smc_name (bd_config ?b) = ''ring''" by (simp add: b tiny_config_def)
  let ?st = "\<lparr> bs_os = s1, bs_world = plain_world, bs_counter = 0 \<rparr>"
  have "\<exists>c st'. build_consumer table_os SegmentNotFound tiny_element 7 ?b ?st = Some (Inr c, st')
      \<and> bs_os st' = bs_os ?st"
    by (rule build_consumer_total) (simp_all add: r name, simp add: builder_consumer_id_def b(2))
  then obtain c st1 where c: "build_consumer table_os SegmentNotFound tiny_element 7 ?b ?st = Some (Inr c, st1)"
    by auto
  then show ?thesis using conjunct1 [OF producer_id_rewinds_cursor [OF b(2) c]] by (intro exI conjI)
qed

end
