(* ===== verification/Inference.thy ===== *)
theory Inference
  imports Builder
begin

text \<open>
  The fixed topology of an inference deployment (\<open>myelon/src/inference.rs\<close>): one scheduler and
  two to eight workers over one shared-memory ring. The scheduler looks for its workers under a
  prefix, and the workers attach with ids derived from it; both sides are the builders of the
  shared backend.
\<close>

datatype worker_count = Two | Three | Four | Five | Six | Seven | Eight

definition as_usize :: "worker_count \<Rightarrow> nat" where
  "as_usize c =
     (case c of Two \<Rightarrow> 2 | Three \<Rightarrow> 3 | Four \<Rightarrow> 4 | Five \<Rightarrow> 5 | Six \<Rightarrow> 6 | Seven \<Rightarrow> 7 | Eight \<Rightarrow> 8)"

definition from_usize :: "nat \<Rightarrow> worker_count option" where
  "from_usize n =
     (if n = 2 then Some Two else if n = 3 then Some Three else if n = 4 then Some Four
      else if n = 5 then Some Five else if n = 6 then Some Six else if n = 7 then Some Seven
      else if n = 8 then Some Eight else None)"

datatype topology_error = InvalidWorkerIndex nat nat | TopologyMultiProcess mp_error

definition topology_error_text :: "topology_error \<Rightarrow> string" where
  "topology_error_text e =
     (case e of
        InvalidWorkerIndex i n \<Rightarrow>
          ''worker index '' @ show_nat i @ '' is out of range for fixed topology with '' @ show_nat n @ '' workers''
      | TopologyMultiProcess err \<Rightarrow> mp_error_text err)"

definition topology_error_source :: "topology_error \<Rightarrow> mp_error option" where
  "topology_error_source e =
     (case e of InvalidWorkerIndex _ _ \<Rightarrow> None | TopologyMultiProcess err \<Rightarrow> Some err)"

definition topology_error_from :: "mp_error \<Rightarrow> topology_error" where
  "topology_error_from e = TopologyMultiProcess e"

record fixed_topology =
  ft_segment_name :: string
  ft_buffer_size :: nat
  ft_worker_count :: worker_count
  ft_coordination_timeout :: nat

definition DEFAULT_COORDINATION_TIMEOUT :: nat where
  "DEFAULT_COORDINATION_TIMEOUT = from_secs 15"

definition topology_new :: "string \<Rightarrow> nat \<Rightarrow> worker_count \<Rightarrow> fixed_topology" where
  "topology_new segment_name buffer_size worker_count =
     \<lparr> ft_segment_name = segment_name, ft_buffer_size = buffer_size, ft_worker_count = worker_count,
       ft_coordination_timeout = DEFAULT_COORDINATION_TIMEOUT \<rparr>"

definition worker_indices :: "fixed_topology \<Rightarrow> nat list" where
  "worker_indices t = [0..<as_usize (ft_worker_count t)]"

definition topology_with_coordination_timeout :: "nat \<Rightarrow> fixed_topology \<Rightarrow> fixed_topology" where
  "topology_with_coordination_timeout timeout t = t\<lparr>ft_coordination_timeout := timeout\<rparr>"

definition worker_prefix :: "fixed_topology \<Rightarrow> string" where
  "worker_prefix t = ft_segment_name t @ ''_wk''"

definition validate_worker_index :: "nat \<Rightarrow> fixed_topology \<Rightarrow> topology_error + unit" where
  "validate_worker_index worker_index t =
     (let worker_count = as_usize (ft_worker_count t) in
      if worker_index < worker_count then Inr () else Inl (InvalidWorkerIndex worker_index worker_count))"

definition worker_consumer_id :: "nat \<Rightarrow> fixed_topology \<Rightarrow> topology_error + string" where
  "worker_consumer_id worker_index t =
     map_sum id (\<lambda>_. worker_prefix t @ ''_'' @ show_nat worker_index) (validate_worker_index worker_index t)"

text \<open>\<open>None\<close> is a panic of the setters, which no topology reaches.\<close>

definition scheduler_builder :: "sleep_config \<Rightarrow> element_type \<Rightarrow> fixed_topology \<Rightarrow> builder option" where
  "scheduler_builder cfg et t =
     (let worker_count = as_usize (ft_worker_count t) in
      Option.bind
        (discover_consumer_with_prefix cfg worker_count (worker_prefix t)
           (build_shared_single_producer et (ft_segment_name t) (ft_buffer_size t)))
        (builder_wait_for_consumers (int worker_count) (ft_coordination_timeout t)))"

definition build_scheduler ::
  "'s shm_os \<Rightarrow> (string \<Rightarrow> mp_error) \<Rightarrow> sleep_config \<Rightarrow> element_type \<Rightarrow> nat \<Rightarrow> nat \<Rightarrow> fixed_topology
    \<Rightarrow> (nat \<Rightarrow> u8 list) \<Rightarrow> counters_file \<Rightarrow> 's build_state \<Rightarrow> observation list
    \<Rightarrow> ((topology_error + producer) \<times> 's build_state) outcome" where
  "build_scheduler os taken cfg et pid now t factory counters st obs =
     (case scheduler_builder cfg et t of
        None \<Rightarrow> Panics
      | Some b \<Rightarrow>
          bind_outcome (build_producer os taken et pid now b factory counters st obs)
            (\<lambda>(r, st1). Returns (map_sum topology_error_from id r, st1)))"

definition worker_builder :: "element_type \<Rightarrow> nat \<Rightarrow> fixed_topology \<Rightarrow> topology_error + builder" where
  "worker_builder et worker_index t =
     map_sum id (\<lambda>consumer. with_consumer_id consumer
                     (attach_shared_consumer et (ft_segment_name t) (ft_buffer_size t)))
       (worker_consumer_id worker_index t)"

definition attach_worker ::
  "'s shm_os \<Rightarrow> (string \<Rightarrow> mp_error) \<Rightarrow> element_type \<Rightarrow> nat \<Rightarrow> nat \<Rightarrow> fixed_topology \<Rightarrow> 's build_state
    \<Rightarrow> ((topology_error + consumer) \<times> 's build_state) option" where
  "attach_worker os missing et pid worker_index t st =
     (case worker_builder et worker_index t of
        Inl e \<Rightarrow> Some (Inl e, st)
      | Inr b \<Rightarrow>
          map_option (\<lambda>(r, st1). (map_sum topology_error_from id r, st1)) (build_consumer os missing et pid b st))"

section \<open>Scheduler and workers fit\<close>

lemma worker_count_range: "as_usize c \<in> {2..8}" "from_usize (as_usize c) = Some c"
  by (cases c; simp add: as_usize_def from_usize_def)+

lemma from_usize_inverse: "from_usize n = Some c \<longleftrightarrow> n = as_usize c"
  by (cases c) (auto simp: as_usize_def from_usize_def)

text \<open>C40. Scheduler and workers fit. For every topology the scheduler can be built; it waits for
  exactly its workers within the configured time, and the ids its discovery looks for are, in
  order, those the workers attach with, all distinct. An index beyond the workers is answered by
  an error that names it, with no change to the shared state.\<close>

theorem topology_fits:
  "(let n = as_usize (ft_worker_count t) in
     (case scheduler_builder cfg et t of
        None \<Rightarrow> False
      | Some b \<Rightarrow>
          bd_discovery_mode b = Some (Enabled n (Some (worker_prefix t)) (discovery_poll_duration cfg))
          \<and> effective_coordination b (the (bd_discovery_mode b))
              = Some (WaitForConsumers (int n) (ft_coordination_timeout t))
          \<and> smc_name (bd_config b) = ft_segment_name t \<and> smc_create (bd_config b))
     \<and> map (\<lambda>i. map_sum id bd_consumer_id (worker_builder et i t)) (worker_indices t)
         = map (\<lambda>name. Inr (Some name)) (prefix_names (worker_prefix t) n)
     \<and> distinct (prefix_names (worker_prefix t) n)
     \<and> attach_worker os missing et pid (n + k) t st = Some (Inl (InvalidWorkerIndex (n + k) n), st))"
proof -
  define n where "n = as_usize (ft_worker_count t)"
  have n: "0 < n" using worker_count_range(1) [of "ft_worker_count t"] by (simp add: n_def)
  have ids: "map_sum id bd_consumer_id (worker_builder et i t) = Inr (Some (worker_prefix t @ ''_'' @ show_nat i))"
    if "i < n" for i
    using that by (simp add: worker_builder_def worker_consumer_id_def validate_worker_index_def n_def
        with_consumer_id_def Let_def)
  then have "map (\<lambda>i. map_sum id bd_consumer_id (worker_builder et i t)) (worker_indices t)
      = map (\<lambda>name. Inr (Some name)) (prefix_names (worker_prefix t) n)"
    by (simp add: worker_indices_def prefix_names_def n_def)
  moreover have "distinct (prefix_names (worker_prefix t) n)"
    by (auto simp: prefix_names_def distinct_map inj_on_def)
  moreover have "attach_worker os missing et pid (n + k) t st = Some (Inl (InvalidWorkerIndex (n + k) n), st)"
    by (simp add: attach_worker_def worker_builder_def worker_consumer_id_def validate_worker_index_def n_def Let_def)
  ultimately show ?thesis
    using n unfolding Let_def n_def [symmetric]
    by (simp add: scheduler_builder_def n_def [symmetric] Let_def discover_consumer_with_prefix_def
        discovery_with_consumer_prefix_def builder_wait_for_consumers_def wait_for_consumers_def
        with_discovery_def with_coordination_def effective_coordination_def build_shared_single_producer_def
        builder_new_def)
qed

end
