(* ===== verification/DstContract.thy ===== *)
theory DstContract
  imports Config
begin

unbundle bit_operations_syntax

text \<open>
  The deterministic-simulation contract (\<open>disruptor-mp/src/dst/contract.rs\<close>): the seeded
  generator, the start-up schedule and the fault plan drawn from it, recorded traces and their
  exact comparison, and the catalogue of failure classes. Step numbers, delays and indices are
  natural numbers, since none of them comes near the width of its type; the generator works on
  64-bit words. JSON and \<open>Debug\<close> texts belong to other crates and are not modelled.
\<close>

section \<open>Roles, actions and steps\<close>

datatype dst_role = DstProducer | DstConsumer nat | DstOrchestrator

definition dst_role_text :: "dst_role \<Rightarrow> string" where
  "dst_role_text r =
     (case r of
        DstProducer \<Rightarrow> ''Producer''
      | DstConsumer i \<Rightarrow> ''Consumer('' @ show_nat i @ '')''
      | DstOrchestrator \<Rightarrow> ''Orchestrator'')"

datatype scheduler_action =
  ActSpawn | ActSleepMs nat | ActAttach | ActStart | ActPublishBatch nat | ActConsumeBatch nat
| ActKill | ActRestart | ActShutdown

datatype trace_status = Planned | Success | Retry | Failed string

record scheduled_step =
  ss_step :: nat
  ss_action :: scheduler_action
  ss_role :: dst_role
  ss_attempt :: nat
  ss_plan_id :: string
  ss_profile :: string

section \<open>The generator\<close>

text \<open>\<open>XorShift64\<close>: the value drawn is the new state.\<close>

definition xorshift_new :: "u64 \<Rightarrow> u64" where
  "xorshift_new seed = (if seed = 0 then 0x9E3779B185EBCA87 else seed)"

definition next_u64 :: "u64 \<Rightarrow> u64" where
  "next_u64 s =
     (let x1 = s XOR push_bit 7 s; x2 = x1 XOR drop_bit 9 x1 in x2 XOR push_bit 8 x2)"

definition next_u32 :: "u32 \<Rightarrow> u64 \<Rightarrow> u32 \<times> u64" where
  "next_u32 max_exclusive s =
     (if max_exclusive = 0 then (0, s)
      else let s1 = next_u64 s in (ucast (s1 mod ucast max_exclusive), s1))"

section \<open>The start-up schedule\<close>

record startup_schedule =
  su_plan_id :: string
  su_seed :: u64
  su_step_cap :: nat
  su_steps :: "scheduled_step list"

text \<open>\<open>steps.push(..); step += 1\<close>.\<close>

definition push_step ::
  "string \<Rightarrow> string \<Rightarrow> scheduler_action \<Rightarrow> dst_role \<Rightarrow> nat \<times> scheduled_step list \<Rightarrow> nat \<times> scheduled_step list" where
  "push_step plan profile action role = (\<lambda>(step, steps).
     (step + 1, steps @ [\<lparr> ss_step = step, ss_action = action, ss_role = role, ss_attempt = 0,
                            ss_plan_id = plan, ss_profile = profile \<rparr>]))"

fun spawn_consumers ::
  "string \<Rightarrow> string \<Rightarrow> nat list \<Rightarrow> u64 \<Rightarrow> nat \<times> scheduled_step list \<Rightarrow> u64 \<times> nat \<times> scheduled_step list" where
  "spawn_consumers plan profile [] rng st = (rng, st)"
| "spawn_consumers plan profile (i # indices) rng st =
     (let st1 = push_step plan profile ActSpawn (DstConsumer i) st in
      case next_u32 4 rng of
        (delay, rng1) \<Rightarrow>
          spawn_consumers plan profile indices rng1
            (if 0 < delay then push_step plan profile (ActSleepMs (25 * unat delay)) DstOrchestrator st1 else st1))"

text \<open>\<open>while step < max_steps\<close>.\<close>

function pad_steps ::
  "string \<Rightarrow> string \<Rightarrow> nat \<Rightarrow> nat \<times> scheduled_step list \<Rightarrow> nat \<times> scheduled_step list" where
  "pad_steps plan profile max_steps st =
     (if fst st < max_steps
      then pad_steps plan profile max_steps (push_step plan profile (ActSleepMs 10) DstOrchestrator st)
      else st)"
  by auto
termination
  by (relation "measure (\<lambda>(_, _, max_steps, st). max_steps - fst st)") (auto simp: push_step_def split_beta)

declare pad_steps.simps [simp del]

definition schedule_from_seed :: "string \<Rightarrow> u64 \<Rightarrow> nat \<Rightarrow> nat \<Rightarrow> startup_schedule" where
  "schedule_from_seed plan seed consumers max_steps =
     (case next_u32 2 (xorshift_new seed) of
        (first, rng) \<Rightarrow>
          let producer_first = (first = 0);
              profile = (if producer_first then ''producer_first'' else ''consumer_first'');
              spawn_producer = push_step plan profile ActSpawn DstProducer;
              st0 = (if producer_first then spawn_producer (0, []) else (0, [])) in
          case spawn_consumers plan profile [0..<consumers] rng st0 of
            (_, st1) \<Rightarrow>
              let st2 = (if producer_first then st1 else spawn_producer st1);
                  st3 = pad_steps plan profile max_steps st2 in
              \<lparr> su_plan_id = plan, su_seed = seed, su_step_cap = max_steps, su_steps = snd st3 \<rparr>)"

definition schedule_is_deterministic :: "startup_schedule \<Rightarrow> bool" where
  "schedule_is_deterministic s \<longleftrightarrow> su_steps s \<noteq> []"

section \<open>The fault plan\<close>

datatype failure_kind =
  DelayAttachMs nat | KillProcess | RestartProcess | DropConsumerAttach nat | Noop

record failure_step =
  fs_step :: nat
  fs_role :: dst_role
  fs_kind :: failure_kind

record fault_injector =
  fi_seed :: u64
  fi_max_steps :: u64
  fi_inject_at :: "failure_step list"

text \<open>One turn of the loop: the draws in the order the code makes them. \<open>max_steps as u32\<close>
  keeps the low 32 bits.\<close>

definition draw_failure :: "u32 \<Rightarrow> u64 \<Rightarrow> u64 \<Rightarrow> failure_step \<times> u64" where
  "draw_failure consumers max_steps rng =
     (case next_u32 (ucast max_steps) rng of (step, rng1) \<Rightarrow>
      case (if consumers = 0 then (DstProducer, rng1)
            else case next_u32 2 rng1 of (coin, rng2) \<Rightarrow>
              if coin = 0 then (DstProducer, rng2)
              else case next_u32 (max consumers 1) rng2 of (i, rng3) \<Rightarrow> (DstConsumer (unat i), rng3)) of
        (role, rng4) \<Rightarrow>
          (case next_u32 4 rng4 of (k, rng5) \<Rightarrow>
             if k = 0 then
               (case next_u32 4 rng5 of (d, rng6) \<Rightarrow>
                  (\<lparr> fs_step = unat step, fs_role = role, fs_kind = DelayAttachMs (25 * unat (d + 1)) \<rparr>, rng6))
             else
               (\<lparr> fs_step = unat step, fs_role = role,
                   fs_kind = (if k = 1 then KillProcess else if k = 2 then RestartProcess else Noop) \<rparr>, rng5)))"

fun draw_failures :: "nat \<Rightarrow> u32 \<Rightarrow> u64 \<Rightarrow> u64 \<Rightarrow> failure_step list" where
  "draw_failures 0 consumers max_steps rng = []"
| "draw_failures (Suc n) consumers max_steps rng =
     (case draw_failure consumers max_steps rng of
        (f, rng1) \<Rightarrow> f # draw_failures n consumers max_steps rng1)"

definition injector_from_seed :: "u64 \<Rightarrow> u32 \<Rightarrow> u64 \<Rightarrow> fault_injector" where
  "injector_from_seed seed consumers max_steps =
     (case next_u32 3 (xorshift_new (seed XOR 0xA5A55A5A77AA11EE)) of
        (injector_count, rng) \<Rightarrow>
          \<lparr> fi_seed = seed, fi_max_steps = max_steps,
            fi_inject_at = sort_key fs_step (draw_failures (unat injector_count) consumers max_steps rng) \<rparr>)"

definition at_step :: "nat \<Rightarrow> fault_injector \<Rightarrow> failure_step list" where
  "at_step step f = filter (\<lambda>event. fs_step event = step) (fi_inject_at f)"

section \<open>Traces\<close>

record trace_event =
  te_step :: nat
  te_role :: dst_role
  te_action :: scheduler_action
  te_status :: trace_status
  te_attempt :: nat
  te_resource :: string
  te_metadata :: "string \<rightharpoonup> string"

record trace_artifact =
  ta_run_id :: string
  ta_profile_id :: string
  ta_seed :: u64
  ta_events :: "trace_event list"

definition trace_new :: "string \<Rightarrow> string \<Rightarrow> u64 \<Rightarrow> trace_artifact" where
  "trace_new run_id profile_id seed =
     \<lparr> ta_run_id = run_id, ta_profile_id = profile_id, ta_seed = seed, ta_events = [] \<rparr>"

definition trace_push ::
  "dst_role \<Rightarrow> scheduler_action \<Rightarrow> trace_status \<Rightarrow> string \<Rightarrow> trace_artifact \<Rightarrow> trace_artifact" where
  "trace_push role action status resource t =
     t\<lparr>ta_events := ta_events t @
        [\<lparr> te_step = length (ta_events t), te_role = role, te_action = action, te_status = status,
            te_attempt = 0, te_resource = resource, te_metadata = Map.empty \<rparr>]\<rparr>"

definition set_metadata :: "string \<Rightarrow> string \<Rightarrow> trace_artifact \<Rightarrow> trace_artifact" where
  "set_metadata key value t =
     (if ta_events t = [] then t
      else t\<lparr>ta_events := butlast (ta_events t)
               @ [(List.last (ta_events t))\<lparr>te_metadata := (te_metadata (List.last (ta_events t)))(key \<mapsto> value)\<rparr>]\<rparr>)"

section \<open>Replay\<close>

datatype replay_mismatch =
  RunIdentity "string \<times> u64" "string \<times> u64"
| EventCount nat nat
| EventContent nat trace_event trace_event

fun first_difference :: "nat \<Rightarrow> trace_event list \<Rightarrow> trace_event list \<Rightarrow> (nat \<times> trace_event \<times> trace_event) option" where
  "first_difference i (e # es) (a # as) = (if e \<noteq> a then Some (i, e, a) else first_difference (i + 1) es as)"
| "first_difference i _ _ = None"

definition replay_validate :: "trace_artifact \<Rightarrow> trace_artifact \<Rightarrow> replay_mismatch + unit" where
  "replay_validate expected actual =
     (if (ta_run_id expected, ta_seed expected) \<noteq> (ta_run_id actual, ta_seed actual) then
        Inl (RunIdentity (ta_run_id expected, ta_seed expected) (ta_run_id actual, ta_seed actual))
      else if length (ta_events expected) \<noteq> length (ta_events actual) then
        Inl (EventCount (length (ta_events expected)) (length (ta_events actual)))
      else
        (case first_difference 0 (ta_events expected) (ta_events actual) of
           Some (i, e, a) \<Rightarrow> Inl (EventContent i e a)
         | None \<Rightarrow> Inr ()))"

section \<open>Failure classes\<close>

datatype failure_class =
  ProducerBeforeConsumers | LateConsumerAttach | CreateAttachChurn | ProducerCrashAndRestart
| ConsumerCrashAndRestart | DiscoveryVisibilityLag | ReadinessGateViolation

definition failure_class_all :: "failure_class list" where
  "failure_class_all =
     [ProducerBeforeConsumers, LateConsumerAttach, CreateAttachChurn, ProducerCrashAndRestart,
      ConsumerCrashAndRestart, DiscoveryVisibilityLag, ReadinessGateViolation]"

definition preconditions :: "failure_class \<Rightarrow> string list" where
  "preconditions c =
     (case c of
        ProducerBeforeConsumers \<Rightarrow>
          [''Producer path accepts explicit startup order.'', ''Segment is not yet attached by consumer.'']
      | LateConsumerAttach \<Rightarrow>
          [''Shared segment is already active.'', ''Consumer retry loop is enabled.'']
      | CreateAttachChurn \<Rightarrow>
          [''Name churn includes repeated attach/create attempts.'', ''At least one attach/detach cycle exists.'']
      | ProducerCrashAndRestart \<Rightarrow>
          [''Crash point occurs after create and before all producers are done.'',
           ''Recovery path allows stale-segment handling.'']
      | ConsumerCrashAndRestart \<Rightarrow>
          [''Consumer lifecycle allows detach/reattach.'', ''Producer remains valid after consumer restart.'']
      | DiscoveryVisibilityLag \<Rightarrow>
          [''Shared visibility is explicitly delayed by the harness.'',
           ''Reader observes metadata after bounded delay.'']
      | ReadinessGateViolation \<Rightarrow>
          [''Producer is configured with wait-for-consumers contract.'',
           ''Consumer readiness state is persisted in shared memory.''])"

definition postconditions :: "failure_class \<Rightarrow> string list" where
  "postconditions c =
     (case c of
        ProducerBeforeConsumers \<Rightarrow>
          [''No silent segment overwrite occurs before attach.'',
           ''Producer eventually converges once consumer readiness is observed.'']
      | LateConsumerAttach \<Rightarrow>
          [''Consumer attaches to exact latest producer state.'',
           ''Startup race is reproducible with bounded timeout.'']
      | CreateAttachChurn \<Rightarrow>
          [''Each owner handles cleanup deterministically.'',
           ''Attach failures are explicit and never silently downgrade invariants.'']
      | ProducerCrashAndRestart \<Rightarrow>
          [''Restarted producer resumes from known ownership policy.'',
           ''No duplicate segment is created while stale owner exists.'']
      | ConsumerCrashAndRestart \<Rightarrow>
          [''Consumer cursor recovery is monotonic and non-decreasing.'',
           ''Producer gating remains bounded after restart.'']
      | DiscoveryVisibilityLag \<Rightarrow>
          [''Visibility transitions are logged and replayable.'',
           ''Delayed metadata never causes permanent readiness deadlock.'']
      | ReadinessGateViolation \<Rightarrow>
          [''Publisher blocks until minimum readiness threshold is met.'',
           ''Producer eventually transitions to ready state or deterministic timeout.''])"

record lifecycle_assertion =
  la_name :: string
  la_description :: string

definition lifecycle_assertions :: "lifecycle_assertion list" where
  "lifecycle_assertions =
     [\<lparr> la_name = ''shared_segment_ownership'',
        la_description = ''Exactly one live owner process may create a segment; attachors read existing state.'' \<rparr>,
      \<lparr> la_name = ''cursor_owner_consistency'',
        la_description = ''Owner and attach cursors observe the same underlying shared cursor state.'' \<rparr>,
      \<lparr> la_name = ''discovery_state_transition'',
        la_description = ''Discovery counter and role readiness transitions are monotonic and shared-memory visible.'' \<rparr>,
      \<lparr> la_name = ''producer_consumer_sequence_monotonicity'',
        la_description = ''Producer and consumer sequences are monotonic and never regress across process restarts.'' \<rparr>,
      \<lparr> la_name = ''graceful_recovery_timeout'',
        la_description = ''Timeout and restart states are bounded; no silent infinite wait on lifecycle errors.'' \<rparr>]"

section \<open>The generator never gets stuck\<close>

lemma bits_push_zero:
  fixes d :: u64
  assumes "d = push_bit n d" "0 < n"
  shows "d = 0"
proof -
  have "\<not> bit d i" for i
  proof (induction i rule: less_induct)
    case (less i)
    show ?case
    proof
      assume "bit d i"
      then have "bit (push_bit n d) i" using assms(1) by simp
      then have "n \<le> i" "bit d (i - n)" by (simp_all add: bit_push_bit_iff)
      then show False using less.IH [of "i - n"] assms(2) by simp
    qed
  qed
  then show ?thesis by (intro bit_eqI) simp
qed

lemma bits_drop_zero:
  fixes d :: u64
  assumes "d = drop_bit n d" "0 < n"
  shows "d = 0"
proof -
  have up: "bit d i \<Longrightarrow> bit d (i + k * n)" for i k
  proof (induction k)
    case (Suc k)
    then have "bit (drop_bit n d) (i + k * n)" using assms(1) by simp
    then show ?case by (simp add: bit_drop_bit_eq algebra_simps)
  qed simp
  have "\<not> bit d i" for i
  proof
    assume "bit d i"
    from up [OF this, of 64] have "bit d (i + 64 * n)" .
    then have "i + 64 * n < 64" by (auto dest: bit_imp_le_length)
    then show False using assms(2) by simp
  qed
  then show ?thesis by (intro bit_eqI) simp
qed

lemma xor_zero:
  fixes x y :: u64
  assumes "x XOR y = 0"
  shows "x = y"
proof -
  have "x = (x XOR y) XOR y" by (simp only: xor.assoc xor_self_eq xor.right_neutral)
  then show ?thesis by (simp only: assms xor.left_neutral)
qed

lemma xor_swap:
  fixes a b c d :: u64
  shows "(a XOR b) XOR (c XOR d) = (a XOR c) XOR (b XOR d)"
  by (rule bit_eqI) (auto simp: bit_xor_iff)

lemma xor_cancel:
  fixes s t :: u64
  assumes "s XOR f s = t XOR f t" "f (s XOR t) = f s XOR f t" "s XOR t = f (s XOR t) \<Longrightarrow> s XOR t = 0"
  shows "s = t"
proof -
  have "(s XOR t) XOR f (s XOR t) = (s XOR f s) XOR (t XOR f t)"
    unfolding assms(2) by (rule xor_swap)
  then have "(s XOR t) XOR f (s XOR t) = 0" by (simp only: assms(1) xor_self_eq)
  then have "s XOR t = f (s XOR t)" by (rule xor_zero)
  then show ?thesis using xor_zero [of s t] assms(3) by blast
qed

text \<open>The generator. Its step is a bijection of the 64-bit words that fixes zero, and its
  initial state is never zero; hence no draw ever leaves it in the absorbing state zero.\<close>

theorem rng_never_stuck:
  "inj next_u64 \<and> (next_u64 ^^ k) (xorshift_new seed) \<noteq> 0"
proof -
  have push: "push_bit n (x XOR y) = push_bit n x XOR push_bit n y" for n and x y :: u64
    by (simp add: push_bit_xor)
  have drop: "drop_bit n (x XOR y) = drop_bit n x XOR drop_bit n y" for n and x y :: u64
    by (simp add: drop_bit_xor)
  have inj: "inj next_u64"
  proof (rule injI)
    fix x y assume "next_u64 x = next_u64 y"
    then have "(x XOR push_bit 7 x) XOR drop_bit 9 (x XOR push_bit 7 x)
        = (y XOR push_bit 7 y) XOR drop_bit 9 (y XOR push_bit 7 y)"
      unfolding next_u64_def Let_def
      by (rule xor_cancel [where f = "push_bit 8"]) (rule push, erule bits_push_zero, simp)
    then have "x XOR push_bit 7 x = y XOR push_bit 7 y"
      by (rule xor_cancel [where f = "drop_bit 9"]) (rule drop, erule bits_drop_zero, simp)
    then show "x = y"
      by (rule xor_cancel [where f = "push_bit 7"]) (rule push, erule bits_push_zero, simp)
  qed
  have zero: "next_u64 0 = 0" by (simp add: next_u64_def)
  have "(next_u64 ^^ k) s \<noteq> 0" if "s \<noteq> 0" for s
    using that
  proof (induction k)
    case (Suc k)
    then show ?case using injD [OF inj, of "(next_u64 ^^ k) s" 0] zero by auto
  qed simp
  moreover have "xorshift_new seed \<noteq> 0" by (simp add: xorshift_new_def)
  ultimately show ?thesis using inj by simp
qed

section \<open>Shape of the schedules\<close>

lemma unat_ucast_u64: "unat (ucast (m :: u32) :: u64) = unat m"
proof -
  have "unat m < 2 ^ 32" using unsigned_less [of m] by simp
  then show ?thesis by (simp add: unsigned_ucast_eq unsigned_take_bit_eq take_bit_eq_mod)
qed

lemma unat_ucast_u32: "unat (ucast (m :: u64) :: u32) = unat m mod 2 ^ 32"
  by (simp add: unsigned_ucast_eq unsigned_take_bit_eq take_bit_eq_mod)

lemma next_u32_less:
  assumes "next_u32 m s = (v, s1)" "m \<noteq> 0"
  shows "unat v < unat m"
proof -
  have "unat (next_u64 s mod ucast m) < unat m"
    using assms(2) by (simp add: unat_mod_distrib unat_ucast_u64 unat_gt_0)
  moreover have "v = ucast (next_u64 s mod ucast m)" using assms by (auto simp: next_u32_def Let_def)
  moreover have "unat m < 2 ^ 32" using unsigned_less [of m] by simp
  ultimately show ?thesis by (simp add: unat_ucast_u32)
qed

definition counted :: "nat \<times> scheduled_step list \<Rightarrow> bool" where
  "counted st \<longleftrightarrow> fst st = length (snd st) \<and> map ss_step (snd st) = [0..<length (snd st)]"

definition spawned :: "scheduled_step list \<Rightarrow> dst_role list" where
  "spawned steps = map ss_role (filter (\<lambda>s. ss_action s = ActSpawn) steps)"

definition sleeps :: "scheduler_action list" where
  "sleeps = [ActSleepMs 10, ActSleepMs 25, ActSleepMs 50, ActSleepMs 75]"

definition planned_step :: "string \<Rightarrow> scheduled_step \<Rightarrow> bool" where
  "planned_step plan s \<longleftrightarrow> ss_plan_id s = plan
     \<and> (ss_action s = ActSpawn \<or> ss_action s \<in> set sleeps \<and> ss_role s = DstOrchestrator)"

lemma push_step_simps [simp]:
  "counted (push_step plan profile action role st) = counted st"
  "snd (push_step plan profile action role st) = snd st @
     [\<lparr> ss_step = fst st, ss_action = action, ss_role = role, ss_attempt = 0, ss_plan_id = plan, ss_profile = profile \<rparr>]"
  "fst (push_step plan profile action role st) = fst st + 1"
  by (auto simp: push_step_def split_beta counted_def)

lemma spawn_consumers_shape:
  assumes "spawn_consumers plan profile is rng st = (rng1, st1)"
    and "counted st" "list_all (planned_step plan) (snd st)"
  shows "counted st1" "list_all (planned_step plan) (snd st1)"
    and "spawned (snd st1) = spawned (snd st) @ map DstConsumer is"
    and "fst st + length is \<le> fst st1" "fst st1 \<le> fst st + 2 * length is"
proof -
  have "counted st1 \<and> list_all (planned_step plan) (snd st1)
      \<and> spawned (snd st1) = spawned (snd st) @ map DstConsumer is
      \<and> fst st + length is \<le> fst st1 \<and> fst st1 \<le> fst st + 2 * length is"
    using assms
  proof (induction "is" arbitrary: rng st)
    case (Cons i indices)
    obtain delay rng2 where delay: "next_u32 4 rng = (delay, rng2)" by fastforce
    have "unat delay < 4" using next_u32_less [OF delay] by simp
    then have "unat delay = 0 \<or> unat delay = 1 \<or> unat delay = 2 \<or> unat delay = 3" by linarith
    then have sleep: "0 < delay \<Longrightarrow> ActSleepMs (25 * unat delay) \<in> set sleeps"
      by (auto simp: sleeps_def word_gt_0_no unat_eq_zero)
    define st2 where "st2 = (let st1 = push_step plan profile ActSpawn (DstConsumer i) st in
        if 0 < delay then push_step plan profile (ActSleepMs (25 * unat delay)) DstOrchestrator st1 else st1)"
    have "spawn_consumers plan profile indices rng2 st2 = (rng1, st1)"
      using Cons.prems(1) by (simp add: delay st2_def Let_def)
    moreover have "counted st2" "list_all (planned_step plan) (snd st2)"
      "spawned (snd st2) = spawned (snd st) @ [DstConsumer i]" "fst st + 1 \<le> fst st2" "fst st2 \<le> fst st + 2"
      using Cons.prems(2,3) sleep by (simp_all add: st2_def Let_def list_all_iff planned_step_def spawned_def)
    ultimately show ?case using Cons.IH [of rng2 st2] by auto
  qed simp
  then show "counted st1" "list_all (planned_step plan) (snd st1)"
    "spawned (snd st1) = spawned (snd st) @ map DstConsumer is"
    "fst st + length is \<le> fst st1" "fst st1 \<le> fst st + 2 * length is" by simp_all
qed

lemma pad_steps_shape:
  assumes "counted st" "list_all (planned_step plan) (snd st)"
  shows "counted (pad_steps plan profile m st) \<and> list_all (planned_step plan) (snd (pad_steps plan profile m st))
    \<and> spawned (snd (pad_steps plan profile m st)) = spawned (snd st)
    \<and> fst (pad_steps plan profile m st) = max m (fst st)"
  using assms
proof (induction plan profile m st rule: pad_steps.induct)
  case (1 plan profile m st)
  show ?case
  proof (cases "fst st < m")
    case True
    have "list_all (planned_step plan) (snd (push_step plan profile (ActSleepMs 10) DstOrchestrator st))"
      using 1(3) by (simp add: list_all_iff planned_step_def sleeps_def)
    with 1(1) [OF True] 1(2) True show ?thesis
      by (simp add: pad_steps.simps [of plan profile m st] spawned_def)
  next
    case False
    then show ?thesis using 1(2,3) by (simp add: pad_steps.simps [of plan profile m st])
  qed
qed

text \<open>Start-up schedules. Whatever the seed, the steps of a schedule are numbered from zero
  without gaps; the producer is spawned exactly once, before or after all consumers, and every
  consumer exactly once, in the order of the indices; every other step is a sleep of the
  orchestrator of 10, 25, 50 or 75 milliseconds. There are at least \<open>max_steps\<close> steps, and more
  only when the spawns and their delays need them: \<open>step_cap\<close> is not an upper bound.\<close>

theorem schedule_spawns_once:
  "let s = schedule_from_seed plan seed consumers max_steps in
     map ss_step (su_steps s) = [0..<length (su_steps s)]
     \<and> list_all (planned_step plan) (su_steps s)
     \<and> spawned (su_steps s)
         \<in> {DstProducer # map DstConsumer [0..<consumers], map DstConsumer [0..<consumers] @ [DstProducer]}
     \<and> max max_steps (consumers + 1) \<le> length (su_steps s)
     \<and> length (su_steps s) \<le> max max_steps (2 * consumers + 1)"
proof -
  obtain first rng where draw: "next_u32 2 (xorshift_new seed) = (first, rng)" by fastforce
  define profile where "profile = (if first = 0 then ''producer_first'' else ''consumer_first'')"
  define st0 :: "nat \<times> scheduled_step list" where
    "st0 = (if first = 0 then push_step plan profile ActSpawn DstProducer (0, []) else (0, []))"
  have st0: "counted st0" "list_all (planned_step plan) (snd st0)"
    "spawned (snd st0) = (if first = 0 then [DstProducer] else [])" "fst st0 = (if first = 0 then 1 else 0)"
    unfolding st0_def by (simp_all add: push_step_def counted_def planned_step_def spawned_def)
  obtain rng1 st1 where spawn: "spawn_consumers plan profile [0..<consumers] rng st0 = (rng1, st1)" by (meson surj_pair)
  note shape = spawn_consumers_shape [OF spawn st0(1,2)]
  define st2 where "st2 = (if first = 0 then st1 else push_step plan profile ActSpawn DstProducer st1)"
  have st2: "counted st2" "list_all (planned_step plan) (snd st2)"
    "spawned (snd st2) = (if first = 0 then DstProducer # map DstConsumer [0..<consumers]
                          else map DstConsumer [0..<consumers] @ [DstProducer])"
    "consumers + 1 \<le> fst st2" "fst st2 \<le> 2 * consumers + 1"
    using shape st0(3,4)
    by (cases "first = 0"; simp add: st2_def planned_step_def spawned_def)+
  have steps: "su_steps (schedule_from_seed plan seed consumers max_steps) = snd (pad_steps plan profile max_steps st2)"
    using spawn
    by (cases "first = 0") (simp_all add: schedule_from_seed_def draw Let_def profile_def st0_def st2_def)
  note pad = pad_steps_shape [OF st2(1,2), of profile max_steps]
  from pad have "length (su_steps (schedule_from_seed plan seed consumers max_steps)) = max max_steps (fst st2)"
    by (simp add: steps counted_def)
  then show ?thesis using pad st2(3-5) unfolding Let_def by (auto simp: steps counted_def)
qed

section \<open>Fault plans\<close>

definition valid_failure :: "u32 \<Rightarrow> u64 \<Rightarrow> failure_step \<Rightarrow> bool" where
  "valid_failure consumers max_steps f \<longleftrightarrow>
     fs_step f < max 1 (unat max_steps)
     \<and> (case fs_role f of DstProducer \<Rightarrow> True | DstConsumer i \<Rightarrow> i < unat consumers | DstOrchestrator \<Rightarrow> False)
     \<and> fs_kind f \<in> set [DelayAttachMs 25, DelayAttachMs 50, DelayAttachMs 75, DelayAttachMs 100,
                      KillProcess, RestartProcess, Noop]"

lemma draw_delay:
  assumes "next_u32 4 rng = (d, rng1)"
  shows "25 * unat (d + 1) \<in> {25, 50, 75, 100}"
proof -
  have "unat d < 4" using next_u32_less [OF assms] by simp
  moreover from this have "unat (d + 1) = unat d + 1" by (simp add: unat_plus_if_size word_size)
  ultimately show ?thesis by auto
qed

lemma draw_step:
  assumes "next_u32 (ucast (m :: u64)) rng = (v, rng1)"
  shows "unat v < max 1 (unat m)"
proof (cases "(ucast m :: u32) = 0")
  case True
  then show ?thesis using assms by (auto simp: next_u32_def)
next
  case False
  have "unat (ucast m :: u32) \<le> unat m" by (simp add: unat_ucast_u32)
  then show ?thesis using next_u32_less [OF assms False] by simp
qed

text \<open>The draw of the role and of the kind, on their own.\<close>

definition drawn_role :: "u32 \<Rightarrow> u64 \<Rightarrow> dst_role \<times> u64" where
  "drawn_role consumers rng =
     (if consumers = 0 then (DstProducer, rng)
      else case next_u32 2 rng of (coin, rng2) \<Rightarrow>
        if coin = 0 then (DstProducer, rng2)
        else case next_u32 (max consumers 1) rng2 of (i, rng3) \<Rightarrow> (DstConsumer (unat i), rng3))"

lemma drawn_role_valid:
  assumes "drawn_role consumers rng = (role, rng1)"
  shows "case role of DstProducer \<Rightarrow> True | DstConsumer i \<Rightarrow> i < unat consumers | DstOrchestrator \<Rightarrow> False"
proof (cases "consumers = 0")
  case False
  then have "1 \<le> consumers" by (simp add: word_le_nat_alt unat_gt_0 Suc_le_eq)
  then have "max consumers 1 = consumers" by (rule max_absorb1)
  then show ?thesis using assms False
    by (auto simp: drawn_role_def split: prod.splits if_splits dest: next_u32_less)
qed (use assms in \<open>auto simp: drawn_role_def\<close>)

lemma draw_failure_valid:
  assumes "draw_failure consumers max_steps rng = (f, rng1)"
  shows "valid_failure consumers max_steps f"
proof -
  obtain step rng2 where step: "next_u32 (ucast max_steps) rng = (step, rng2)" by (meson surj_pair)
  obtain role rng4 where role: "drawn_role consumers rng2 = (role, rng4)" by (meson surj_pair)
  obtain k rng5 where k: "next_u32 4 rng4 = (k, rng5)" by (meson surj_pair)
  obtain d rng6 where d: "next_u32 4 rng5 = (d, rng6)" by (meson surj_pair)
  have "f = \<lparr> fs_step = unat step, fs_role = role,
      fs_kind = (if k = 0 then DelayAttachMs (25 * unat (d + 1)) else if k = 1 then KillProcess
                 else if k = 2 then RestartProcess else Noop) \<rparr>"
    using assms role [unfolded drawn_role_def]
    by (simp add: draw_failure_def step k d split: if_splits)
  then show ?thesis
    using draw_step [OF step] draw_delay [OF d] drawn_role_valid [OF role]
    by (simp add: valid_failure_def)
qed

lemma draw_failures_valid:
  "length (draw_failures n consumers max_steps rng) = n
   \<and> list_all (valid_failure consumers max_steps) (draw_failures n consumers max_steps rng)"
  by (induction n arbitrary: rng) (auto split: prod.splits dest: draw_failure_valid)

text \<open>Fault plans. A plan has at most two faults, ordered by their step; each strikes below
  the step limit (at step zero when the limit is zero), at the producer or at an existing
  consumer, with one of the four delays, a kill, a restart or no effect. \<open>at_step\<close> therefore
  returns nothing at any later step.\<close>

theorem fault_plan_in_range:
  "sorted (map fs_step (fi_inject_at (injector_from_seed seed consumers max_steps)))
   \<and> length (fi_inject_at (injector_from_seed seed consumers max_steps)) \<le> 2
   \<and> list_all (valid_failure consumers max_steps) (fi_inject_at (injector_from_seed seed consumers max_steps))
   \<and> at_step (max 1 (unat max_steps) + n) (injector_from_seed seed consumers max_steps) = []"
proof -
  obtain count rng where count: "next_u32 3 (xorshift_new (seed XOR 0xA5A55A5A77AA11EE)) = (count, rng)" by fastforce
  have "unat count < 3" using next_u32_less [OF count] by simp
  moreover define fs where "fs = fi_inject_at (injector_from_seed seed consumers max_steps)"
  moreover have eq: "fs = sort_key fs_step (draw_failures (unat count) consumers max_steps rng)"
    by (simp add: fs_def injector_from_seed_def count)
  moreover have valid: "list_all (valid_failure consumers max_steps) fs"
    using draw_failures_valid [of "unat count" consumers max_steps rng] by (simp add: eq list_all_iff)
  moreover have "filter (\<lambda>e. fs_step e = max 1 (unat max_steps) + n) fs = []"
    using valid by (auto simp: filter_empty_conv list_all_iff valid_failure_def)
  ultimately show ?thesis
    using draw_failures_valid [of "unat count" consumers max_steps rng]
    by (simp add: at_step_def fs_def [symmetric])
qed

section \<open>Replay is exact\<close>

lemma first_difference_cases:
  assumes "length es = length as"
  shows "case first_difference i es as of
      None \<Rightarrow> es = as
    | Some (j, e, a) \<Rightarrow> i \<le> j \<and> j - i < length es \<and> take (j - i) es = take (j - i) as
        \<and> es ! (j - i) = e \<and> as ! (j - i) = a \<and> e \<noteq> a"
  using assms
proof (induction es as arbitrary: i rule: list_induct2)
  case (Cons e es a as)
  show ?case
  proof (cases "e = a")
    case True
    then show ?thesis using Cons.IH [of "Suc i"]
      by (auto split: option.splits simp: Suc_diff_le take_Cons' nth_Cons' Suc_le_eq)
  qed simp
qed simp

text \<open>Replay validation. It accepts a trace exactly when run id, seed and all events agree
  with the expected ones (the profile id is never looked at); otherwise it names the identities,
  the two event counts, or the first event at which the traces differ, with everything before it
  equal.\<close>

theorem replay_validate_exact:
  "case replay_validate expected actual of
     Inr _ \<Rightarrow> actual = expected\<lparr>ta_profile_id := ta_profile_id actual\<rparr>
   | Inl (RunIdentity l r) \<Rightarrow> l \<noteq> r \<and> l = (ta_run_id expected, ta_seed expected) \<and> r = (ta_run_id actual, ta_seed actual)
   | Inl (EventCount m n) \<Rightarrow> m \<noteq> n \<and> m = length (ta_events expected) \<and> n = length (ta_events actual)
   | Inl (EventContent i e a) \<Rightarrow> i < length (ta_events expected) \<and> e \<noteq> a
       \<and> take i (ta_events expected) = take i (ta_events actual)
       \<and> ta_events expected ! i = e \<and> ta_events actual ! i = a"
proof (cases "(ta_run_id expected, ta_seed expected) = (ta_run_id actual, ta_seed actual)
    \<and> length (ta_events expected) = length (ta_events actual)")
  case True
  then show ?thesis using first_difference_cases [of "ta_events expected" "ta_events actual" 0]
    by (auto simp: replay_validate_def split: option.splits)
qed (auto simp: replay_validate_def)

end
