(* ===== verification/DstRuntime.thy ===== *)
theory DstRuntime
  imports DstContract
begin

text \<open>
  The in-memory runtime of the simulation harness (\<open>disruptor-mp/src/dst/runtime.rs\<close>): its
  life-cycle states, the commands that move between them, the timeline and the trace every
  accepted command is recorded in, and the virtual clock. The \<open>u64\<close> and \<open>u32\<close> counters saturate
  as in the code; the \<open>Debug\<close> text of an event is a parameter.
\<close>

section \<open>States, commands and errors\<close>

datatype dst_runtime_state = Initialized | Running | Paused | Crashed | Restarting | Completed

datatype dst_runtime_command =
  CmdStart | CmdPause | CmdResume | CmdCrash string | CmdRestart string | CmdStep | CmdReplay

datatype dst_runtime_error =
  InvalidTransition dst_runtime_state dst_runtime_command
| BudgetExceeded nat nat

record runtime_step_event =
  se_index :: nat
  se_command :: dst_runtime_command
  se_role :: dst_role
  se_action :: "scheduler_action option"
  se_virtual_time_ns :: nat
  se_attempt :: nat

record dst_runtime =
  rt_run_id :: string
  rt_profile_id :: string
  rt_seed :: u64
  rt_state :: dst_runtime_state
  rt_step :: nat
  rt_max_virtual_time_ns :: nat
  rt_virtual_time_ns :: nat
  rt_attempts :: nat
  rt_timeline :: "runtime_step_event list"
  rt_trace :: trace_artifact

definition sat64 :: "nat \<Rightarrow> nat" where
  "sat64 n = min n (2 ^ 64 - 1)"

definition sat32 :: "nat \<Rightarrow> nat" where
  "sat32 n = min n (2 ^ 32 - 1)"

definition runtime_new :: "string \<Rightarrow> string \<Rightarrow> u64 \<Rightarrow> nat \<Rightarrow> dst_runtime" where
  "runtime_new run_id profile_id seed max_virtual_time_ns =
     \<lparr> rt_run_id = run_id, rt_profile_id = profile_id, rt_seed = seed, rt_state = Initialized,
       rt_step = 0, rt_max_virtual_time_ns = max_virtual_time_ns, rt_virtual_time_ns = 0,
       rt_attempts = 0, rt_timeline = [], rt_trace = trace_new run_id profile_id seed \<rparr>"

section \<open>Recording\<close>

text \<open>A command without a scheduler action is traced as a spawn.\<close>

definition runtime_record ::
  "dst_runtime_command \<Rightarrow> dst_role \<Rightarrow> scheduler_action option \<Rightarrow> trace_status \<Rightarrow> dst_runtime \<Rightarrow> dst_runtime" where
  "runtime_record command role action status r =
     (let trace_action = (case action of Some a \<Rightarrow> a | None \<Rightarrow> ActSpawn);
          now = sat64 (rt_virtual_time_ns r + sat64 (sat64 (rt_step r + 1) * 1000)) in
      r\<lparr> rt_virtual_time_ns := now,
         rt_trace := trace_push role trace_action status (''idx='' @ show_nat (rt_step r)) (rt_trace r),
         rt_timeline := rt_timeline r @
           [\<lparr> se_index = rt_step r, se_command = command, se_role = role, se_action = action,
               se_virtual_time_ns = now, se_attempt = rt_attempts r \<rparr>],
         rt_step := sat64 (rt_step r + 1) \<rparr>)"

section \<open>Commands\<close>

type_synonym runtime_result = "(dst_runtime_error + unit) \<times> dst_runtime"

definition runtime_start :: "dst_runtime \<Rightarrow> runtime_result" where
  "runtime_start r =
     (if rt_state r \<noteq> Initialized \<and> rt_state r \<noteq> Restarting
      then (Inl (InvalidTransition (rt_state r) CmdStart), r)
      else (Inr (), runtime_record CmdStart DstOrchestrator None Success (r\<lparr>rt_state := Running\<rparr>)))"

definition runtime_pause :: "dst_runtime \<Rightarrow> runtime_result" where
  "runtime_pause r =
     (if rt_state r \<noteq> Running then (Inl (InvalidTransition (rt_state r) CmdPause), r)
      else (Inr (), runtime_record CmdPause DstOrchestrator None Success (r\<lparr>rt_state := Paused\<rparr>)))"

definition runtime_resume :: "dst_runtime \<Rightarrow> runtime_result" where
  "runtime_resume r =
     (if rt_state r \<noteq> Paused then (Inl (InvalidTransition (rt_state r) CmdResume), r)
      else (Inr (), runtime_record CmdResume DstOrchestrator None Success (r\<lparr>rt_state := Running\<rparr>)))"

definition runtime_crash :: "dst_role \<Rightarrow> string \<Rightarrow> dst_runtime \<Rightarrow> runtime_result" where
  "runtime_crash role reason r =
     (if rt_state r = Completed \<or> rt_state r = Initialized
      then (Inl (InvalidTransition (rt_state r) (CmdCrash reason)), r)
      else (Inr (), runtime_record (CmdCrash reason) role None (Failed reason) (r\<lparr>rt_state := Crashed\<rparr>)))"

definition runtime_restart :: "dst_role \<Rightarrow> string \<Rightarrow> dst_runtime \<Rightarrow> runtime_result" where
  "runtime_restart role reason r =
     (if rt_state r \<noteq> Crashed then (Inl (InvalidTransition (rt_state r) (CmdRestart reason)), r)
      else (Inr (), runtime_record (CmdRestart reason) role None Success (r\<lparr>rt_state := Restarting\<rparr>)))"

definition runtime_step :: "dst_role \<Rightarrow> scheduler_action \<Rightarrow> nat \<Rightarrow> dst_runtime \<Rightarrow> runtime_result" where
  "runtime_step role action attempt r =
     (if rt_state r \<noteq> Running then (Inl (InvalidTransition (rt_state r) CmdStep), r)
      else (Inr (), runtime_record CmdStep role (Some action) Success
                      (r\<lparr>rt_attempts := sat32 (rt_attempts r + attempt)\<rparr>)))"

definition runtime_complete :: "dst_runtime \<Rightarrow> dst_runtime" where
  "runtime_complete r = runtime_record CmdReplay DstOrchestrator None Success (r\<lparr>rt_state := Completed\<rparr>)"

definition enforce_budget :: "nat \<Rightarrow> dst_runtime \<Rightarrow> dst_runtime_error + unit" where
  "enforce_budget observed_ns r =
     (if rt_max_virtual_time_ns r < observed_ns
      then Inl (BudgetExceeded (rt_max_virtual_time_ns r) observed_ns) else Inr ())"

text \<open>The metadata goes to the last event of the trace; the clamped clock is dropped with the
  runtime.\<close>

definition into_trace :: "dst_runtime \<Rightarrow> trace_artifact" where
  "into_trace r =
     (let r1 = r\<lparr>rt_virtual_time_ns := min (rt_virtual_time_ns r) (rt_max_virtual_time_ns r)\<rparr> in
      set_metadata ''seed'' (show_nat (unat (rt_seed r1)))
        (set_metadata ''profile_id'' (rt_profile_id r1)
          (set_metadata ''run_id'' (rt_run_id r1) (rt_trace r1))))"

definition trace_from_runtime :: "dst_runtime \<Rightarrow> trace_artifact" where
  "trace_from_runtime r = rt_trace r"

definition replay_trace :: "(trace_event \<Rightarrow> string) \<Rightarrow> trace_artifact \<Rightarrow> trace_artifact \<Rightarrow> string + unit" where
  "replay_trace event_text expected actual =
     (if length (ta_events expected) \<noteq> length (ta_events actual) then
        Inl (''trace length mismatch: expected '' @ show_nat (length (ta_events expected))
             @ '' actual '' @ show_nat (length (ta_events actual)))
      else
        (case first_difference 0 (ta_events expected) (ta_events actual) of
           Some (i, left, right) \<Rightarrow>
             Inl (''trace event mismatch at step '' @ show_nat i @ '': expected='' @ event_text left
                  @ '', actual='' @ event_text right)
         | None \<Rightarrow> Inr ()))"

section \<open>The life cycle as an automaton\<close>

definition command_target :: "dst_runtime_state \<Rightarrow> dst_runtime_command \<Rightarrow> dst_runtime_state option" where
  "command_target s command =
     (case command of
        CmdStart \<Rightarrow> if s \<in> {Initialized, Restarting} then Some Running else None
      | CmdPause \<Rightarrow> if s = Running then Some Paused else None
      | CmdResume \<Rightarrow> if s = Paused then Some Running else None
      | CmdCrash _ \<Rightarrow> if s \<in> {Initialized, Completed} then None else Some Crashed
      | CmdRestart _ \<Rightarrow> if s = Crashed then Some Restarting else None
      | CmdStep \<Rightarrow> if s = Running then Some Running else None
      | CmdReplay \<Rightarrow> Some Completed)"

fun run_commands :: "dst_runtime_state \<Rightarrow> dst_runtime_command list \<Rightarrow> dst_runtime_state option" where
  "run_commands s [] = Some s"
| "run_commands s (c # cs) = (case command_target s c of None \<Rightarrow> None | Some s1 \<Rightarrow> run_commands s1 cs)"

lemma run_commands_append:
  "run_commands s (cs @ ds) = (case run_commands s cs of None \<Rightarrow> None | Some s1 \<Rightarrow> run_commands s1 ds)"
  by (induction cs arbitrary: s) (auto split: option.splits)

text \<open>A call of the public interface, and what a harness obtains by a sequence of them.\<close>

datatype harness_call =
  CallStart | CallPause | CallResume | CallCrash dst_role string | CallRestart dst_role string
| CallStep dst_role scheduler_action nat | CallComplete

fun call_command :: "harness_call \<Rightarrow> dst_runtime_command" where
  "call_command CallStart = CmdStart"
| "call_command CallPause = CmdPause"
| "call_command CallResume = CmdResume"
| "call_command (CallCrash role reason) = CmdCrash reason"
| "call_command (CallRestart role reason) = CmdRestart reason"
| "call_command (CallStep role action attempt) = CmdStep"
| "call_command CallComplete = CmdReplay"

fun runtime_call :: "harness_call \<Rightarrow> dst_runtime \<Rightarrow> runtime_result" where
  "runtime_call CallStart r = runtime_start r"
| "runtime_call CallPause r = runtime_pause r"
| "runtime_call CallResume r = runtime_resume r"
| "runtime_call (CallCrash role reason) r = runtime_crash role reason r"
| "runtime_call (CallRestart role reason) r = runtime_restart role reason r"
| "runtime_call (CallStep role action attempt) r = runtime_step role action attempt r"
| "runtime_call CallComplete r = (Inr (), runtime_complete r)"

inductive runtime_reachable :: "dst_runtime \<Rightarrow> bool" where
  fresh_runtime: "runtime_reachable (runtime_new run_id profile_id seed budget)"
| after_call: "runtime_reachable r \<Longrightarrow> runtime_reachable (snd (runtime_call call r))"

text \<open>Every call is a move of the automaton, or is rejected and changes nothing.\<close>

definition call_effect :: "harness_call \<Rightarrow> dst_runtime \<Rightarrow> dst_runtime \<Rightarrow> dst_runtime" where
  "call_effect call before r =
     runtime_record (call_command call)
       (case call of CallCrash role _ \<Rightarrow> role | CallRestart role _ \<Rightarrow> role | CallStep role _ _ \<Rightarrow> role
                   | _ \<Rightarrow> DstOrchestrator)
       (case call of CallStep _ action _ \<Rightarrow> Some action | _ \<Rightarrow> None)
       (case call of CallCrash _ reason \<Rightarrow> Failed reason | _ \<Rightarrow> Success)
       (case call of CallStep _ _ attempt \<Rightarrow> r\<lparr>rt_attempts := sat32 (rt_attempts before + attempt)\<rparr> | _ \<Rightarrow> r)"

lemma runtime_call_cases:
  "runtime_call call r =
     (case command_target (rt_state r) (call_command call) of
        None \<Rightarrow> (Inl (InvalidTransition (rt_state r) (call_command call)), r)
      | Some s1 \<Rightarrow> (Inr (), call_effect call r (r\<lparr>rt_state := s1\<rparr>)))"
  by (cases r; cases call; cases "rt_state r")
    (simp_all add: command_target_def call_effect_def runtime_start_def runtime_pause_def runtime_resume_def
      runtime_crash_def runtime_restart_def runtime_step_def runtime_complete_def)

definition traced_action :: "runtime_step_event \<Rightarrow> scheduler_action" where
  "traced_action e = (case se_action e of Some a \<Rightarrow> a | None \<Rightarrow> ActSpawn)"

text \<open>The type of a runtime: the timeline is a run of the automaton that ends in the current
  state; timeline and trace have one entry per accepted command, numbered from zero, and agree on
  roles and actions; the clock is the sum of the step costs.\<close>

definition runtime_wf :: "dst_runtime \<Rightarrow> bool" where
  "runtime_wf r \<longleftrightarrow>
     (let tl = rt_timeline r; ev = ta_events (rt_trace r); n = length tl in
      run_commands Initialized (map se_command tl) = Some (rt_state r)
      \<and> rt_step r = sat64 n \<and> map se_index tl = map sat64 [0..<n]
      \<and> map te_step ev = [0..<n] \<and> map te_role ev = map se_role tl \<and> map te_action ev = map traced_action tl
      \<and> map se_virtual_time_ns tl = map (\<lambda>i. sat64 (500 * (i + 1) * (i + 2))) [0..<n]
      \<and> rt_virtual_time_ns r = sat64 (500 * n * (n + 1))
      \<and> ta_run_id (rt_trace r) = rt_run_id r \<and> ta_profile_id (rt_trace r) = rt_profile_id r
      \<and> ta_seed (rt_trace r) = rt_seed r)"

lemma sat64_step:
  "sat64 (sat64 (500 * n * (n + 1)) + sat64 (sat64 (sat64 n + 1) * 1000)) = sat64 (500 * (n + 1) * (n + 2))"
  "sat64 (sat64 n + 1) = sat64 (n + 1)"
proof -
  have "sat64 (sat64 (sat64 n + 1) * 1000) = sat64 ((n + 1) * 1000)" by (auto simp: sat64_def min_def)
  moreover have "sat64 (sat64 x + sat64 y) = sat64 (x + y)" for x y by (auto simp: sat64_def min_def)
  moreover have "500 * n * (n + 1) + (n + 1) * 1000 = 500 * (n + 1) * (n + 2)" by (simp add: algebra_simps)
  ultimately show "sat64 (sat64 (500 * n * (n + 1)) + sat64 (sat64 (sat64 n + 1) * 1000)) = sat64 (500 * (n + 1) * (n + 2))"
    by metis
qed (auto simp: sat64_def min_def)

lemma record_wf:
  assumes "runtime_wf r" "command_target (rt_state r) command = Some s1"
    and "rt_state r1 = s1" "rt_step r1 = rt_step r" "rt_virtual_time_ns r1 = rt_virtual_time_ns r"
      "rt_timeline r1 = rt_timeline r" "rt_trace r1 = rt_trace r" "rt_run_id r1 = rt_run_id r"
      "rt_profile_id r1 = rt_profile_id r" "rt_seed r1 = rt_seed r"
  shows "runtime_wf (runtime_record command role action status r1)"
proof -
  let ?n = "length (rt_timeline r)"
  have n: "length (ta_events (rt_trace r)) = ?n"
    using assms(1) unfolding runtime_wf_def Let_def by (metis length_map length_upt minus_nat.diff_0)
  have time: "rt_virtual_time_ns r = sat64 (500 * ?n * (?n + 1))" "rt_step r = sat64 ?n"
    using assms(1) by (simp_all add: runtime_wf_def Let_def)
  show ?thesis
    using assms n sat64_step [of ?n]
    unfolding runtime_wf_def runtime_record_def trace_push_def Let_def
    by (simp add: run_commands_append time traced_action_def)
qed

lemma runtime_new_wf: "runtime_wf (runtime_new run_id profile_id seed budget)"
  by (simp add: runtime_wf_def runtime_new_def trace_new_def sat64_def)

lemma runtime_call_wf:
  assumes "runtime_wf r"
  shows "runtime_wf (snd (runtime_call call r))"
proof (cases "command_target (rt_state r) (call_command call)")
  case None
  then show ?thesis using assms by (simp add: runtime_call_cases)
next
  case (Some s1)
  have "runtime_wf (call_effect call r (r\<lparr>rt_state := s1\<rparr>))"
    unfolding call_effect_def by (rule record_wf [OF assms Some]) (simp_all split: harness_call.split)
  then show ?thesis using Some by (simp add: runtime_call_cases)
qed

text \<open>C36. Runtimes are well formed. Whatever calls a harness makes, in whatever order, accepted or
  rejected: the timeline is a run of the life-cycle automaton from the initial state to the
  current one; timeline and trace carry one entry per accepted command, numbered from zero, with
  equal roles and with the scheduler action, or a spawn for a life-cycle command; the virtual
  clock after n commands is 500 n (n + 1) nanoseconds, saturated; and the trace keeps the
  identity of the run. A call the automaton does not allow is answered by
  \<open>InvalidTransition\<close> with the current state and changes nothing.\<close>

theorem runtime_well_formed:
  assumes "runtime_reachable r"
  shows "runtime_wf r
    \<and> (command_target (rt_state r) (call_command call) = None
        \<longleftrightarrow> fst (runtime_call call r) = Inl (InvalidTransition (rt_state r) (call_command call)))
    \<and> (fst (runtime_call call r) = Inr () \<or> snd (runtime_call call r) = r)"
proof -
  have "runtime_wf r" using assms by induction (auto intro: runtime_new_wf runtime_call_wf)
  then show ?thesis
    by (cases "command_target (rt_state r) (call_command call)") (simp_all add: runtime_call_cases)
qed

lemma reachable_calls:
  "runtime_reachable r \<Longrightarrow> runtime_reachable (fold (\<lambda>call r. snd (runtime_call call r)) calls r)"
  by (induction calls arbitrary: r) (auto simp del: runtime_call.simps intro: after_call)

text \<open>A producer that is started, steps, crashes, is stepped in vain, and restarts.\<close>

theorem runtime_well_formed_witness:
  "\<exists>r. runtime_reachable r \<and> runtime_wf r \<and> rt_state r = Restarting
     \<and> map se_command (rt_timeline r) = [CmdStart, CmdStep, CmdCrash ''fault'', CmdRestart ''retry'']
     \<and> map te_action (ta_events (rt_trace r)) = [ActSpawn, ActPublishBatch 4, ActSpawn, ActSpawn]
     \<and> rt_virtual_time_ns r = 10000
     \<and> fst (runtime_call CallResume r) = Inl (InvalidTransition Restarting CmdResume)"
proof -
  define r where "r = fold (\<lambda>call r. snd (runtime_call call r))
    [CallStart, CallStep DstProducer (ActPublishBatch 4) 0, CallCrash DstProducer ''fault'',
     CallStep DstProducer (ActPublishBatch 4) 0, CallRestart DstProducer ''retry'']
    (runtime_new ''run'' ''unit'' 7 10000)"
  have reach: "runtime_reachable r" unfolding r_def by (intro reachable_calls fresh_runtime)
  have facts: "rt_state r = Restarting"
    "map se_command (rt_timeline r) = [CmdStart, CmdStep, CmdCrash ''fault'', CmdRestart ''retry'']"
    "map te_action (ta_events (rt_trace r)) = [ActSpawn, ActPublishBatch 4, ActSpawn, ActSpawn]"
    "rt_virtual_time_ns r = 10000"
    by (simp_all add: r_def runtime_new_def runtime_start_def runtime_step_def runtime_crash_def runtime_restart_def
        runtime_record_def trace_push_def trace_new_def sat64_def sat32_def Let_def)
  have "command_target Restarting CmdResume = None" by (simp add: command_target_def)
  then show ?thesis using runtime_well_formed [OF reach, of CallResume] reach facts by auto
qed

section \<open>What a trace does not tell\<close>

definition run_calls_of :: "harness_call list \<Rightarrow> string \<Rightarrow> string \<Rightarrow> u64 \<Rightarrow> nat \<Rightarrow> dst_runtime" where
  "run_calls_of calls run_id profile_id seed budget =
     fold (\<lambda>call r. snd (runtime_call call r)) calls (runtime_new run_id profile_id seed budget)"

text \<open>Replay does not see the life cycle. A run that is started and paused and a run that is
  started and completed leave traces that both replay checks accept for each other, although one
  run is unfinished: the trace records every life-cycle command of the orchestrator as the same
  successful spawn.\<close>

theorem replay_ignores_lifecycle:
  "let paused = run_calls_of [CallStart, CallPause] run_id profile_id seed budget;
       finished = run_calls_of [CallStart, CallComplete] run_id profile_id seed budget in
     rt_state paused = Paused \<and> rt_state finished = Completed
     \<and> replay_validate (into_trace paused) (into_trace finished) = Inr ()
     \<and> replay_trace event_text (into_trace paused) (into_trace finished) = Inr ()"
proof -
  define paused where "paused = run_calls_of [CallStart, CallPause] run_id profile_id seed budget"
  define finished where "finished = run_calls_of [CallStart, CallComplete] run_id profile_id seed budget"
  have "rt_trace paused = rt_trace finished" "rt_state paused = Paused" "rt_state finished = Completed"
    "rt_run_id paused = rt_run_id finished" "rt_profile_id paused = rt_profile_id finished"
    "rt_seed paused = rt_seed finished"
    by (simp_all add: paused_def finished_def run_calls_of_def runtime_new_def runtime_start_def runtime_pause_def
        runtime_complete_def runtime_record_def Let_def)
  moreover have "first_difference i es es = None" for i es
    by (induction es arbitrary: i) simp_all
  ultimately show ?thesis
    unfolding paused_def [symmetric] finished_def [symmetric] Let_def
    by (simp add: into_trace_def Let_def replay_validate_def replay_trace_def)
qed

end
