(* ===== verification/DstSupport.thy ===== *)
theory DstSupport
  imports DstContract Waits
begin

unbundle bit_operations_syntax

text \<open>
  The other parts of the simulation support (\<open>disruptor-mp/src/dst\<close>): the assertion log
  (\<open>assertions.rs\<close>), seeded fault injection at call sites (\<open>buggify.rs\<close>), the profile catalogue
  (\<open>profiles.rs\<close>) and the coverage mapping (\<open>mapping.rs\<close>). The process-wide logs and counters
  are explicit states, as they are under their mutex.
\<close>

section \<open>Assertions\<close>

datatype assertion_kind = Always | Sometimes | Reachable | Unreachable

record assertion_violation =
  av_kind :: assertion_kind
  av_message :: string
  av_details :: string

record assertion_log =
  al_always_violations :: "assertion_violation list"
  al_unreachable_violations :: "assertion_violation list"
  al_sometimes :: "string \<rightharpoonup> bool"
  al_reachable :: "string set"

definition assertion_log_default :: assertion_log where
  "assertion_log_default =
     \<lparr> al_always_violations = [], al_unreachable_violations = [], al_sometimes = Map.empty, al_reachable = {} \<rparr>"

definition assert_always :: "bool \<Rightarrow> string \<Rightarrow> string \<Rightarrow> assertion_log \<Rightarrow> assertion_log" where
  "assert_always condition message details lg =
     (if condition then lg
      else lg\<lparr>al_always_violations := al_always_violations lg
             @ [\<lparr> av_kind = Always, av_message = message, av_details = details \<rparr>]\<rparr>)"

definition assert_sometimes :: "bool \<Rightarrow> string \<Rightarrow> string \<Rightarrow> assertion_log \<Rightarrow> assertion_log" where
  "assert_sometimes condition message details lg =
     (let entry = (case al_sometimes lg message of None \<Rightarrow> False | Some b \<Rightarrow> b) in
      lg\<lparr>al_sometimes := (al_sometimes lg)(message \<mapsto> (entry \<or> condition))\<rparr>)"

definition assert_reachable :: "string \<Rightarrow> assertion_log \<Rightarrow> assertion_log" where
  "assert_reachable message lg = lg\<lparr>al_reachable := insert message (al_reachable lg)\<rparr>"

definition assert_unreachable :: "string \<Rightarrow> string \<Rightarrow> assertion_log \<Rightarrow> assertion_log" where
  "assert_unreachable message details lg =
     lg\<lparr>al_unreachable_violations := al_unreachable_violations lg
           @ [\<lparr> av_kind = Unreachable, av_message = message, av_details = details \<rparr>]\<rparr>"

definition sometimes_satisfied :: "string \<Rightarrow> assertion_log \<Rightarrow> bool" where
  "sometimes_satisfied message lg = (case al_sometimes lg message of None \<Rightarrow> False | Some b \<Rightarrow> b)"

text \<open>The global log: reset and snapshot under the lock.\<close>

definition reset_global_assertions :: "assertion_log \<Rightarrow> assertion_log" where
  "reset_global_assertions lg = assertion_log_default"

definition snapshot_global_assertions :: "assertion_log \<Rightarrow> assertion_log" where
  "snapshot_global_assertions lg = lg"

text \<open>What a sequence of assertions leaves in the log.\<close>

datatype log_call =
  CallAlways bool string string | CallSometimes bool string string
| CallReachable string | CallUnreachable string string

fun assertion_call :: "log_call \<Rightarrow> assertion_log \<Rightarrow> assertion_log" where
  "assertion_call (CallAlways b m d) = assert_always b m d"
| "assertion_call (CallSometimes b m d) = assert_sometimes b m d"
| "assertion_call (CallReachable m) = assert_reachable m"
| "assertion_call (CallUnreachable m d) = assert_unreachable m d"

lemma assertion_log_content:
  "map (\<lambda>v. (av_message v, av_details v)) (al_always_violations (fold assertion_call calls lg))
     = map (\<lambda>v. (av_message v, av_details v)) (al_always_violations lg)
       @ List.map_filter (\<lambda>c. case c of CallAlways b m d \<Rightarrow> if b then None else Some (m, d) | _ \<Rightarrow> None) calls"
  "sometimes_satisfied m (fold assertion_call calls lg)
     \<longleftrightarrow> sometimes_satisfied m lg \<or> (\<exists>d. CallSometimes True m d \<in> set calls)"
  "al_reachable (fold assertion_call calls lg) = al_reachable lg \<union> {m. CallReachable m \<in> set calls}"
proof -
  show "map (\<lambda>v. (av_message v, av_details v)) (al_always_violations (fold assertion_call calls lg))
     = map (\<lambda>v. (av_message v, av_details v)) (al_always_violations lg)
       @ List.map_filter (\<lambda>c. case c of CallAlways b m d \<Rightarrow> if b then None else Some (m, d) | _ \<Rightarrow> None) calls"
  proof (induction calls arbitrary: lg)
    case (Cons c calls)
    then show ?case
      by (cases c) (simp_all add: assert_always_def assert_sometimes_def assert_reachable_def
          assert_unreachable_def Let_def map_filter_simps)
  qed (simp add: map_filter_simps)
next
  show "sometimes_satisfied m (fold assertion_call calls lg)
     \<longleftrightarrow> sometimes_satisfied m lg \<or> (\<exists>d. CallSometimes True m d \<in> set calls)"
  proof (induction calls arbitrary: lg)
    case (Cons c calls)
    then show ?case
      by (cases c) (auto simp: assert_always_def assert_sometimes_def assert_reachable_def
          assert_unreachable_def sometimes_satisfied_def Let_def)
  qed simp
next
  show "al_reachable (fold assertion_call calls lg) = al_reachable lg \<union> {m. CallReachable m \<in> set calls}"
  proof (induction calls arbitrary: lg)
    case (Cons c calls)
    then show ?case
      by (cases c) (auto simp: assert_always_def assert_sometimes_def assert_reachable_def
          assert_unreachable_def Let_def)
  qed simp
qed

section \<open>Fault injection at call sites\<close>

record buggify_config =
  bc_seed :: u64
  bc_activation_percent :: nat
  bc_fire_percent :: nat

definition BUGGIFY_ENABLED :: string where "BUGGIFY_ENABLED = ''MYELON_DST_BUGGIFY''"
definition BUGGIFY_SEED :: string where "BUGGIFY_SEED = ''MYELON_DST_BUGGIFY_SEED''"
definition BUGGIFY_ACTIVATION_PERCENT :: string where
  "BUGGIFY_ACTIVATION_PERCENT = ''MYELON_DST_BUGGIFY_ACTIVATION_PERCENT''"
definition BUGGIFY_FIRE_PERCENT :: string where
  "BUGGIFY_FIRE_PERCENT = ''MYELON_DST_BUGGIFY_FIRE_PERCENT''"

definition parse_u8 :: "string \<Rightarrow> nat option" where
  "parse_u8 raw = (case parse_u64 raw of Some n \<Rightarrow> if n \<le> 255 then Some n else None | None \<Rightarrow> None)"

definition ascii_lower :: "char \<Rightarrow> char" where
  "ascii_lower c = (let n = of_char c :: nat in if 65 \<le> n \<and> n \<le> 90 then char_of (n + 32) else c)"

definition buggify_from_env :: "environment \<Rightarrow> buggify_config option" where
  "buggify_from_env env =
     (case env_optional env BUGGIFY_ENABLED of
        None \<Rightarrow> None
      | Some enabled \<Rightarrow>
          if enabled = ''0'' \<or> map ascii_lower enabled = ''false'' then None
          else Some \<lparr> bc_seed = of_nat (env_parse_or parse_u64 env BUGGIFY_SEED 1),
                      bc_activation_percent = env_parse_or parse_u8 env BUGGIFY_ACTIVATION_PERCENT 25,
                      bc_fire_percent = env_parse_or parse_u8 env BUGGIFY_FIRE_PERCENT 25 \<rparr>)"

definition mix :: "u64 \<Rightarrow> u64" where
  "mix x =
     (let x1 = x XOR drop_bit 33 x; x2 = x1 * 0xff51afd7ed558ccd; x3 = x2 XOR drop_bit 33 x2;
          x4 = x3 * 0xc4ceb9fe1a85ec53 in x4 XOR drop_bit 33 x4)"

definition callsite_hash :: "u64 \<Rightarrow> string \<Rightarrow> u32 \<Rightarrow> u64 \<Rightarrow> u64" where
  "callsite_hash seed file line ordinal =
     (let hash = fold (\<lambda>c hash. (word_rotl 5 hash XOR of_nat (of_char c)) * 0x517cc1b727220a95) file
                   (seed XOR (ucast line * 0x9e3779b97f4a7c15)) in
      mix (hash XOR (ordinal * 0x94d049bb133111eb)))"

text \<open>The ordinals of the call sites, kept by the process.\<close>

type_synonym call_site = "string \<times> u32"
type_synonym ordinals = "call_site \<rightharpoonup> u64"

definition buggify_reset :: "ordinals \<Rightarrow> ordinals" where
  "buggify_reset counters = Map.empty"

definition buggify :: "environment \<Rightarrow> call_site \<Rightarrow> ordinals \<Rightarrow> bool \<times> ordinals" where
  "buggify env = (\<lambda>(file, line) counters.
     case buggify_from_env env of
       None \<Rightarrow> (False, counters)
     | Some config \<Rightarrow>
         let activation_roll = callsite_hash (bc_seed config) file line 0 mod 100 in
         if of_nat (bc_activation_percent config) \<le> activation_roll then (False, counters)
         else
           let ordinal = (case counters (file, line) of None \<Rightarrow> 0 | Some n \<Rightarrow> n);
               fire_roll = callsite_hash (bc_seed config XOR 0xa5a55a5ad15ca11e) file line ordinal mod 100 in
           (fire_roll < of_nat (bc_fire_percent config), counters((file, line) \<mapsto> ordinal + 1)))"

record scoped_buggify =
  sb_previous_enabled :: "string option"
  sb_previous_seed :: "string option"
  sb_previous_activation_percent :: "string option"
  sb_previous_fire_percent :: "string option"

definition scoped_buggify_new :: "u64 \<Rightarrow> environment \<times> ordinals \<Rightarrow> scoped_buggify \<times> environment \<times> ordinals" where
  "scoped_buggify_new seed = (\<lambda>(env, counters).
     (\<lparr> sb_previous_enabled = env BUGGIFY_ENABLED, sb_previous_seed = env BUGGIFY_SEED,
         sb_previous_activation_percent = env BUGGIFY_ACTIVATION_PERCENT,
         sb_previous_fire_percent = env BUGGIFY_FIRE_PERCENT \<rparr>,
      env(BUGGIFY_ENABLED \<mapsto> ''1'', BUGGIFY_SEED \<mapsto> show_nat (unat seed)), buggify_reset counters))"

definition scoped_buggify_drop :: "scoped_buggify \<Rightarrow> environment \<times> ordinals \<Rightarrow> environment \<times> ordinals" where
  "scoped_buggify_drop g = (\<lambda>(env, counters).
     (env(BUGGIFY_ENABLED := sb_previous_enabled g, BUGGIFY_SEED := sb_previous_seed g,
          BUGGIFY_ACTIVATION_PERCENT := sb_previous_activation_percent g,
          BUGGIFY_FIRE_PERCENT := sb_previous_fire_percent g), buggify_reset counters))"

text \<open>The decision of one call site at one ordinal.\<close>

definition site_decision :: "environment \<Rightarrow> call_site \<Rightarrow> u64 \<Rightarrow> bool" where
  "site_decision env = (\<lambda>(file, line) ordinal.
     case buggify_from_env env of
       None \<Rightarrow> False
     | Some config \<Rightarrow>
         callsite_hash (bc_seed config) file line 0 mod 100 < of_nat (bc_activation_percent config)
         \<and> callsite_hash (bc_seed config XOR 0xa5a55a5ad15ca11e) file line ordinal mod 100
             < of_nat (bc_fire_percent config))"

fun buggify_run :: "environment \<Rightarrow> call_site list \<Rightarrow> ordinals \<Rightarrow> (call_site \<times> bool) list" where
  "buggify_run env [] counters = []"
| "buggify_run env (site # sites) counters =
     (case buggify env site counters of (fired, counters1) \<Rightarrow> (site, fired) # buggify_run env sites counters1)"

text \<open>An inactive site keeps no ordinal; its decisions do not depend on one.\<close>

definition site_active :: "environment \<Rightarrow> call_site \<Rightarrow> bool" where
  "site_active env = (\<lambda>(file, line).
     case buggify_from_env env of
       None \<Rightarrow> False
     | Some config \<Rightarrow> callsite_hash (bc_seed config) file line 0 mod 100 < of_nat (bc_activation_percent config))"

definition next_ordinal :: "ordinals \<Rightarrow> call_site \<Rightarrow> u64" where
  "next_ordinal counters site = (case counters site of None \<Rightarrow> 0 | Some n \<Rightarrow> n)"

lemma site_decision_inactive: "\<not> site_active env site \<Longrightarrow> \<not> site_decision env site n"
  by (auto simp: site_active_def site_decision_def split: prod.splits option.splits)

lemma buggify_step:
  "fst (buggify env site counters) = site_decision env site (next_ordinal counters site)"
  "next_ordinal (snd (buggify env site counters)) other
     = (if other = site \<and> site_active env site then next_ordinal counters site + 1 else next_ordinal counters other)"
  by (auto simp: buggify_def site_decision_def site_active_def next_ordinal_def Let_def
      split: prod.splits option.splits)

lemma buggify_run_site:
  "map snd (filter (\<lambda>(s, _). s = site) (buggify_run env sites counters))
     = map (\<lambda>n. site_decision env site (next_ordinal counters site + of_nat n)) [0..<count_list sites site]"
proof (induction sites arbitrary: counters)
  case (Cons s sites)
  obtain fired counters1 where b: "buggify env s counters = (fired, counters1)" by (meson surj_pair)
  have step: "fired = site_decision env s (next_ordinal counters s)"
    "next_ordinal counters1 site
      = (if site = s \<and> site_active env s then next_ordinal counters s + 1 else next_ordinal counters site)"
    using buggify_step [of env s counters] b by simp_all
  have shift: "map (\<lambda>n. site_decision env site (next_ordinal counters site + of_nat n)) [0..<Suc k]
      = site_decision env site (next_ordinal counters site)
        # map (\<lambda>n. site_decision env site (next_ordinal counters site + of_nat (Suc n))) [0..<k]" for k
    by (subst upt_conv_Cons) (simp_all add: map_Suc_upt [symmetric] comp_def del: upt_Suc)
  show ?case
  proof (cases "s = site")
    case True
    have "map (\<lambda>n. site_decision env site (next_ordinal counters1 site + of_nat n)) [0..<count_list sites site]
        = map (\<lambda>n. site_decision env site (next_ordinal counters site + of_nat (Suc n))) [0..<count_list sites site]"
      using step(2) True site_decision_inactive [of env site]
      by (cases "site_active env site") (auto simp: add.assoc add.commute [of 1])
    then show ?thesis using Cons.IH [of counters1] True step(1)
      by (simp add: b [unfolded True] shift del: upt_Suc)
  next
    case False
    then show ?thesis using Cons.IH [of counters1] step(2) by (simp add: b)
  qed
qed simp

text \<open>Fault injection replays. After a reset, the decisions a call site gets are the hash
  decisions of the ordinals zero, one, two and so on, in order, however its calls interleave with
  those of other sites; and a scope puts the four variables of the environment back to what they
  were when it was opened, whatever was done to them in between.\<close>

theorem buggify_replays:
  "map snd (filter (\<lambda>(s, _). s = site) (buggify_run env sites (buggify_reset counters)))
     = map (\<lambda>n. site_decision env site (of_nat n)) [0..<count_list sites site]
   \<and> (let (g, _, _) = scoped_buggify_new seed (env, counters);
          (env2, counters2) = scoped_buggify_drop g (inner, ordinals) in
      map env2 [BUGGIFY_ENABLED, BUGGIFY_SEED, BUGGIFY_ACTIVATION_PERCENT, BUGGIFY_FIRE_PERCENT]
        = map env [BUGGIFY_ENABLED, BUGGIFY_SEED, BUGGIFY_ACTIVATION_PERCENT, BUGGIFY_FIRE_PERCENT]
      \<and> counters2 = Map.empty)"
  using buggify_run_site [of site env sites "buggify_reset counters"]
  by (simp add: buggify_reset_def next_ordinal_def scoped_buggify_new_def scoped_buggify_drop_def
      BUGGIFY_ENABLED_def BUGGIFY_SEED_def BUGGIFY_ACTIVATION_PERCENT_def BUGGIFY_FIRE_PERCENT_def)

section \<open>Profiles\<close>

datatype profile_assertion =
  NoDeadlock | BoundedShutdown | MonotonicCursor | NoStaleOverwrite | DelayedVisibilityConverged
| RecoveryProgressesAfterRestart

definition profile_assertion_description :: "profile_assertion \<Rightarrow> string" where
  "profile_assertion_description p =
     (case p of
        NoDeadlock \<Rightarrow> ''Profile run must not deadlock''
      | BoundedShutdown \<Rightarrow> ''Shutdown and recovery paths must complete within budget''
      | MonotonicCursor \<Rightarrow> ''Cursor sequence values are monotonic''
      | NoStaleOverwrite \<Rightarrow> ''No stale data is consumed after ownership changes''
      | DelayedVisibilityConverged \<Rightarrow> ''Delayed state visibility eventually converges''
      | RecoveryProgressesAfterRestart \<Rightarrow> ''Restart transitions resume progress'')"

record profile_seed_envelope =
  en_min_seed :: u64
  en_max_seed :: u64
  en_step :: u64
  en_note :: string

definition envelope_new :: "u64 \<Rightarrow> u64 \<Rightarrow> u64 \<Rightarrow> string \<Rightarrow> profile_seed_envelope" where
  "envelope_new min_seed max_seed step note =
     \<lparr> en_min_seed = min_seed, en_max_seed = max_seed, en_step = step, en_note = note \<rparr>"

text \<open>The addition overflows for the one envelope that holds every seed; it wraps here, as in an
  optimised build.\<close>

definition sample_count :: "profile_seed_envelope \<Rightarrow> u64" where
  "sample_count e =
     (if en_max_seed e < en_min_seed e \<or> en_step e = 0 then 0
      else (en_max_seed e - en_min_seed e) div en_step e + 1)"

record profile_spec =
  ps_kind :: failure_class
  ps_producers :: nat
  ps_consumers :: nat
  ps_timeout :: nat
  ps_expected_assertions :: "profile_assertion list"
  ps_replay_assertions :: "profile_assertion list"
  ps_coverage_tests :: "string list"
  ps_seed_envelope :: profile_seed_envelope

definition profile_name :: "profile_spec \<Rightarrow> string" where
  "profile_name p =
     (case ps_kind p of
        ProducerBeforeConsumers \<Rightarrow> ''producer_before_consumers''
      | LateConsumerAttach \<Rightarrow> ''late_consumer_attach''
      | CreateAttachChurn \<Rightarrow> ''create_attach_churn''
      | ProducerCrashAndRestart \<Rightarrow> ''producer_crash_and_restart''
      | ConsumerCrashAndRestart \<Rightarrow> ''consumer_crash_and_restart''
      | DiscoveryVisibilityLag \<Rightarrow> ''discovery_visibility_lag''
      | ReadinessGateViolation \<Rightarrow> ''readiness_gate_violation'')"

definition timeout_ms :: "profile_spec \<Rightarrow> nat" where
  "timeout_ms p = min (ps_timeout p div 1000000) (2 ^ 64 - 1)"

definition QUICK_SEEDS :: profile_seed_envelope where
  "QUICK_SEEDS = envelope_new 0x1001 0x1001 1 ''single run smoke envelope''"
definition STARTUP_STABILITY_SEEDS :: profile_seed_envelope where
  "STARTUP_STABILITY_SEEDS = envelope_new 0x2001 0x2010 3 ''multi-variant startup and attach ordering''"
definition RESTART_SEEDS :: profile_seed_envelope where
  "RESTART_SEEDS = envelope_new 0x3001 0x3010 3 ''restart fault injection envelope''"
definition VISIBILITY_SEEDS :: profile_seed_envelope where
  "VISIBILITY_SEEDS = envelope_new 0x4001 0x4010 2 ''visibility lag simulation envelope''"
definition READINESS_SEEDS :: profile_seed_envelope where
  "READINESS_SEEDS = envelope_new 0x5001 0x5008 1 ''readiness timeout envelope''"

definition PROD_BEFORE_TESTS :: "string list" where
  "PROD_BEFORE_TESTS =
     [''dst_failure_class_producer_before_consumers_shm'', ''dst_failure_class_producer_before_consumers_mmap'',
      ''dst_failure_class_producer_before_consumers_shm_broadcast'']"
definition LATE_CONSUMER_TESTS :: "string list" where
  "LATE_CONSUMER_TESTS =
     [''dst_failure_class_late_consumer_attach_mmap'', ''dst_failure_class_late_consumer_attach_shm'',
      ''dst_failure_class_late_consumer_attach_shm_broadcast'']"
definition CREATE_ATTACH_TESTS :: "string list" where
  "CREATE_ATTACH_TESTS =
     [''true_multiprocess_startup_determinism_loop'', ''ring_buffer_layout_rejects_version_regression'',
      ''cursor_new_or_attach_must_attach_existing_segment'']"
definition PRODUCER_RESTART_TESTS :: "string list" where
  "PRODUCER_RESTART_TESTS =
     [''true_multiprocess_startup_determinism_loop'', ''true_multiprocess_deadlock_boundary_conditions'',
      ''true_multiprocess_64kb_buffer_deadlock_at_65536_events'']"
definition CONSUMER_RESTART_TESTS :: "string list" where
  "CONSUMER_RESTART_TESTS =
     [''true_multiprocess_spmc_two_consumers_with_slow_consumer'', ''cursor_recreate_recovers_after_simulated_crash'',
      ''dropping_attached_cursor_must_not_disrupt_owner'']"
definition VISIBILITY_TESTS :: "string list" where
  "VISIBILITY_TESTS =
     [''true_multiprocess_startup_determinism_loop'', ''true_multiprocess_concurrent_spsc'',
      ''ring_buffer_layout_rejects_element_size_mismatch'']"
definition READINESS_TESTS :: "string list" where
  "READINESS_TESTS =
     [''true_multiprocess_startup_determinism_loop'', ''true_multiprocess_spsc_wraparound_and_startup_race'',
      ''true_multiprocess_backpressure_spsc'']"

definition PRODUCER_BEFORE_CONSUMER :: profile_spec where
  "PRODUCER_BEFORE_CONSUMER =
     \<lparr> ps_kind = ProducerBeforeConsumers, ps_producers = 1, ps_consumers = 1, ps_timeout = from_millis 800,
       ps_expected_assertions = [NoDeadlock, MonotonicCursor, BoundedShutdown, NoStaleOverwrite],
       ps_replay_assertions = [NoDeadlock, MonotonicCursor, NoStaleOverwrite],
       ps_coverage_tests = PROD_BEFORE_TESTS, ps_seed_envelope = QUICK_SEEDS \<rparr>"

definition LATE_CONSUMER_ATTACH :: profile_spec where
  "LATE_CONSUMER_ATTACH =
     \<lparr> ps_kind = LateConsumerAttach, ps_producers = 1, ps_consumers = 2, ps_timeout = from_millis 1200,
       ps_expected_assertions = [NoDeadlock, MonotonicCursor, NoStaleOverwrite],
       ps_replay_assertions = [NoDeadlock, MonotonicCursor],
       ps_coverage_tests = LATE_CONSUMER_TESTS, ps_seed_envelope = STARTUP_STABILITY_SEEDS \<rparr>"

definition CREATE_ATTACH_CHURN :: profile_spec where
  "CREATE_ATTACH_CHURN =
     \<lparr> ps_kind = CreateAttachChurn, ps_producers = 1, ps_consumers = 2, ps_timeout = from_millis 1200,
       ps_expected_assertions = [NoDeadlock, BoundedShutdown, RecoveryProgressesAfterRestart],
       ps_replay_assertions = [NoDeadlock, BoundedShutdown, RecoveryProgressesAfterRestart],
       ps_coverage_tests = CREATE_ATTACH_TESTS, ps_seed_envelope = STARTUP_STABILITY_SEEDS \<rparr>"

definition PRODUCER_CRASH_RESTART :: profile_spec where
  "PRODUCER_CRASH_RESTART =
     \<lparr> ps_kind = ProducerCrashAndRestart, ps_producers = 1, ps_consumers = 1, ps_timeout = from_millis 1500,
       ps_expected_assertions = [NoDeadlock, RecoveryProgressesAfterRestart, MonotonicCursor, BoundedShutdown],
       ps_replay_assertions = [NoDeadlock, RecoveryProgressesAfterRestart, MonotonicCursor],
       ps_coverage_tests = PRODUCER_RESTART_TESTS, ps_seed_envelope = RESTART_SEEDS \<rparr>"

definition CONSUMER_CRASH_RESTART :: profile_spec where
  "CONSUMER_CRASH_RESTART =
     \<lparr> ps_kind = ConsumerCrashAndRestart, ps_producers = 1, ps_consumers = 2, ps_timeout = from_millis 1500,
       ps_expected_assertions = [NoDeadlock, RecoveryProgressesAfterRestart, MonotonicCursor, NoStaleOverwrite],
       ps_replay_assertions = [NoDeadlock, MonotonicCursor, NoStaleOverwrite],
       ps_coverage_tests = CONSUMER_RESTART_TESTS, ps_seed_envelope = RESTART_SEEDS \<rparr>"

definition DISCOVERY_VISIBILITY_LAG :: profile_spec where
  "DISCOVERY_VISIBILITY_LAG =
     \<lparr> ps_kind = DiscoveryVisibilityLag, ps_producers = 1, ps_consumers = 3, ps_timeout = from_millis 1000,
       ps_expected_assertions = [NoDeadlock, DelayedVisibilityConverged, BoundedShutdown],
       ps_replay_assertions = [DelayedVisibilityConverged, BoundedShutdown],
       ps_coverage_tests = VISIBILITY_TESTS, ps_seed_envelope = VISIBILITY_SEEDS \<rparr>"

definition READINESS_GATE_VIOLATION :: profile_spec where
  "READINESS_GATE_VIOLATION =
     \<lparr> ps_kind = ReadinessGateViolation, ps_producers = 1, ps_consumers = 2, ps_timeout = from_millis 1000,
       ps_expected_assertions = [NoDeadlock, BoundedShutdown, NoStaleOverwrite],
       ps_replay_assertions = [BoundedShutdown, NoStaleOverwrite],
       ps_coverage_tests = READINESS_TESTS, ps_seed_envelope = READINESS_SEEDS \<rparr>"

definition profile_catalog :: "profile_spec list" where
  "profile_catalog =
     [PRODUCER_BEFORE_CONSUMER, LATE_CONSUMER_ATTACH, CREATE_ATTACH_CHURN, PRODUCER_CRASH_RESTART,
      CONSUMER_CRASH_RESTART, DISCOVERY_VISIBILITY_LAG, READINESS_GATE_VIOLATION]"

definition profile_for :: "failure_class \<Rightarrow> profile_spec option" where
  "profile_for cls = List.find (\<lambda>spec. ps_kind spec = cls) profile_catalog"

definition validate_profile_contract :: bool where
  "validate_profile_contract \<longleftrightarrow>
     length (filter (\<lambda>cls. profile_for cls \<noteq> None) failure_class_all) = length failure_class_all"

section \<open>Coverage mapping\<close>

record failure_class_coverage =
  fcc_failure_class :: failure_class
  fcc_test_names :: "string list"
  fcc_assertions :: "string list"
  fcc_class_description :: string

definition coverage_new :: "failure_class \<Rightarrow> string list \<Rightarrow> string list \<Rightarrow> string \<Rightarrow> failure_class_coverage" where
  "coverage_new cls tests assertions description =
     \<lparr> fcc_failure_class = cls, fcc_test_names = tests, fcc_assertions = assertions,
       fcc_class_description = description \<rparr>"

definition FAILURE_CLASS_COVERAGE :: "failure_class_coverage list" where
  "FAILURE_CLASS_COVERAGE =
     [coverage_new ProducerBeforeConsumers
        [''dst_failure_class_producer_before_consumers_shm'', ''dst_failure_class_producer_before_consumers_mmap'',
         ''dst_failure_class_producer_before_consumers_shm_broadcast'']
        [''Consumer-not-attached startup does not drop producer publish guarantees'']
        ''Producer starts before consumers and remains safe under readiness behavior.'',
      coverage_new LateConsumerAttach
        [''dst_failure_class_late_consumer_attach_mmap'', ''dst_failure_class_late_consumer_attach_shm'',
         ''dst_failure_class_late_consumer_attach_shm_broadcast'']
        [''Late consumer attach loops should resolve within bounded timeout'']
        ''Consumer attachment delayed until after producer activity must replay latest state.'',
      coverage_new CreateAttachChurn
        [''true_multiprocess_startup_determinism_loop'', ''cursor_new_or_attach_must_attach_existing_segment'',
         ''ring_buffer_layout_rejects_version_regression'']
        [''Segment creation/attach retries are explicit and bounded'', ''Stale ownership windows are observable'']
        ''Create/attach races are exercised by repeated startup and layout recovery runs.'',
      coverage_new ProducerCrashAndRestart
        [''true_multiprocess_startup_determinism_loop'', ''true_multiprocess_64kb_buffer_deadlock_at_65536_events'',
         ''true_multiprocess_deadlock_boundary_conditions'']
        [''Producer-side lifecycle transitions remain bounded after interruption'',
         ''Recovery path can re-run deterministically from fresh attach'']
        ''Producer interruption class validated through deterministic startup/restart-oriented cases.'',
      coverage_new ConsumerCrashAndRestart
        [''true_multiprocess_spmc_two_consumers_with_slow_consumer'', ''dropping_attached_cursor_must_not_disrupt_owner'',
         ''cursor_recreate_recovers_after_simulated_crash'']
        [''Consumer restart path should continue monotonic sequence consumption'',
         ''Attachment churn does not regress segment metadata'']
        ''Consumer interruption class covered by multi-consumer and cleanup drop scenarios.'',
      coverage_new DiscoveryVisibilityLag
        [''true_multiprocess_startup_determinism_loop'', ''true_multiprocess_concurrent_spsc'']
        [''Readiness and discovery transitions are eventually consistent'',
         ''Visibility lag does not stall indefinitely'']
        ''Discovery/metadata lag is modelled via deterministic startup ordering and concurrent timing.'',
      coverage_new ReadinessGateViolation
        [''true_multiprocess_startup_determinism_loop'', ''true_multiprocess_spsc_wraparound_and_startup_race'',
         ''true_multiprocess_backpressure_spsc'']
        [''Producer waits for required consumer readiness before unbounded overwrite'',
         ''Readiness timeout path is explicit and deterministic'']
        ''Producer gating behavior under mixed slow/ready consumers is covered.'']"

fun find_coverage :: "failure_class \<Rightarrow> failure_class_coverage list \<Rightarrow> failure_class_coverage option" where
  "find_coverage cls [] = None"
| "find_coverage cls (entry # entries) =
     (if fcc_failure_class entry = cls then Some entry else find_coverage cls entries)"

definition coverage_for :: "failure_class \<Rightarrow> failure_class_coverage option" where
  "coverage_for cls = find_coverage cls FAILURE_CLASS_COVERAGE"

lemma profile_defs:
  "profile_catalog = [PRODUCER_BEFORE_CONSUMER, LATE_CONSUMER_ATTACH, CREATE_ATTACH_CHURN, PRODUCER_CRASH_RESTART,
      CONSUMER_CRASH_RESTART, DISCOVERY_VISIBILITY_LAG, READINESS_GATE_VIOLATION]"
  "map ps_kind profile_catalog = failure_class_all"
  "map fcc_failure_class FAILURE_CLASS_COVERAGE = failure_class_all"
  by (simp_all add: profile_catalog_def failure_class_all_def FAILURE_CLASS_COVERAGE_def coverage_new_def
      PRODUCER_BEFORE_CONSUMER_def LATE_CONSUMER_ATTACH_def CREATE_ATTACH_CHURN_def PRODUCER_CRASH_RESTART_def
      CONSUMER_CRASH_RESTART_def DISCOVERY_VISIBILITY_LAG_def READINESS_GATE_VIOLATION_def)

text \<open>Every failure class has its own profile and its own coverage entry.\<close>

lemma every_class_profiled:
  "map_option ps_kind (profile_for cls) = Some cls
   \<and> map_option fcc_failure_class (coverage_for cls) = Some cls"
proof -
  have all: "cls \<in> set failure_class_all" by (cases cls) (simp_all add: failure_class_all_def)
  have find: "map_option ps_kind (List.find (\<lambda>x. ps_kind x = c) xs) = Some c" if "c \<in> set (map ps_kind xs)" for c xs
    using that by (induction xs) auto
  have coverage: "map_option fcc_failure_class (find_coverage c xs) = Some c"
    if "c \<in> set (map fcc_failure_class xs)" for c xs
    using that by (induction xs) auto
  show ?thesis
    unfolding profile_for_def coverage_for_def
    using find [of cls profile_catalog] coverage [of cls FAILURE_CLASS_COVERAGE] all profile_defs(2,3) by metis
qed

lemma profile_contract_holds: "validate_profile_contract"
proof -
  have "profile_for cls \<noteq> None" for cls using every_class_profiled [of cls] by auto
  then show ?thesis by (simp add: validate_profile_contract_def)
qed

end
