(* ===== verification/Oracle.thy ===== *)
theory Oracle
  imports DstContract Fnv
begin

unbundle bit_operations_syntax

text \<open>
  The simulation runner's oracle (\<open>myelon-dst/src\<close>): published and delivered messages and their
  comparison (\<open>runner_oracle.rs\<close>, \<open>runner_verify.rs\<close>), the payloads and their hash, seeded
  configurations (\<open>runner_config.rs\<close>), fault schedules (\<open>runner_fault.rs\<close>), reports
  (\<open>runner_report.rs\<close>), and the functions of \<open>runner.rs\<close> that join the reports of a restarted
  process. Child processes, signals and files are not modelled.
\<close>

section \<open>Messages and the oracle\<close>

record oracle_message =
  om_sequence :: u64
  om_payload_hash :: u64
  om_payload_len :: nat
  om_timestamp_ns :: u64

datatype oracle_violation =
  SequenceGap nat u64 u64
| SequenceReorder nat u64 u64
| PayloadMismatch nat u64 u64 u64
| PayloadSizeMismatch nat u64 nat nat
| MissingMessages nat nat nat
| ExtraMessages nat nat nat

record message_oracle =
  mo_published :: "oracle_message list"
  mo_expected_per_consumer :: "oracle_message list list"

definition with_broadcast_consumers :: "nat \<Rightarrow> message_oracle" where
  "with_broadcast_consumers consumers =
     \<lparr> mo_published = [], mo_expected_per_consumer = replicate consumers [] \<rparr>"

definition record_publish :: "oracle_message \<Rightarrow> message_oracle \<Rightarrow> message_oracle" where
  "record_publish msg o1 =
     o1\<lparr> mo_published := mo_published o1 @ [msg],
         mo_expected_per_consumer := map (\<lambda>consumer. consumer @ [msg]) (mo_expected_per_consumer o1) \<rparr>"

definition extend_published :: "oracle_message list \<Rightarrow> message_oracle \<Rightarrow> message_oracle" where
  "extend_published msgs o1 = fold record_publish msgs o1"

text \<open>\<open>None\<close> is the panic of the index.\<close>

definition expected_for_consumer :: "nat \<Rightarrow> message_oracle \<Rightarrow> oracle_message list option" where
  "expected_for_consumer consumer o1 =
     (if consumer < length (mo_expected_per_consumer o1)
      then Some (mo_expected_per_consumer o1 ! consumer) else None)"

text \<open>The loop over the delivered messages, with the expected ones from the same index on.\<close>

fun verify_loop ::
  "nat \<Rightarrow> nat \<Rightarrow> nat \<Rightarrow> u64 option \<Rightarrow> oracle_message list \<Rightarrow> oracle_message list \<Rightarrow> oracle_violation list" where
  "verify_loop consumer expected_len actual_len previous expected [] = []"
| "verify_loop consumer expected_len actual_len previous expected (actual_msg # actual) =
     (let reorder = (case previous of
                       Some prev \<Rightarrow> if om_sequence actual_msg \<le> prev
                                    then [SequenceReorder consumer prev (om_sequence actual_msg)] else []
                     | None \<Rightarrow> []) in
      reorder @
      (case expected of
         [] \<Rightarrow> [ExtraMessages consumer expected_len actual_len]
       | expected_msg # expected_rest \<Rightarrow>
           (if om_sequence actual_msg \<noteq> om_sequence expected_msg
            then [SequenceGap consumer (om_sequence expected_msg) (om_sequence actual_msg)]
            else
              (if om_payload_hash actual_msg \<noteq> om_payload_hash expected_msg
               then [PayloadMismatch consumer (om_sequence actual_msg) (om_payload_hash expected_msg)
                       (om_payload_hash actual_msg)] else []) @
              (if om_payload_len actual_msg \<noteq> om_payload_len expected_msg
               then [PayloadSizeMismatch consumer (om_sequence actual_msg) (om_payload_len expected_msg)
                       (om_payload_len actual_msg)] else [])) @
           verify_loop consumer expected_len actual_len (Some (om_sequence actual_msg)) expected_rest actual))"

definition violations_of ::
  "nat \<Rightarrow> oracle_message list \<Rightarrow> oracle_message list \<Rightarrow> oracle_violation list" where
  "violations_of consumer expected actual =
     verify_loop consumer (length expected) (length actual) None expected actual
     @ (if length actual < length expected
        then [MissingMessages consumer (length expected) (length actual)] else [])"

definition verdict :: "oracle_violation list \<Rightarrow> oracle_violation list + unit" where
  "verdict violations = (if violations = [] then Inr () else Inl violations)"

definition verify_consumer_messages ::
  "nat \<Rightarrow> oracle_message list \<Rightarrow> message_oracle \<Rightarrow> (oracle_violation list + unit) option" where
  "verify_consumer_messages consumer actual o1 =
     map_option (\<lambda>expected. verdict (violations_of consumer expected actual)) (expected_for_consumer consumer o1)"

fun verify_reports ::
  "nat \<Rightarrow> oracle_message list list \<Rightarrow> message_oracle \<Rightarrow> oracle_violation list option" where
  "verify_reports consumer [] o1 = Some []"
| "verify_reports consumer (report # reports) o1 =
     (case verify_consumer_messages consumer report o1 of
        None \<Rightarrow> None
      | Some r \<Rightarrow>
          map_option (\<lambda>rest. (case r of Inl errs \<Rightarrow> errs @ rest | Inr _ \<Rightarrow> rest))
            (verify_reports (consumer + 1) reports o1))"

definition verify_complete ::
  "oracle_message list list \<Rightarrow> message_oracle \<Rightarrow> (oracle_violation list + unit) option" where
  "verify_complete reports o1 = map_option verdict (verify_reports 0 reports o1)"

section \<open>Payloads\<close>

definition payload_bytes :: "u64 \<Rightarrow> u64 \<Rightarrow> nat \<Rightarrow> u8 list" where
  "payload_bytes seed sequence payload_len =
     (let salt = (ucast seed :: u8) * 17 in
      map (\<lambda>index. (ucast sequence :: u8) + of_nat index * 31 + salt) [0..<payload_len])"

definition hash_step :: "u8 \<Rightarrow> u64 \<Rightarrow> u64" where
  "hash_step byte hash = (hash XOR ucast byte) * 0x1000000001b3"

definition stable_payload_hash :: "u8 list \<Rightarrow> u64" where
  "stable_payload_hash bytes = fold hash_step bytes 0xcbf29ce484222325"

section \<open>Reports\<close>

datatype dst_property =
  MessageIntegrity | SequenceMonotonicity | ZeroCopyEquivalence | FragmentationCorrectness
| BackpressureEnforced | BroadcastCompleteness | ConcurrentIntegrity | RestartSafety | DiscoveryConvergence

record child_report =
  cr_role :: dst_role
  cr_messages :: "oracle_message list"
  cr_checksum_total :: u64
  cr_backpressure_events :: u64
  cr_attached_after_ms :: u64

definition produced :: "child_report \<Rightarrow> nat" where
  "produced r = length (cr_messages r)"

definition verify_raw_ring_broadcast ::
  "message_oracle \<Rightarrow> child_report list \<Rightarrow> (oracle_violation list + unit) option" where
  "verify_raw_ring_broadcast o1 consumers = verify_complete (map cr_messages consumers) o1"

section \<open>Reports of a restarted process\<close>

definition report_next_sequence :: "child_report \<Rightarrow> u64 option" where
  "report_next_sequence r =
     (if cr_messages r = [] then None else Some (om_sequence (List.last (cr_messages r)) + 1))"

definition checksum :: "oracle_message list \<Rightarrow> u64" where
  "checksum messages = fold (\<lambda>m total_hash. total_hash + om_payload_hash m) messages 0"

definition empty_report :: "child_report \<Rightarrow> child_report" where
  "empty_report suffix =
     \<lparr> cr_role = cr_role suffix, cr_messages = [], cr_checksum_total = 0, cr_backpressure_events = 0,
       cr_attached_after_ms = cr_attached_after_ms suffix \<rparr>"

text \<open>\<open>extend\<close> with the part of the suffix after the last message of the merged report, then the
  totals.\<close>

definition append_suffix :: "child_report \<Rightarrow> child_report \<Rightarrow> child_report" where
  "append_suffix merged suffix =
     (let kept = (if cr_messages merged = [] then cr_messages suffix
                  else filter (\<lambda>m. om_sequence (List.last (cr_messages merged)) < om_sequence m) (cr_messages suffix));
          messages = cr_messages merged @ kept in
      merged\<lparr> cr_messages := messages, cr_checksum_total := checksum messages,
              cr_backpressure_events := cr_backpressure_events merged + cr_backpressure_events suffix,
              cr_attached_after_ms := min (cr_attached_after_ms merged) (cr_attached_after_ms suffix) \<rparr>)"

definition merge_child_reports ::
  "child_report \<Rightarrow> child_report option \<Rightarrow> child_report \<Rightarrow> child_report" where
  "merge_child_reports producer prefix suffix =
     (let merged = (case prefix of None \<Rightarrow> empty_report suffix | Some r \<Rightarrow> r);
          first_suffix_seq = (case cr_messages suffix of [] \<Rightarrow> of_nat (length (cr_messages producer))
                                                       | m # _ \<Rightarrow> om_sequence m);
          gap_start = (case report_next_sequence merged of None \<Rightarrow> 0 | Some n \<Rightarrow> n);
          merged1 = (if gap_start < first_suffix_seq
                     then merged\<lparr>cr_messages := cr_messages merged @
                            filter (\<lambda>m. gap_start \<le> om_sequence m \<and> om_sequence m < first_suffix_seq)
                              (cr_messages producer)\<rparr>
                     else merged) in
      append_suffix merged1 suffix)"

definition concat_child_reports :: "child_report option \<Rightarrow> child_report \<Rightarrow> child_report" where
  "concat_child_reports prefix suffix =
     append_suffix (case prefix of None \<Rightarrow> empty_report suffix | Some r \<Rightarrow> r) suffix"

definition restart_sequence_start :: "child_report option \<Rightarrow> child_report option list \<Rightarrow> u64" where
  "restart_sequence_start producer partial_consumers =
     (let producer_next = (case Option.bind producer report_next_sequence of None \<Rightarrow> 0 | Some n \<Rightarrow> n);
          consumer_next = fold max (List.map_filter (\<lambda>r. Option.bind r report_next_sequence) partial_consumers) 0 in
      max producer_next consumer_next)"

text \<open>\<open>dedup_by_key\<close> keeps the first of each run of equal keys.\<close>

fun dedup_by_key :: "('a \<Rightarrow> 'k) \<Rightarrow> 'a list \<Rightarrow> 'a list" where
  "dedup_by_key key [] = []"
| "dedup_by_key key [x] = [x]"
| "dedup_by_key key (x # y # xs) =
     (if key x = key y then dedup_by_key key (x # xs) else x # dedup_by_key key (y # xs))"

definition backfill_report_from_consumers ::
  "child_report \<Rightarrow> child_report option list \<Rightarrow> u64 \<Rightarrow> child_report" where
  "backfill_report_from_consumers producer partial_consumers published =
     (let next_missing = (case report_next_sequence producer of None \<Rightarrow> 0 | Some n \<Rightarrow> n) in
      if published \<le> next_missing then producer
      else
        let recovered = filter (\<lambda>m. next_missing \<le> om_sequence m \<and> om_sequence m < published)
              (concat (map cr_messages (List.map_filter id partial_consumers)));
            messages = cr_messages producer @ dedup_by_key om_sequence (sort_key om_sequence recovered) in
        producer\<lparr> cr_messages := messages, cr_checksum_total := checksum messages \<rparr>)"

text \<open>How the runner judges a run from the decoded reports of its children: the reports of
  restarted processes are joined with what they had saved before, then the oracle of the producer's
  messages is asked. A consumer is its last report, what it had saved, and whether it was restarted.\<close>

type_synonym consumer_run = "child_report \<times> child_report option \<times> bool"

definition producer_report_of :: "bool \<Rightarrow> child_report option \<Rightarrow> child_report \<Rightarrow> child_report" where
  "producer_report_of restarted partial suffix =
     (if restarted then concat_child_reports partial suffix else suffix)"

definition consumer_report_of :: "child_report \<Rightarrow> consumer_run \<Rightarrow> child_report" where
  "consumer_report_of producer = (\<lambda>(report, partial, restarted).
     if restarted then merge_child_reports producer partial report else report)"

definition judge_run ::
  "nat \<Rightarrow> child_report \<Rightarrow> consumer_run list
    \<Rightarrow> (oracle_violation list + child_report \<times> child_report list) option" where
  "judge_run consumer_count producer consumers =
     (let reports = map (consumer_report_of producer) consumers;
          o1 = extend_published (cr_messages producer) (with_broadcast_consumers consumer_count) in
      map_option (map_sum id (\<lambda>_. (producer, reports))) (verify_raw_ring_broadcast o1 reports))"

section \<open>Seeded configurations\<close>

datatype backend_kind = Shm | MmapBackend
datatype wait_strategy_kind = WsBusySpin | WsSleep | WsBlock | WsSpinLoopHint
datatype codec_kind = Rkyv | Flatbuf | Bincode
datatype coordination_kind = External | SharedMemoryDiscovery | MmapBuiltin

datatype transport_kind = RawRing | Framed nat | TypedCodec codec_kind | TypedZeroCopy codec_kind

record dst_config =
  dc_seed :: u64
  dc_backend :: backend_kind
  dc_ring_depth :: nat
  dc_payload_size :: nat
  dc_frame_size :: nat
  dc_consumer_count :: nat
  dc_message_count :: nat
  dc_wait_strategy :: wait_strategy_kind
  dc_codec :: "codec_kind option"
  dc_zero_copy :: bool
  dc_coordination :: coordination_kind

text \<open>\<open>pick\<close>: the value at the drawn index modulo the length, and the new state.\<close>

definition pick :: "'a list \<Rightarrow> u64 \<Rightarrow> 'a \<times> u64" where
  "pick values s = (let s1 = next_u64 s in (values ! (unat s1 mod length values), s1))"

definition RING_DEPTHS :: "nat list" where
  "RING_DEPTHS = [256, 512, 1024, 2048, 4096, 8192, 16384, 32768, 65536, 131072]"
definition FRAME_SIZES :: "nat list" where
  "FRAME_SIZES = [1024, 2048, 4096, 8192, 16384, 32768, 65536]"
definition RAW_RING_PAYLOAD_SIZES :: "nat list" where
  "RAW_RING_PAYLOAD_SIZES = [64, 128, 256, 512, 1024]"
definition FULL_PAYLOAD_SIZES :: "nat list" where
  "FULL_PAYLOAD_SIZES = [64, 128, 256, 512, 1024, 4096, 16384, 65536, 262144, 1048576]"
definition CONSUMER_COUNTS :: "nat list" where
  "CONSUMER_COUNTS = [1, 2, 4, 6, 8, 12]"
definition MESSAGE_COUNTS :: "nat list" where
  "MESSAGE_COUNTS = [1000, 2000, 5000, 10000, 20000, 50000, 100000]"
definition WAIT_STRATEGIES :: "wait_strategy_kind list" where
  "WAIT_STRATEGIES = [WsBusySpin, WsSleep, WsBlock, WsSpinLoopHint]"
definition CODECS :: "codec_kind option list" where
  "CODECS = [None, Some Rkyv, Some Flatbuf, Some Bincode]"

definition backend_coordination :: "backend_kind \<Rightarrow> coordination_kind" where
  "backend_coordination b = (case b of Shm \<Rightarrow> SharedMemoryDiscovery | MmapBackend \<Rightarrow> MmapBuiltin)"

definition config_from_seed :: "u64 \<Rightarrow> dst_config" where
  "config_from_seed seed =
     (case pick [Shm, MmapBackend] (xorshift_new seed) of (backend, r1) \<Rightarrow>
      case pick CODECS r1 of (codec, r2) \<Rightarrow>
      case pick RING_DEPTHS r2 of (ring_depth, r3) \<Rightarrow>
      case pick FULL_PAYLOAD_SIZES r3 of (payload_size, r4) \<Rightarrow>
      case pick FRAME_SIZES r4 of (frame_size, r5) \<Rightarrow>
      case pick CONSUMER_COUNTS r5 of (consumer_count, r6) \<Rightarrow>
      case pick MESSAGE_COUNTS r6 of (message_count, r7) \<Rightarrow>
      case pick WAIT_STRATEGIES r7 of (wait_strategy, r8) \<Rightarrow>
        \<lparr> dc_seed = seed, dc_backend = backend, dc_ring_depth = ring_depth, dc_payload_size = payload_size,
          dc_frame_size = frame_size, dc_consumer_count = consumer_count, dc_message_count = message_count,
          dc_wait_strategy = wait_strategy, dc_codec = codec,
          dc_zero_copy = (codec \<in> set [Some Rkyv, Some Flatbuf] \<and> next_u64 r8 AND 1 = 0),
          dc_coordination = backend_coordination backend \<rparr>)"

definition raw_ring_from_seed :: "u64 \<Rightarrow> dst_config" where
  "raw_ring_from_seed seed =
     (case pick RAW_RING_PAYLOAD_SIZES (xorshift_new (seed XOR 0xD57DA11E5EED)) of (payload_size, r1) \<Rightarrow>
      case pick CONSUMER_COUNTS r1 of (consumer_count, r2) \<Rightarrow>
      case pick MESSAGE_COUNTS r2 of (message_count, r3) \<Rightarrow>
        (config_from_seed seed)\<lparr> dc_codec := None, dc_zero_copy := False, dc_frame_size := 1024,
          dc_payload_size := payload_size, dc_consumer_count := consumer_count, dc_message_count := message_count \<rparr>)"

text \<open>Drawn values come from the tables.\<close>

lemma pick_in: "values \<noteq> [] \<Longrightarrow> fst (pick values s) \<in> set values"
  by (simp add: pick_def Let_def)

lemma raw_ring_config_supported:
  "dc_payload_size (raw_ring_from_seed seed) \<in> set RAW_RING_PAYLOAD_SIZES
   \<and> dc_consumer_count (raw_ring_from_seed seed) \<in> set CONSUMER_COUNTS
   \<and> dc_message_count (raw_ring_from_seed seed) \<in> set MESSAGE_COUNTS
   \<and> dc_codec (raw_ring_from_seed seed) = None \<and> \<not> dc_zero_copy (raw_ring_from_seed seed)"
  using pick_in [of RAW_RING_PAYLOAD_SIZES] pick_in [of CONSUMER_COUNTS] pick_in [of MESSAGE_COUNTS]
  by (simp add: raw_ring_from_seed_def split_beta RAW_RING_PAYLOAD_SIZES_def CONSUMER_COUNTS_def MESSAGE_COUNTS_def)

definition with_backend :: "backend_kind \<Rightarrow> dst_config \<Rightarrow> dst_config" where
  "with_backend b c = c\<lparr> dc_backend := b, dc_coordination := backend_coordination b \<rparr>"
definition with_ring_depth :: "nat \<Rightarrow> dst_config \<Rightarrow> dst_config" where
  "with_ring_depth n c = c\<lparr>dc_ring_depth := n\<rparr>"
definition with_payload_size :: "nat \<Rightarrow> dst_config \<Rightarrow> dst_config" where
  "with_payload_size n c = c\<lparr>dc_payload_size := n\<rparr>"
definition with_consumer_count :: "nat \<Rightarrow> dst_config \<Rightarrow> dst_config" where
  "with_consumer_count n c = c\<lparr>dc_consumer_count := n\<rparr>"
definition with_message_count :: "nat \<Rightarrow> dst_config \<Rightarrow> dst_config" where
  "with_message_count n c = c\<lparr>dc_message_count := n\<rparr>"
definition with_wait_strategy :: "wait_strategy_kind \<Rightarrow> dst_config \<Rightarrow> dst_config" where
  "with_wait_strategy ws c = c\<lparr>dc_wait_strategy := ws\<rparr>"

section \<open>Fault schedules\<close>

datatype fault_kind =
  FaultKill | DelayStart nat | Suspend nat | SlowConsumer nat | SkipConsumerAttach | KillAndRestart nat

record fault_event =
  fe_at_message :: nat
  fe_target :: dst_role
  fe_kind :: fault_kind

record message_fault_injector =
  mf_seed :: u64
  mf_schedule :: "fault_event list"

definition injector_none :: "u64 \<Rightarrow> message_fault_injector" where
  "injector_none seed = \<lparr> mf_seed = seed, mf_schedule = [] \<rparr>"

definition fault_schedule :: "failure_class \<Rightarrow> nat \<Rightarrow> nat \<Rightarrow> fault_event list" where
  "fault_schedule c consumers message_count =
     (let event = (\<lambda>at target kind. \<lparr> fe_at_message = at, fe_target = target, fe_kind = kind \<rparr>) in
      case c of
        ProducerBeforeConsumers \<Rightarrow> [event 0 (DstConsumer 0) (DelayStart 150)]
      | LateConsumerAttach \<Rightarrow> [event (message_count div 3) (DstConsumer 0) (DelayStart 75)]
      | CreateAttachChurn \<Rightarrow> [event (message_count div 4) (DstConsumer 0) (Suspend 120)]
      | ProducerCrashAndRestart \<Rightarrow> [event (message_count div 3) DstProducer (KillAndRestart 80)]
      | ReadinessGateViolation \<Rightarrow> [event 0 (DstConsumer 0) (DelayStart 200)]
      | DiscoveryVisibilityLag \<Rightarrow>
          map (\<lambda>index. event 0 (DstConsumer index) (DelayStart (50 * index))) [0..<max consumers 1]
      | ConsumerCrashAndRestart \<Rightarrow> [event (message_count div 3) (DstConsumer 0) (KillAndRestart 80)])"

definition message_injector_from_seed ::
  "u64 \<Rightarrow> failure_class \<Rightarrow> nat \<Rightarrow> nat \<Rightarrow> message_fault_injector" where
  "message_injector_from_seed seed c consumers message_count =
     \<lparr> mf_seed = seed, mf_schedule = fault_schedule c consumers message_count \<rparr>"

definition faults_at_message :: "nat \<Rightarrow> message_fault_injector \<Rightarrow> fault_event list" where
  "faults_at_message n f = filter (\<lambda>event. fe_at_message event = n) (mf_schedule f)"

section \<open>What the oracle accepts\<close>

definition fingerprint :: "oracle_message \<Rightarrow> u64 \<times> u64 \<times> nat" where
  "fingerprint m = (om_sequence m, om_payload_hash m, om_payload_len m)"

text \<open>The oracle after a run of a ring with \<open>consumers\<close> consumers that published \<open>msgs\<close>.\<close>

definition oracle_of :: "nat \<Rightarrow> oracle_message list \<Rightarrow> message_oracle" where
  "oracle_of consumers msgs = extend_published msgs (with_broadcast_consumers consumers)"

lemma extend_published_lists:
  "mo_published (extend_published msgs o1) = mo_published o1 @ msgs"
  "mo_expected_per_consumer (extend_published msgs o1) = map (\<lambda>c. c @ msgs) (mo_expected_per_consumer o1)"
  by (induction msgs arbitrary: o1) (simp_all add: extend_published_def record_publish_def comp_def)

lemma oracle_of_expected:
  "expected_for_consumer i (oracle_of n msgs) = (if i < n then Some msgs else None)"
  by (simp add: oracle_of_def expected_for_consumer_def extend_published_lists with_broadcast_consumers_def)

lemma verify_loop_nil:
  "verify_loop c a b previous expected actual = []
   \<longleftrightarrow> length actual \<le> length expected
     \<and> map fingerprint actual = map fingerprint (take (length actual) expected)
     \<and> sorted_wrt (<) (case previous of None \<Rightarrow> map om_sequence actual | Some p \<Rightarrow> p # map om_sequence actual)"
proof (induction c a b previous expected actual rule: verify_loop.induct)
  case (2 c a b previous expected m actual)
  have chain: "sorted_wrt (<) (p # om_sequence m # map om_sequence actual)
      \<longleftrightarrow> p < om_sequence m \<and> sorted_wrt (<) (om_sequence m # map om_sequence actual)" for p
    by auto
  show ?case
  proof (cases expected)
    case (Cons e es)
    show ?thesis using 2(1) [OF refl Cons]
      unfolding Cons
      by (cases previous) (auto simp: chain fingerprint_def Let_def not_le simp del: sorted_wrt.simps)
  qed (simp add: Let_def)
qed (simp split: option.splits)

lemma violations_nil:
  "violations_of c expected actual = []
   \<longleftrightarrow> map fingerprint actual = map fingerprint expected \<and> sorted_wrt (<) (map om_sequence actual)"
proof -
  have "map fingerprint actual = map fingerprint expected \<Longrightarrow> length actual = length expected"
    by (metis length_map)
  then show ?thesis
    by (auto simp: violations_of_def verify_loop_nil not_less)
qed

text \<open>The verdict on the reports of a run, over the violations of each consumer.\<close>

lemma broadcast_verdict:
  "verify_raw_ring_broadcast (oracle_of n msgs) reports
     = (if n < length reports then None
        else Some (verdict (concat (map (\<lambda>(i, r). violations_of i msgs (cr_messages r)) (enumerate 0 reports)))))"
proof -
  have loop: "verify_reports i (map cr_messages rs) (oracle_of n msgs)
      = (if rs \<noteq> [] \<and> n < i + length rs then None
         else Some (concat (map (\<lambda>(j, r). violations_of j msgs (cr_messages r)) (enumerate i rs))))" for i rs
  proof (induction rs arbitrary: i)
    case (Cons r rs)
    show ?case
    proof (cases "i < n")
      case True
      then show ?thesis using Cons.IH [of "Suc i"]
        by (cases rs) (auto simp: verify_consumer_messages_def oracle_of_expected verdict_def)
    qed (simp add: verify_consumer_messages_def oracle_of_expected)
  qed simp
  show ?thesis
    by (cases reports) (auto simp: verify_raw_ring_broadcast_def verify_complete_def loop simp del: verify_reports.simps list.map)
qed

lemma no_violations:
  "concat (map (\<lambda>(j, r). violations_of j msgs (cr_messages r)) (enumerate i rs)) = []
     \<longleftrightarrow> list_all (\<lambda>r. map fingerprint (cr_messages r) = map fingerprint msgs
           \<and> sorted_wrt (<) (map om_sequence (cr_messages r))) rs"
  by (induction rs arbitrary: i) (simp_all add: violations_nil)

text \<open>C37. What the oracle accepts. The reports of a run are accepted exactly when every report
  repeats the sequences, hashes and lengths of all published messages, in order, and its
  sequences increase strictly. Reports beyond the number of consumers are a panic; missing
  reports are not noticed.\<close>

theorem oracle_accepts_exactly:
  "verify_raw_ring_broadcast (oracle_of n msgs) reports
     = (if n < length reports then None
        else Some (verdict (concat (map (\<lambda>(i, r). violations_of i msgs (cr_messages r)) (enumerate 0 reports)))))
   \<and> (verify_raw_ring_broadcast (oracle_of n msgs) reports = Some (Inr ())
       \<longleftrightarrow> length reports \<le> n
         \<and> list_all (\<lambda>r. map fingerprint (cr_messages r) = map fingerprint msgs
                      \<and> sorted_wrt (<) (map om_sequence (cr_messages r))) reports)"
  using broadcast_verdict [of n msgs reports] no_violations [of msgs 0 reports] by (auto simp: verdict_def)

section \<open>The hash\<close>

interpretation payload_hash: fnv_hash "0x1000000001b3 :: u64" "0xb46dd957aff6957b"
  by unfold_locales simp_all

lemma stable_payload_hash_fnv:
  "stable_payload_hash bs = fnv_fold 0x1000000001b3 0xcbf29ce484222325 bs"
proof -
  have "fold hash_step bs h = fnv_fold 0x1000000001b3 h bs" for h
    by (induction bs arbitrary: h) (simp_all add: hash_step_def fnv_step_def)
  then show ?thesis by (simp add: stable_payload_hash_def)
qed

text \<open>Two payloads that differ in one byte have different hashes: every step is a bijection,
  because the multiplier is odd.\<close>

lemma hash_one_byte:
  "stable_payload_hash (xs @ b # ys) = stable_payload_hash (xs @ c # ys) \<longleftrightarrow> b = c"
  unfolding stable_payload_hash_fnv using payload_hash.fold_single_byte by blast

lemma verify_loop_mismatch:
  assumes "k < length actual" "k < length expected"
    and "om_sequence (actual ! k) = om_sequence (expected ! k)"
    and "om_payload_hash (actual ! k) \<noteq> om_payload_hash (expected ! k)"
  shows "PayloadMismatch c (om_sequence (actual ! k)) (om_payload_hash (expected ! k)) (om_payload_hash (actual ! k))
    \<in> set (verify_loop c a b previous expected actual)"
  using assms
proof (induction c a b previous expected actual arbitrary: k rule: verify_loop.induct)
  case (2 c a b previous expected m actual)
  obtain e es where expected: "expected = e # es" using 2(3) by (cases expected) auto
  show ?case
  proof (cases k)
    case 0
    then show ?thesis using 2(4,5) by (simp add: expected Let_def)
  next
    case (Suc k')
    then show ?thesis using 2(1) [OF refl expected, of k'] 2(2-5) by (simp add: expected Let_def)
  qed
qed simp

text \<open>C38. Corruption is detected. If one delivered message carries the hash of its payload with one
  byte changed, and the rest of the report is as published, the oracle rejects the report and
  names that message with both hashes, wherever the byte is and whatever it was changed to.\<close>

theorem oracle_detects_corruption:
  assumes "i < n" "k < length msgs" "b \<noteq> c"
    and "om_payload_hash (msgs ! k) = stable_payload_hash (xs @ b # ys)"
  shows "\<exists>errs. verify_consumer_messages i
        (msgs[k := (msgs ! k)\<lparr>om_payload_hash := stable_payload_hash (xs @ c # ys)\<rparr>]) (oracle_of n msgs)
      = Some (Inl errs)
    \<and> PayloadMismatch i (om_sequence (msgs ! k)) (stable_payload_hash (xs @ b # ys))
        (stable_payload_hash (xs @ c # ys)) \<in> set errs"
proof -
  define bad where "bad = msgs[k := (msgs ! k)\<lparr>om_payload_hash := stable_payload_hash (xs @ c # ys)\<rparr>]"
  have "PayloadMismatch i (om_sequence (bad ! k)) (om_payload_hash (msgs ! k)) (om_payload_hash (bad ! k))
      \<in> set (verify_loop i (length msgs) (length bad) None msgs bad)"
    by (rule verify_loop_mismatch) (use assms hash_one_byte [of xs b ys c] in \<open>auto simp: bad_def\<close>)
  then have "PayloadMismatch i (om_sequence (msgs ! k)) (stable_payload_hash (xs @ b # ys))
      (stable_payload_hash (xs @ c # ys)) \<in> set (violations_of i msgs bad)"
    using assms by (simp add: violations_of_def bad_def)
  moreover have "violations_of i msgs bad \<noteq> []" using calculation by auto
  ultimately show ?thesis
    using assms(1) unfolding bad_def [symmetric]
    by (simp add: verify_consumer_messages_def oracle_of_expected verdict_def)
qed

text \<open>The second of three messages arrives with its last byte changed.\<close>

definition sent_message :: "nat \<Rightarrow> oracle_message" where
  "sent_message i = \<lparr> om_sequence = of_nat i, om_payload_hash = stable_payload_hash (payload_bytes 1 (of_nat i) 4),
     om_payload_len = 4, om_timestamp_ns = 0 \<rparr>"

theorem oracle_detects_corruption_witness:
  "\<exists>errs. verify_consumer_messages 0
       [sent_message 0, (sent_message 1)\<lparr>om_payload_hash := stable_payload_hash [18, 49, 80, 0]\<rparr>, sent_message 2]
       (oracle_of 2 [sent_message 0, sent_message 1, sent_message 2])
     = Some (Inl errs)
   \<and> PayloadMismatch 0 1 (stable_payload_hash [18, 49, 80, 111]) (stable_payload_hash [18, 49, 80, 0]) \<in> set errs"
proof -
  have bytes: "payload_bytes 1 1 4 = [18, 49, 80, 111]"
    by (simp add: payload_bytes_def upt_rec numeral_eq_Suc)
  have seq: "om_sequence (sent_message 1) = 1" by (simp add: sent_message_def)
  have hash: "om_payload_hash (sent_message 1) = stable_payload_hash [18, 49, 80, 111]"
    by (simp add: sent_message_def bytes)
  from oracle_detects_corruption [of 0 2 1 "[sent_message 0, sent_message 1, sent_message 2]" 111 0 "[18, 49, 80]" "[]"]
  show ?thesis using seq hash by simp
qed

section \<open>Restarts\<close>

definition numbered :: "oracle_message list \<Rightarrow> bool" where
  "numbered msgs \<longleftrightarrow> length msgs < 2 ^ 64 \<and> (\<forall>i < length msgs. unat (om_sequence (msgs ! i)) = i)"

lemma filter_range:
  assumes "numbered msgs" "a \<le> b" "b \<le> length msgs"
    and "unat x = a" "unat y = b"
  shows "filter (\<lambda>m. x \<le> om_sequence m \<and> om_sequence m < y) msgs = take (b - a) (drop a msgs)"
proof -
  define mid where "mid = take (b - a) (drop a msgs)"
  have split: "msgs = take a msgs @ mid @ drop b msgs"
  proof -
    have "drop a msgs = mid @ drop (b - a) (drop a msgs)"
      unfolding mid_def by (rule append_take_drop_id [symmetric])
    moreover have "drop (b - a) (drop a msgs) = drop b msgs" using assms(2) by simp
    ultimately have "drop a msgs = mid @ drop b msgs" by (simp only:)
    then show ?thesis by (metis append_take_drop_id)
  qed
  have seq: "unat (om_sequence (msgs ! i)) = i" if "i < length msgs" for i
    using assms(1) that by (simp add: numbered_def)
  have "filter (\<lambda>m. x \<le> om_sequence m \<and> om_sequence m < y) (take a msgs) = []"
    using assms(2-4) seq by (auto simp: filter_empty_conv in_set_conv_nth word_le_nat_alt)
  moreover have "filter (\<lambda>m. x \<le> om_sequence m \<and> om_sequence m < y) (drop b msgs) = []"
    using assms(3,5) seq by (auto simp: filter_empty_conv in_set_conv_nth word_less_nat_alt)
  moreover have "filter (\<lambda>m. x \<le> om_sequence m \<and> om_sequence m < y) mid = mid"
    using assms(2-5) seq by (auto simp: mid_def filter_id_conv in_set_conv_nth word_le_nat_alt word_less_nat_alt)
  ultimately show ?thesis by (subst split) (simp add: mid_def)
qed

lemma last_of_take:
  assumes "0 < m" "m \<le> length xs"
  shows "List.last (take m xs) = xs ! (m - 1)"
proof -
  have "take m xs = take (m - 1) xs @ [xs ! (m - 1)]"
    using assms take_Suc_conv_app_nth [of "m - 1" xs] by simp
  then show ?thesis by simp
qed

lemma numbered_next:
  assumes "numbered msgs" "k \<le> length msgs" "cr_messages r = take k msgs"
  shows "unat (case report_next_sequence r of None \<Rightarrow> 0 | Some n \<Rightarrow> n) = k"
proof (cases k)
  case 0
  then show ?thesis using assms(3) by (simp add: report_next_sequence_def)
next
  case (Suc j)
  then have "List.last (take k msgs) = msgs ! j" "take k msgs \<noteq> []"
    using assms(2) last_of_take [of k msgs] by auto
  moreover have "unat (om_sequence (msgs ! j)) = j" "j + 1 < 2 ^ 64"
    using assms(1,2) Suc by (auto simp: numbered_def)
  ultimately show ?thesis
    using Suc by (simp add: report_next_sequence_def assms(3) unat_plus_if_size word_size)
qed

text \<open>C39. Restarts hide losses. Let a consumer report the first \<open>k\<close> messages before a crash, and
  after its restart only those from the \<open>m\<close>-th on, for any \<open>m\<close> after \<open>k\<close>, or none at all when
  \<open>m\<close> is the number of messages. The merged report is filled up from the producer's own report,
  so that it always holds every published message and the oracle accepts it: the messages between
  \<open>k\<close> and \<open>m\<close>, which no report shows, are never missed and the run is judged a success.\<close>

theorem restart_merge_hides_loss:
  assumes "numbered msgs" "k \<le> m" "m \<le> length msgs"
    and "cr_messages producer = msgs" "cr_messages prefix = take k msgs" "cr_messages suffix = drop m msgs"
  shows "cr_messages (merge_child_reports producer (Some prefix) suffix) = msgs
    \<and> judge_run 1 producer [(suffix, Some prefix, True)]
        = Some (Inr (producer, [merge_child_reports producer (Some prefix) suffix]))"
proof -
  define gap where "gap = (case report_next_sequence prefix of None \<Rightarrow> 0 | Some n \<Rightarrow> n)"
  define first where "first = (case cr_messages suffix of [] \<Rightarrow> of_nat (length (cr_messages producer)) | x # _ \<Rightarrow> om_sequence x)"
  have seq: "unat (om_sequence (msgs ! i)) = i" if "i < length msgs" for i
    using assms(1) that by (simp add: numbered_def)
  have gap: "unat gap = k"
    unfolding gap_def by (rule numbered_next [OF assms(1) _ assms(5)]) (use assms in simp)
  have first: "unat first = m"
  proof (cases "m = length msgs")
    case True
    then show ?thesis using assms by (simp add: first_def numbered_def unsigned_of_nat take_bit_nat_eq_self)
  next
    case False
    then have "drop m msgs = msgs ! m # drop (Suc m) msgs" using assms(3) by (simp add: Cons_nth_drop_Suc)
    then show ?thesis using False assms(3,6) seq [of m] by (simp add: first_def)
  qed
  define merged where "merged = (if gap < first
      then prefix\<lparr>cr_messages := cr_messages prefix @ filter (\<lambda>x. gap \<le> om_sequence x \<and> om_sequence x < first) (cr_messages producer)\<rparr>
      else prefix)"
  have "filter (\<lambda>x. gap \<le> om_sequence x \<and> om_sequence x < first) msgs = take (m - k) (drop k msgs)"
    by (rule filter_range [OF assms(1-3) gap first])
  moreover have "take k msgs @ take (m - k) (drop k msgs) = take m msgs"
    using assms(2) by (metis take_add le_add_diff_inverse)
  moreover have "gap < first \<longleftrightarrow> k < m" by (simp add: word_less_nat_alt gap first)
  ultimately have merged: "cr_messages merged = take m msgs"
    using assms(2,4,5) by (auto simp: merged_def)
  have kept: "filter (\<lambda>x. om_sequence (List.last (take m msgs)) < om_sequence x) (drop m msgs) = drop m msgs" if "0 < m"
  proof -
    have "List.last (take m msgs) = msgs ! (m - 1)" using that assms(3) by (rule last_of_take)
    then have "unat (om_sequence (List.last (take m msgs))) = m - 1" using seq [of "m - 1"] that assms(3) by simp
    then show ?thesis using seq that by (auto simp: filter_id_conv in_set_conv_nth word_less_nat_alt)
  qed
  have messages: "cr_messages (merge_child_reports producer (Some prefix) suffix) = msgs"
    unfolding merge_child_reports_def option.case Let_def gap_def [symmetric] first_def [symmetric] merged_def [symmetric]
    using merged kept assms(3,6) by (cases "m = 0") (auto simp: append_suffix_def Let_def)
  have "sorted_wrt (<) (map om_sequence msgs)"
    using seq by (auto simp: sorted_wrt_iff_nth_less word_less_nat_alt)
  then show ?thesis
    using messages
    by (simp add: judge_run_def consumer_report_of_def assms(4) oracle_of_def [symmetric] Let_def
        verify_raw_ring_broadcast_def verify_complete_def verify_consumer_messages_def oracle_of_expected
        verdict_def violations_nil)
qed

text \<open>Three messages; the consumer saw the first before the crash and nothing after it.\<close>

theorem restart_merge_hides_loss_witness:
  "let msgs = [sent_message 0, sent_message 1, sent_message 2];
       report = (\<lambda>ms. \<lparr> cr_role = DstConsumer 0, cr_messages = ms, cr_checksum_total = 0,
                        cr_backpressure_events = 0, cr_attached_after_ms = 0 \<rparr>) in
   cr_messages (merge_child_reports (report msgs) (Some (report [sent_message 0])) (report [])) = msgs
   \<and> map_option (\<lambda>r. r \<in> range Inr) (judge_run 1 (report msgs) [(report [], Some (report [sent_message 0]), True)])
       = Some True"
proof -
  let ?msgs = "[sent_message 0, sent_message 1, sent_message 2]"
  define report where "report = (\<lambda>ms. \<lparr> cr_role = DstConsumer 0, cr_messages = ms, cr_checksum_total = 0,
                        cr_backpressure_events = 0, cr_attached_after_ms = 0 \<rparr>)"
  have "numbered ?msgs"
    by (auto simp: numbered_def sent_message_def less_Suc_eq numeral_3_eq_3)
  from restart_merge_hides_loss [OF this, of 1 3 "report ?msgs" "report [sent_message 0]" "report []"]
  have "cr_messages (merge_child_reports (report ?msgs) (Some (report [sent_message 0])) (report [])) = ?msgs
   \<and> map_option (\<lambda>r. r \<in> range Inr) (judge_run 1 (report ?msgs) [(report [], Some (report [sent_message 0]), True)])
       = Some True"
    by (simp add: report_def)
  then show ?thesis unfolding Let_def report_def .
qed

end
