(* ===== verification/Spec2Isabelle.thy ===== *)
theory Spec2Isabelle
  imports TypedTransport MmapProtocol BuilderProtocol Inference DstRuntime DstSupport Oracle
begin

text \<open>
  The lock-free core of the \<open>disruptor-mp\<close> crate.
\<close>

end
